(* ===== verification/Prelude.thy ===== *)
theory Prelude
  imports Main "HOL-Library.Product_Lexorder" "HOL-Library.List_Lexorder" "HOL-Library.Char_ord"
begin

text \<open>
  The vocabulary every component shares.

  \<^item> JSON values and Python dictionaries: a dictionary is an association list in
    insertion order, read with \<open>dget\<close> and written with \<open>dset\<close>.
  \<^item> The table algebra: a relational table is the list of its rows, and the statements
    the program issues (UPDATE .. WHERE, DELETE .. WHERE, SELECT by key, SELECT .. ORDER BY ..
    LIMIT 1) are \<open>upd_where\<close>, \<open>del_where\<close>, \<open>row_by\<close> and
    \<open>first_by\<close>.
  \<^item> Exceptions as values: \<open>bindE\<close> sequences computations of type
    \<open>'e + 'a\<close>.
  \<^item> The interfaces (locales) the components instantiate: updates that keep a key,
    sequence allocators and transition systems with an inductive invariant.
\<close>

named_theorems table_simps \<open>facts that compute with the table algebra\<close>
named_theorems row_simps \<open>how an operation acts on the columns of one row\<close>

section \<open>JSON values and dictionaries\<close>

datatype json =
    JNull
  | JBool bool
  | JInt int
  | JStr string
  | JList "json list"
  | JObj "(string \<times> json) list"

type_synonym jdict = "(string \<times> json) list"

text \<open>\<open>d.get(k)\<close>, \<open>d[k] = v\<close> and \<open>k in d\<close> on a Python dictionary.\<close>

definition dget :: "('k \<times> 'v) list \<Rightarrow> 'k \<Rightarrow> 'v option" where
  "dget d k = map_of d k"

fun dset :: "('k \<times> 'v) list \<Rightarrow> 'k \<Rightarrow> 'v \<Rightarrow> ('k \<times> 'v) list" where
  "dset [] k v = [(k, v)]"
| "dset ((k', v') # d) k v = (if k' = k then (k, v) # d else (k', v') # dset d k v)"

definition dhas :: "('k \<times> 'v) list \<Rightarrow> 'k \<Rightarrow> bool" where
  "dhas d k = (k \<in> set (map fst d))"

text \<open>\<open>{**a, **b}\<close>: the keys of \<open>b\<close> win.\<close>

definition dmerge :: "('k \<times> 'v) list \<Rightarrow> ('k \<times> 'v) list \<Rightarrow> ('k \<times> 'v) list" where
  "dmerge a b = foldl (\<lambda>d (k, v). dset d k v) a b"

lemma dget_dset [simp]: "dget (dset d k v) k' = (if k' = k then Some v else dget d k')"
  by (induction d k v rule: dset.induct) (auto simp: dget_def)

lemma dget_Nil [simp]: "dget [] k = None"
  by (simp add: dget_def)

lemma dget_Cons [simp]: "dget ((k', v) # d) k = (if k' = k then Some v else dget d k)"
  by (simp add: dget_def)

lemma dhas_iff: "dhas d k \<longleftrightarrow> dget d k \<noteq> None"
  by (induction d) (auto simp: dhas_def dget_def)

lemma keys_dset: "fst ` set (dset d k v) = insert k (fst ` set d)"
  by (induction d k v rule: dset.induct) auto

lemma distinct_dset [simp]: "distinct (map fst (dset d k v)) = distinct (map fst d)"
proof (induction d k v rule: dset.induct)
  case (2 k' v' d k v)
  have "set (map fst (dset d k v)) = insert k (set (map fst d))"
    using keys_dset [of d k v] by simp
  then show ?case
    using 2 by auto
qed simp

lemma dmerge_Cons: "dmerge a ((k, v) # b) = dmerge (dset a k v) b"
  by (simp add: dmerge_def)

lemma dget_dmerge:
  "distinct (map fst b) \<Longrightarrow>
   dget (dmerge a b) k = (case dget b k of Some v \<Rightarrow> Some v | None \<Rightarrow> dget a k)"
proof (induction b arbitrary: a)
  case Nil
  then show ?case by (simp add: dmerge_def)
next
  case (Cons kv b)
  obtain k' v where [simp]: "kv = (k', v)" by (cases kv)
  have "dget b k' = None"
    using Cons.prems by (simp add: dget_def map_of_eq_None_iff)
  then show ?case
    using Cons by (auto simp: dmerge_Cons split: option.splits)
qed

section \<open>Exceptions as values\<close>

text \<open>A raised exception is \<open>Inl\<close>; the statements after it do not run.\<close>

definition bindE :: "'e + 'a \<Rightarrow> ('a \<Rightarrow> 'e + 'b) \<Rightarrow> 'e + 'b" where
  "bindE m f = (case m of Inl e \<Rightarrow> Inl e | Inr x \<Rightarrow> f x)"

lemma bindE_simps [simp]:
  "bindE (Inl e) f = Inl e"
  "bindE (Inr x) f = f x"
  by (simp_all add: bindE_def)

lemma bindE_eq_Inr: "bindE m f = Inr y \<longleftrightarrow> (\<exists>x. m = Inr x \<and> f x = Inr y)"
  by (cases m) auto

lemma bindE_eq_Inl: "bindE m f = Inl e \<longleftrightarrow> m = Inl e \<or> (\<exists>x. m = Inr x \<and> f x = Inl e)"
  by (cases m) auto

text \<open>A loop \<open>for x in xs\<close> whose body may raise.\<close>

fun foldE :: "('s \<Rightarrow> 'x \<Rightarrow> 'e + 's) \<Rightarrow> 's \<Rightarrow> 'x list \<Rightarrow> 'e + 's" where
  "foldE f s [] = Inr s"
| "foldE f s (x # xs) = bindE (f s x) (\<lambda>s'. foldE f s' xs)"

fun mapE :: "('x \<Rightarrow> 'e + 'y) \<Rightarrow> 'x list \<Rightarrow> 'e + 'y list" where
  "mapE f [] = Inr []"
| "mapE f (x # xs) = bindE (f x) (\<lambda>y. bindE (mapE f xs) (\<lambda>ys. Inr (y # ys)))"

lemma mapE_eq_Inr: "mapE f xs = Inr ys \<longleftrightarrow> list_all2 (\<lambda>x y. f x = Inr y) xs ys"
  by (induction xs arbitrary: ys) (auto simp: bindE_eq_Inr list_all2_Cons1)

lemma mapE_pure: "(\<And>x. x \<in> set xs \<Longrightarrow> f x = Inr (g x)) \<Longrightarrow> mapE f xs = Inr (map g xs)"
  by (induction xs) simp_all

lemma mapE_member: "mapE f xs = Inr ys \<Longrightarrow> x \<in> set xs \<Longrightarrow> \<exists>y\<in>set ys. f x = Inr y"
  by (induction xs arbitrary: ys) (auto simp: bindE_eq_Inr)

lemma foldE_invariant:
  assumes "foldE f s xs = Inr s'" and "P s"
    and "\<And>s x s'. x \<in> set xs \<Longrightarrow> P s \<Longrightarrow> f s x = Inr s' \<Longrightarrow> P s'"
  shows "P s'"
  using assms by (induction f s xs rule: foldE.induct) (auto simp: bindE_eq_Inr)

lemma foldl_invariant:
  assumes "P s" and "\<And>s x. x \<in> set xs \<Longrightarrow> P s \<Longrightarrow> P (f s x)"
  shows "P (foldl f s xs)"
  using assms by (induction xs arbitrary: s) auto

section \<open>The table algebra\<close>

definition upd_where :: "('r \<Rightarrow> bool) \<Rightarrow> ('r \<Rightarrow> 'r) \<Rightarrow> 'r list \<Rightarrow> 'r list" where
  "upd_where p f t = map (\<lambda>r. if p r then f r else r) t"

definition del_where :: "('r \<Rightarrow> bool) \<Rightarrow> 'r list \<Rightarrow> 'r list" where
  "del_where p t = filter (\<lambda>r. \<not> p r) t"

definition row_by :: "('r \<Rightarrow> 'k) \<Rightarrow> 'k \<Rightarrow> 'r list \<Rightarrow> 'r option" where
  "row_by key k t = List.find (\<lambda>r. key r = k) t"

definition first_by :: "('r \<Rightarrow> 'k::linorder) \<Rightarrow> 'r list \<Rightarrow> 'r option" where
  "first_by key t = (case sort_key key t of [] \<Rightarrow> None | r # _ \<Rightarrow> Some r)"

definition exists_where :: "('r \<Rightarrow> bool) \<Rightarrow> 'r list \<Rightarrow> bool" where
  "exists_where p t = list_ex p t"

lemma exists_where_iff [table_simps]: "exists_where p t \<longleftrightarrow> (\<exists>r \<in> set t. p r)"
  by (simp add: exists_where_def list_ex_iff)

lemma upd_where_Nil [simp]: "upd_where p f [] = []"
  by (simp add: upd_where_def)

lemma upd_where_Cons [simp]:
  "upd_where p f (r # t) = (if p r then f r else r) # upd_where p f t"
  by (simp add: upd_where_def)

lemma upd_where_append [simp]: "upd_where p f (t @ t') = upd_where p f t @ upd_where p f t'"
  by (simp add: upd_where_def)

lemma length_upd_where [simp]: "length (upd_where p f t) = length t"
  by (simp add: upd_where_def)

lemma set_upd_where [table_simps]:
  "set (upd_where p f t) = (\<lambda>r. if p r then f r else r) ` set t"
  by (auto simp: upd_where_def)

lemma in_upd_whereE:
  assumes "r \<in> set (upd_where p f t)"
  obtains r0 where "r0 \<in> set t" "r = (if p r0 then f r0 else r0)"
  using assms by (auto simp: upd_where_def)

lemma map_upd_where:
  "(\<And>r. r \<in> set t \<Longrightarrow> p r \<Longrightarrow> g (f r) = g r) \<Longrightarrow> map g (upd_where p f t) = map g t"
  by (induction t) auto

lemma upd_where_id: "(\<And>r. r \<in> set t \<Longrightarrow> \<not> p r) \<Longrightarrow> upd_where p f t = t"
  by (induction t) auto

lemma set_del_where [simp]: "r \<in> set (del_where p t) \<longleftrightarrow> r \<in> set t \<and> \<not> p r"
  by (auto simp: del_where_def)

lemma distinct_map_del_where: "distinct (map g t) \<Longrightarrow> distinct (map g (del_where p t))"
  by (simp add: del_where_def distinct_map_filter)

lemma row_by_SomeD: "row_by key k t = Some r \<Longrightarrow> r \<in> set t \<and> key r = k"
  by (auto simp: row_by_def find_Some_iff)

lemma row_by_None_iff: "row_by key k t = None \<longleftrightarrow> k \<notin> key ` set t"
  by (auto simp: row_by_def find_None_iff)

lemma row_by_Nil [simp]: "row_by key k [] = None"
  by (simp add: row_by_def)

lemma row_by_Cons [simp]:
  "row_by key k (r # t) = (if key r = k then Some r else row_by key k t)"
  by (simp add: row_by_def)

lemma row_by_append [simp]:
  "row_by key k (t @ t') = (case row_by key k t of None \<Rightarrow> row_by key k t' | Some r \<Rightarrow> Some r)"
  by (induction t) auto

lemma row_by_eq_Some_iff:
  "distinct (map key t) \<Longrightarrow> row_by key k t = Some r \<longleftrightarrow> r \<in> set t \<and> key r = k"
  by (induction t) (auto simp: image_iff)

lemma distinct_key_eq:
  "distinct (map key t) \<Longrightarrow> a \<in> set t \<Longrightarrow> b \<in> set t \<Longrightarrow> key a = key b \<Longrightarrow> a = b"
  by (auto simp: distinct_map dest: inj_onD)

lemma first_by_Nil [simp]: "first_by key [] = None"
  by (simp add: first_by_def)

lemma first_by_None_iff [simp]: "first_by key t = None \<longleftrightarrow> t = []"
proof -
  have "sort_key key t = [] \<longleftrightarrow> t = []"
    by (metis length_0_conv length_sort)
  then show ?thesis by (auto simp: first_by_def split: list.splits)
qed

lemma first_by_SomeD:
  assumes "first_by key t = Some r"
  shows "r \<in> set t" and "\<And>x. x \<in> set t \<Longrightarrow> key r \<le> key x"
proof -
  obtain rs where rs: "sort_key key t = r # rs"
    using assms by (auto simp: first_by_def split: list.splits)
  have set_eq: "set (r # rs) = set t"
    using set_sort [of key t] rs by simp
  then show "r \<in> set t" by auto
  fix x assume "x \<in> set t"
  moreover have "sorted (map key (r # rs))"
    using sorted_sort_key [of key t] rs by simp
  ultimately show "key r \<le> key x"
    using set_eq by auto
qed

lemma last_sort_key:
  assumes "t \<noteq> []"
  shows "last (sort_key key t) \<in> set t" and "\<And>x. x \<in> set t \<Longrightarrow> key x \<le> key (last (sort_key key t))"
proof -
  have ne: "sort_key key t \<noteq> []"
    using assms by (metis length_0_conv length_sort)
  show "last (sort_key key t) \<in> set t"
    using last_in_set [OF ne] by simp
  fix x assume "x \<in> set t"
  then obtain i where i: "i < length (sort_key key t)" "sort_key key t ! i = x"
    by (metis in_set_conv_nth set_sort)
  have "map key (sort_key key t) ! i \<le> map key (sort_key key t) ! (length (sort_key key t) - 1)"
    using i ne by (intro sorted_nth_mono) (auto simp del: nth_map)
  then show "key x \<le> key (last (sort_key key t))"
    using i ne by (simp add: last_conv_nth)
qed

lemma option_eqI: "(\<And>t. a = Some t \<longleftrightarrow> b = Some t) \<Longrightarrow> a = b"
  by (cases a; cases b) auto

section \<open>Interfaces\<close>

text \<open>
  An UPDATE that never writes the columns \<open>key\<close> reads. Primary keys and the immutable
  columns of a deployment generation are such keys.
\<close>

locale keyed_update =
  fixes key :: "'r \<Rightarrow> 'k" and f :: "'r \<Rightarrow> 'r"
  assumes key_kept: "key (f r) = key r"
begin

lemma map_key [simp]: "map key (upd_where p f t) = map key t"
  by (simp add: map_upd_where key_kept)

lemma key_image [simp]: "key ` set (upd_where p f t) = key ` set t"
  by (metis list.set_map map_key)

lemma row_by_upd:
  "row_by key k (upd_where p f t) = map_option (\<lambda>r. if p r then f r else r) (row_by key k t)"
  by (induction t) (auto simp: key_kept)

end

text \<open>
  A per-owner sequence allocator: a successful allocation hands out the successor of the last
  value and records it. The law is what the settlement counter and the generation counter
  promise their callers.
\<close>

locale sequence_allocator =
  fixes alloc :: "'s \<Rightarrow> ('s \<times> int) option" and last_val :: "'s \<Rightarrow> int"
  assumes alloc_next: "alloc s = Some (s', n) \<Longrightarrow> n = last_val s + 1 \<and> last_val s' = n"
begin

fun allocs :: "nat \<Rightarrow> 's \<Rightarrow> int list" where
  "allocs 0 s = []"
| "allocs (Suc k) s = (case alloc s of None \<Rightarrow> [] | Some (s', n) \<Rightarrow> n # allocs k s')"

lemma allocs_above: "n \<in> set (allocs k s) \<Longrightarrow> last_val s < n"
proof (induction k arbitrary: s)
  case (Suc k)
  then obtain s' m where step: "alloc s = Some (s', m)" and n: "n = m \<or> n \<in> set (allocs k s')"
    by (cases "alloc s") auto
  from alloc_next [OF step] n Suc.IH [of s'] show ?case by auto
qed simp

lemma allocs_strictly_increasing: "sorted_wrt (<) (allocs k s)"
proof (induction k arbitrary: s)
  case (Suc k)
  show ?case
  proof (cases "alloc s")
    case (Some r)
    then obtain s' m where step: "alloc s = Some (s', m)" by (cases r) auto
    then show ?thesis
      using Suc.IH [of s'] alloc_next [OF step] allocs_above [of _ k s'] by auto
  qed simp
qed simp

end

text \<open>A step relation with an invariant that its initial states have and its steps keep.\<close>

locale invariant_system =
  fixes start :: "'s \<Rightarrow> bool" and step :: "'s \<Rightarrow> 's \<Rightarrow> bool" and inv :: "'s \<Rightarrow> bool"
  assumes inv_start: "start s \<Longrightarrow> inv s"
    and inv_step: "step s s' \<Longrightarrow> inv s \<Longrightarrow> inv s'"
begin

lemma inv_steps: "step\<^sup>*\<^sup>* s s' \<Longrightarrow> inv s \<Longrightarrow> inv s'"
  by (induction rule: rtranclp_induct) (auto intro: inv_step)

lemma inv_reachable: "start s \<Longrightarrow> step\<^sup>*\<^sup>* s s' \<Longrightarrow> inv s'"
  by (blast intro: inv_start inv_steps)

end

text \<open>
  An exclusive lock per owner \<open>'o\<close>, taken and given back under a holder token \<open>'h\<close>.  The
  device claim is such a lock, with a fresh token per acquisition.
\<close>

datatype ('o, 'h) lock_event = Acquire 'o 'h | Release 'o 'h

locale exclusive_lock =
  fixes inv :: "'s \<Rightarrow> bool" and holder :: "'s \<Rightarrow> 'o \<Rightarrow> 'h option"
    and acquire :: "'o \<Rightarrow> 'h \<Rightarrow> 's \<Rightarrow> 's option" and release :: "'o \<Rightarrow> 'h \<Rightarrow> 's \<Rightarrow> 's"
  assumes acquire_holder: "inv s \<Longrightarrow> acquire d h s = Some s' \<Longrightarrow>
      holder s d = None \<and> holder s' d = Some h \<and> (\<forall>e. e \<noteq> d \<longrightarrow> holder s' e = holder s e)"
    and acquire_inv: "inv s \<Longrightarrow> acquire d h s = Some s' \<Longrightarrow> inv s'"
    and release_holder: "inv s \<Longrightarrow>
      holder (release d h s) = (holder s)(d := if holder s d = Some h then None else holder s d)"
    and release_inv: "inv s \<Longrightarrow> inv (release d h s)"
begin

fun run_event :: "'s \<Rightarrow> ('o, 'h) lock_event \<Rightarrow> 's" where
  "run_event s (Acquire d h) = (case acquire d h s of None \<Rightarrow> s | Some s' \<Rightarrow> s')"
| "run_event s (Release d h) = release d h s"

lemma run_event_inv: "inv s \<Longrightarrow> inv (run_event s e)"
  by (cases e) (auto split: option.splits intro: acquire_inv release_inv)

lemma run_events_inv: "inv s \<Longrightarrow> inv (foldl run_event s es)"
  by (induction es arbitrary: s) (auto intro: run_event_inv)

lemma holder_kept: "inv s \<Longrightarrow> holder s d = Some h \<Longrightarrow> Release d h \<noteq> e \<Longrightarrow> holder (run_event s e) d = Some h"
proof (cases e)
  case (Acquire d' h')
  assume "inv s" "holder s d = Some h"
  then show ?thesis
    using acquire_holder [of s d' h'] Acquire by (cases "d' = d") (auto split: option.splits)
qed (auto simp: release_holder)

text \<open>A holder stays the holder until it releases, whatever others attempt.\<close>

lemma holder_until_release:
  "inv s \<Longrightarrow> holder s d = Some h \<Longrightarrow> Release d h \<notin> set es \<Longrightarrow> holder (foldl run_event s es) d = Some h"
  by (induction es arbitrary: s) (auto intro: holder_kept run_event_inv)

lemma acquire_excludes:
  "inv s \<Longrightarrow> holder s d = Some h \<Longrightarrow> Release d h \<notin> set es \<Longrightarrow> acquire d h' (foldl run_event s es) = None"
  using holder_until_release [of s d h es] acquire_holder [OF run_events_inv [of s es], of d h']
  by (cases "acquire d h' (foldl run_event s es)") auto

lemma not_reacquired_step:
  assumes "inv s" and "holder s d \<noteq> Some h" and "Acquire d h \<noteq> e"
  shows "holder (run_event s e) d \<noteq> Some h"
proof (cases e)
  case (Acquire d' h')
  then show ?thesis
    using assms acquire_holder [of s d' h'] by (cases "d' = d") (auto split: option.splits)
qed (use assms in \<open>auto simp: release_holder\<close>)

text \<open>A token that no longer holds the lock never holds it again unless it is acquired anew.\<close>

lemma never_reacquired:
  "inv s \<Longrightarrow> holder s d \<noteq> Some h \<Longrightarrow> Acquire d h \<notin> set es \<Longrightarrow> holder (foldl run_event s es) d \<noteq> Some h"
  by (induction es arbitrary: s) (simp_all add: run_event_inv not_reacquired_step)

end

end
