(* ===== verification/Origins.thy ===== *)
theory Origins
  imports Prelude
begin

text \<open>
  Encoding origins and refusal attribution (\<open>nso/origins.py\<close>): which logical rows and source
  rows produced a construct of the outbound document, and the all-or-nothing resolution of a
  refusal that NSO returned for it.  Then the durable form of that evidence
  (\<open>store/execution_evidence.py\<close>): serialization to JSON records and back.

  A \<open>datetime\<close> is the text of its ISO form.  The catalogue of declared fields per subject
  (\<open>SUBJECTS\<close>), the digest behind a row key and the content digest are arguments of the
  operations that use them.
\<close>

section \<open>Rows, sources and bindings\<close>

type_synonym row_ref = "string \<times> string"

record source_ref =
  sr_table :: string
  sr_rows :: "int list"
  sr_content :: string
  sr_revision :: "int option"
  sr_accepted :: "string option"
  sr_join :: "(string \<times> int) option"

record settlement_owner =
  o_stream :: string
  o_table :: string
  o_row :: row_ref
  o_push :: "int option"
  o_revision :: "int option"
  o_accepted :: "string option"
  o_gen :: "int option"
  o_cohort :: "int option"
  o_content :: string

record logical_row =
  l_stream :: string
  l_row :: row_ref
  l_sources :: "source_ref list"
  l_push :: "int option"
  l_revision :: "int option"
  l_acceptance :: "string option"
  l_gen :: "int option"
  l_cohort :: "int option"
  l_carrier :: settlement_owner

type_synonym origin_key = "string \<times> row_ref \<times> string option"

datatype provenance = Current | Retained | Prior

datatype failure_reason = MissingBinding | MixedStream | MissingBaselineProvenance
  | MissingRemovalProvenance | MissingNaturalKey | InvalidSourceIdentity

datatype removal_operation = OpRemoval | OpClear

record removal_authority =
  ra_gen :: int
  ra_stream :: string
  ra_revision :: int
  ra_operation :: removal_operation
  ra_row :: row_ref
  ra_fields :: "string list"

record origin_binding =
  b_stream :: string
  b_sources :: "source_ref list"
  b_construct :: string
  b_provenance :: provenance
  b_logicals :: "logical_row list"
  b_baseline :: "int option"
  b_fingerprint :: "string option"
  b_authority :: "removal_authority option"

record origin_index =
  x_bindings :: "(origin_key \<times> origin_binding) list"
  x_unsupported :: "(origin_key \<times> failure_reason) list"
  x_retained :: "(row_ref \<times> string) list"
  x_omitted :: "(string \<times> row_ref \<times> removal_authority option) list"
  x_subjects :: "(string \<times> failure_reason) list"

record refusal =
  rf_family :: string
  rf_row :: row_ref
  rf_field :: "string option"
  rf_reason :: string
  rf_message_id :: string
  rf_message :: string
  rf_related :: "(string \<times> row_ref option \<times> string option) option"

definition empty_index :: origin_index where
  "empty_index = \<lparr>x_bindings = [], x_unsupported = [], x_retained = [], x_omitted = [], x_subjects = []\<rparr>"

section \<open>Building the index\<close>

definition ddel :: "('k \<times> 'v) list \<Rightarrow> 'k \<Rightarrow> ('k \<times> 'v) list" where
  "ddel d k = filter (\<lambda>(k', _). k' \<noteq> k) d"

text \<open>\<open>None\<close> is the raised \<open>OriginConstructionError\<close>: two producers of one construct.\<close>

definition index_merge :: "origin_index \<Rightarrow> origin_index \<Rightarrow> origin_index option" where
  "index_merge a b =
     (if list_ex (\<lambda>k. dhas (x_bindings b) k \<or> dhas (x_unsupported b) k)
           (map fst (x_bindings a) @ map fst (x_unsupported a))
      then None
      else Some (a\<lparr>x_bindings := dmerge (x_bindings a) (x_bindings b),
                   x_unsupported := dmerge (x_unsupported a) (x_unsupported b),
                   x_retained := x_retained a @ x_retained b,
                   x_omitted := x_omitted a @ x_omitted b,
                   x_subjects := dmerge (x_subjects a) (x_subjects b)\<rparr>))"

definition mark_one :: "string \<Rightarrow> row_ref \<Rightarrow> failure_reason \<Rightarrow> bool \<Rightarrow> origin_index \<Rightarrow> string option \<Rightarrow> origin_index" where
  "mark_one family row reason preserve ix declared =
     (let key = (family, row, declared) in
      if preserve \<and> (case dget (x_bindings ix) key of None \<Rightarrow> False | Some b \<Rightarrow> b_provenance b = Current) then ix
      else ix\<lparr>x_bindings := ddel (x_bindings ix) key, x_unsupported := dset (x_unsupported ix) key reason\<rparr>)"

definition mark_unsupported ::
  "(string \<Rightarrow> string list) \<Rightarrow> string \<Rightarrow> row_ref \<Rightarrow> failure_reason \<Rightarrow> bool \<Rightarrow> origin_index \<Rightarrow> origin_index" where
  "mark_unsupported fields_of family row reason preserve ix =
     foldl (mark_one family row reason preserve) ix (None # map Some (fields_of (fst row)))"

text \<open>\<open>route_row\<close> and \<open>family_row\<close> are the row references of the entry and of the family.\<close>

definition record_retained ::
  "(string \<Rightarrow> string list) \<Rightarrow> row_ref \<Rightarrow> row_ref \<Rightarrow> string \<Rightarrow> origin_index \<Rightarrow> origin_index" where
  "record_retained fields_of route_row family_row fingerprint ix =
     mark_unsupported fields_of ''static-route'' family_row MissingBaselineProvenance False
       (mark_unsupported fields_of ''static-route'' route_row MissingBaselineProvenance False
          (ix\<lparr>x_retained := x_retained ix @ [(route_row, fingerprint)]\<rparr>))"

definition record_omission ::
  "(string \<Rightarrow> string list) \<Rightarrow> string \<Rightarrow> row_ref \<Rightarrow> removal_authority option \<Rightarrow> origin_index \<Rightarrow> origin_index" where
  "record_omission fields_of family row auth ix =
     mark_unsupported fields_of family row MissingRemovalProvenance True
       (ix\<lparr>x_omitted := x_omitted ix @ [(family, row, auth)]\<rparr>)"

text \<open>\<open>OriginRecorder._bind\<close>; \<open>None\<close> is the duplicate-origin error.\<close>

definition bind_origin ::
  "origin_index \<Rightarrow> origin_key \<Rightarrow> logical_row list \<Rightarrow> string \<Rightarrow> source_ref list option \<Rightarrow> origin_index option" where
  "bind_origin ix key logicals construct sources =
     (if dhas (x_bindings ix) key \<or> dhas (x_unsupported ix) key then None
      else if length (remdups (map l_stream logicals)) \<noteq> 1 then
        Some (ix\<lparr>x_unsupported := dset (x_unsupported ix) key
                  (if logicals \<noteq> [] then MixedStream else MissingBinding)\<rparr>)
      else
        let refs = (case sources of Some rs \<Rightarrow> rs
                    | None \<Rightarrow> rev (remdups (rev (concat (map l_sources logicals)))))
        in Some (ix\<lparr>x_bindings := dset (x_bindings ix) key
             \<lparr>b_stream = l_stream (hd logicals), b_sources = refs, b_construct = construct,
              b_provenance = Current, b_logicals = logicals, b_baseline = None, b_fingerprint = None,
              b_authority = None\<rparr>\<rparr>))"

section \<open>Membership and attribution\<close>

text \<open>A stream's frozen context: generation, push sequences and revisions.\<close>

record stream_context =
  sc_gen :: "int option"
  sc_push :: "(string \<times> int option) list"
  sc_revisions :: "(string \<times> int) list"

definition context_matches :: "(string \<times> stream_context) list \<Rightarrow> logical_row \<Rightarrow> bool" where
  "context_matches carried l = (case dget carried (l_stream l) of None \<Rightarrow> False
     | Some c \<Rightarrow> l_gen l = sc_gen c \<and> l_revision l = dget (sc_revisions c) (l_stream l) \<and>
         l_push l = Option.bind (dget (sc_push c) (l_stream l)) id)"

definition current_membership :: "origin_index \<Rightarrow> (string \<times> stream_context) list \<Rightarrow> logical_row list" where
  "current_membership ix carried = rev (remdups (rev
     (concat (map (\<lambda>(_, b). if b_provenance b = Current then filter (context_matches carried) (b_logicals b) else [])
        (x_bindings ix)))))"

definition hex_char :: "char \<Rightarrow> bool" where
  "hex_char c = (c \<in> set ''0123456789abcdef'')"

text \<open>An ISO text with an offset ends in a sign, two digits, a colon and two digits.\<close>

definition tz_aware :: "string \<Rightarrow> bool" where
  "tz_aware ts = (6 \<le> length ts \<and> (ts ! (length ts - 6) = CHR ''+'' \<or> ts ! (length ts - 6) = CHR ''-''))"

definition valid_source :: "source_ref \<Rightarrow> bool" where
  "valid_source r = (sr_table r \<noteq> [] \<and> length (sr_rows r) = 1 \<and> sr_rows r ! 0 > 0 \<and>
     length (sr_content r) = 64 \<and> list_all hex_char (sr_content r) \<and>
     (case sr_accepted r of None \<Rightarrow> True | Some ts \<Rightarrow> tz_aware ts))"

type_synonym attributed = "refusal \<times> source_ref list \<times> logical_row list"

definition refusal_key :: "refusal \<Rightarrow> origin_key" where
  "refusal_key r = (rf_family r, rf_row r, rf_field r)"

definition resolve_one :: "origin_index \<Rightarrow> refusal \<Rightarrow> failure_reason + attributed" where
  "resolve_one ix r =
     (let key = refusal_key r in
      case dget (x_unsupported ix) key of Some reason \<Rightarrow> Inl reason
      | None \<Rightarrow>
        (case dget (x_bindings ix) key of
           None \<Rightarrow> (case dget (x_subjects ix) (fst (rf_row r)) of Some reason \<Rightarrow> Inl reason
                    | None \<Rightarrow> Inl MissingBinding)
         | Some b \<Rightarrow>
             if b_provenance b = Retained \<and> (b_baseline b = None \<or> b_fingerprint b = None)
             then Inl MissingBaselineProvenance
             else if b_provenance b = Prior \<and> (b_baseline b = None \<or> b_authority b = None)
             then Inl MissingRemovalProvenance
             else if b_logicals b = [] \<or> b_sources b = [] \<or> list_ex (\<lambda>x. \<not> valid_source x) (b_sources b)
             then Inl InvalidSourceIdentity
             else if list_ex (\<lambda>l. l_sources l = [] \<or> list_ex (\<lambda>x. \<not> valid_source x) (l_sources l)) (b_logicals b)
             then Inl InvalidSourceIdentity
             else if list_ex (\<lambda>l. l_stream l \<noteq> b_stream b \<or> o_stream (l_carrier l) \<noteq> b_stream b) (b_logicals b)
             then Inl MixedStream
             else Inr (r, b_sources b, b_logicals b)))"

fun resolve_refusals :: "refusal list \<Rightarrow> origin_index \<Rightarrow> failure_reason + attributed list" where
  "resolve_refusals [] ix = Inr []"
| "resolve_refusals (r # rs) ix = (case resolve_one ix r of
     Inl reason \<Rightarrow> Inl reason
   | Inr a \<Rightarrow> (case resolve_refusals rs ix of Inl reason \<Rightarrow> Inl reason | Inr xs \<Rightarrow> Inr (a # xs)))"

end
