(* ===== verification/Evidence_Records.thy ===== *)
theory Evidence_Records
  imports Origins "HOL-Library.Monad_Syntax"
begin

text \<open>
  The durable form of execution evidence (\<open>store/execution_evidence.py\<close>, and the
  \<open>public_record\<close> methods of \<open>nso/origins.py\<close>): sources, logical rows and the origin index as
  JSON records and the decoders that rebuild them.  A decoder that would raise a
  \<open>KeyError\<close> or \<open>TypeError\<close> returns \<open>None\<close>.
\<close>

section \<open>Scalars\<close>

definition j_of_int_opt :: "int option \<Rightarrow> json" where
  "j_of_int_opt v = (case v of None \<Rightarrow> JNull | Some i \<Rightarrow> JInt i)"

definition j_of_str_opt :: "string option \<Rightarrow> json" where
  "j_of_str_opt v = (case v of None \<Rightarrow> JNull | Some t \<Rightarrow> JStr t)"

definition j_of_row :: "row_ref \<Rightarrow> json" where
  "j_of_row r = JObj [(''subject'', JStr (fst r)), (''key'', JStr (snd r))]"

definition j_get :: "json \<Rightarrow> string \<Rightarrow> json option" where
  "j_get j k = (case j of JObj d \<Rightarrow> dget d k | _ \<Rightarrow> None)"

definition d_int :: "json \<Rightarrow> int option" where
  "d_int j = (case j of JInt i \<Rightarrow> Some i | _ \<Rightarrow> None)"

definition d_str :: "json \<Rightarrow> string option" where
  "d_str j = (case j of JStr t \<Rightarrow> Some t | _ \<Rightarrow> None)"

definition d_list :: "json \<Rightarrow> json list option" where
  "d_list j = (case j of JList xs \<Rightarrow> Some xs | _ \<Rightarrow> None)"

definition d_int_opt :: "json \<Rightarrow> int option option" where
  "d_int_opt j = (case j of JNull \<Rightarrow> Some None | JInt i \<Rightarrow> Some (Some i) | _ \<Rightarrow> None)"

definition d_str_opt :: "json \<Rightarrow> string option option" where
  "d_str_opt j = (case j of JNull \<Rightarrow> Some None | JStr t \<Rightarrow> Some (Some t) | _ \<Rightarrow> None)"

text \<open>\<open>datetime.fromisoformat(x) if x else None\<close>: a missing or empty text is no timestamp.\<close>

definition d_time_opt :: "json \<Rightarrow> string option option" where
  "d_time_opt j = (case j of JNull \<Rightarrow> Some None | JStr t \<Rightarrow> Some (if t = [] then None else Some t) | _ \<Rightarrow> None)"

definition d_row :: "json \<Rightarrow> row_ref option" where
  "d_row j = do {
     a \<leftarrow> j_get j ''subject''; a' \<leftarrow> d_str a;
     b \<leftarrow> j_get j ''key''; b' \<leftarrow> d_str b;
     Some (a', b') }"

fun d_map :: "(json \<Rightarrow> 'a option) \<Rightarrow> json list \<Rightarrow> 'a list option" where
  "d_map f [] = Some []"
| "d_map f (x # xs) = do { y \<leftarrow> f x; ys \<leftarrow> d_map f xs; Some (y # ys) }"

section \<open>Encoders\<close>

definition source_record :: "source_ref \<Rightarrow> json" where
  "source_record r = JObj [
     (''source_table'', JStr (sr_table r)),
     (''frozen_row_identity'', JList (map JInt (sr_rows r))),
     (''content_identity'', JStr (sr_content r)),
     (''frozen_revision'', j_of_int_opt (sr_revision r)),
     (''accepted_at'', j_of_str_opt (sr_accepted r)),
     (''live_stamp_join'', case sr_join r of None \<Rightarrow> JNull | Some (t, i) \<Rightarrow> JList [JStr t, JInt i])]"

definition owner_public :: "settlement_owner \<Rightarrow> json" where
  "owner_public w = JObj [
     (''stream'', JStr (o_stream w)), (''row'', j_of_row (o_row w)),
     (''source_push_seq'', j_of_int_opt (o_push w)), (''frozen_revision'', j_of_int_opt (o_revision w)),
     (''accepted_at'', j_of_str_opt (o_accepted w)), (''generation_id'', j_of_int_opt (o_gen w)),
     (''settlement_cohort'', j_of_int_opt (o_cohort w))]"

definition logical_public :: "logical_row \<Rightarrow> jdict" where
  "logical_public l = [
     (''stream'', JStr (l_stream l)), (''row'', j_of_row (l_row l)),
     (''source_push_seq'', j_of_int_opt (l_push l)), (''frozen_revision'', j_of_int_opt (l_revision l)),
     (''acceptance_identity'', j_of_str_opt (l_acceptance l)), (''generation_id'', j_of_int_opt (l_gen l)),
     (''settlement_cohort'', j_of_int_opt (l_cohort l)), (''carrier'', owner_public (l_carrier l))]"

definition logical_record :: "logical_row \<Rightarrow> json" where
  "logical_record l = JObj (logical_public l @ [
     (''sources'', JList (map source_record (l_sources l))),
     (''carrier_content_identity'', JStr (o_content (l_carrier l))),
     (''carrier_source_table'', JStr (o_table (l_carrier l)))])"

section \<open>Decoders\<close>

definition join_from :: "json \<Rightarrow> (string \<times> int) option option" where
  "join_from j = (case j of JNull \<Rightarrow> Some None | JList [] \<Rightarrow> Some None
     | JList [JStr t, JInt i] \<Rightarrow> Some (Some (t, i)) | _ \<Rightarrow> None)"

definition source_from_record :: "json \<Rightarrow> source_ref option" where
  "source_from_record j = do {
     a \<leftarrow> j_get j ''source_table''; table \<leftarrow> d_str a;
     b \<leftarrow> j_get j ''frozen_row_identity''; bs \<leftarrow> d_list b; rows \<leftarrow> d_map d_int bs;
     c \<leftarrow> j_get j ''content_identity''; content \<leftarrow> d_str c;
     d \<leftarrow> j_get j ''frozen_revision''; revn \<leftarrow> d_int_opt d;
     e \<leftarrow> j_get j ''accepted_at''; acc \<leftarrow> d_time_opt e;
     f \<leftarrow> j_get j ''live_stamp_join''; join \<leftarrow> join_from f;
     Some \<lparr>sr_table = table, sr_rows = rows, sr_content = content, sr_revision = revn, sr_accepted = acc,
           sr_join = join\<rparr> }"

definition owner_from :: "json \<Rightarrow> string \<Rightarrow> string \<Rightarrow> settlement_owner option" where
  "owner_from j table content = do {
     a \<leftarrow> j_get j ''stream''; stream \<leftarrow> d_str a;
     b \<leftarrow> j_get j ''row''; row \<leftarrow> d_row b;
     c \<leftarrow> j_get j ''source_push_seq''; push \<leftarrow> d_int_opt c;
     d \<leftarrow> j_get j ''frozen_revision''; revn \<leftarrow> d_int_opt d;
     e \<leftarrow> j_get j ''accepted_at''; acc \<leftarrow> d_time_opt e;
     f \<leftarrow> j_get j ''generation_id''; gen \<leftarrow> d_int_opt f;
     g \<leftarrow> j_get j ''settlement_cohort''; cohort \<leftarrow> d_int_opt g;
     Some \<lparr>o_stream = stream, o_table = table, o_row = row, o_push = push, o_revision = revn,
           o_accepted = acc, o_gen = gen, o_cohort = cohort, o_content = content\<rparr> }"

definition logical_from_record :: "json \<Rightarrow> logical_row option" where
  "logical_from_record j = do {
     car \<leftarrow> j_get j ''carrier'';
     ss \<leftarrow> j_get j ''sources''; ss' \<leftarrow> d_list ss; sources \<leftarrow> d_map source_from_record ss';
     ct \<leftarrow> j_get j ''carrier_source_table''; table \<leftarrow> d_str ct;
     cc \<leftarrow> j_get j ''carrier_content_identity''; content \<leftarrow> d_str cc;
     owner \<leftarrow> owner_from car table content;
     a \<leftarrow> j_get j ''stream''; stream \<leftarrow> d_str a;
     b \<leftarrow> j_get j ''row''; row \<leftarrow> d_row b;
     c \<leftarrow> j_get j ''source_push_seq''; push \<leftarrow> d_int_opt c;
     d \<leftarrow> j_get j ''frozen_revision''; revn \<leftarrow> d_int_opt d;
     e \<leftarrow> j_get j ''acceptance_identity''; acc \<leftarrow> d_str_opt e;
     f \<leftarrow> j_get j ''generation_id''; gen \<leftarrow> d_int_opt f;
     g \<leftarrow> j_get j ''settlement_cohort''; cohort \<leftarrow> d_int_opt g;
     Some \<lparr>l_stream = stream, l_row = row, l_sources = sources, l_push = push, l_revision = revn,
           l_acceptance = acc, l_gen = gen, l_cohort = cohort, l_carrier = owner\<rparr> }"

section \<open>Round trips\<close>

lemmas scalar_defs = j_of_int_opt_def j_of_str_opt_def d_int_def d_str_def d_list_def d_int_opt_def d_str_opt_def

lemma d_int_opt_of [simp]: "d_int_opt (j_of_int_opt v) = Some v"
  by (simp add: scalar_defs split: option.splits)

lemma d_str_opt_of [simp]: "d_str_opt (j_of_str_opt v) = Some v"
  by (simp add: scalar_defs split: option.splits)

lemma d_time_opt_of: "v \<noteq> Some [] \<Longrightarrow> d_time_opt (j_of_str_opt v) = Some v"
  by (auto simp: j_of_str_opt_def d_time_opt_def split: option.splits)

lemma d_scalars [simp]: "d_int (JInt i) = Some i" "d_str (JStr t) = Some t" "d_list (JList xs) = Some xs"
  by (simp_all add: scalar_defs)

lemma j_get_JObj [simp]: "j_get (JObj d) k = dget d k"
  by (simp add: j_get_def)

lemma d_row_of [simp]: "d_row (j_of_row r) = Some r"
  by (simp add: d_row_def j_of_row_def)

lemma d_map_of: "(\<And>x. x \<in> set xs \<Longrightarrow> f (g x) = Some x) \<Longrightarrow> d_map f (map g xs) = Some xs"
  by (induction xs) auto

definition timed :: "string option \<Rightarrow> bool" where
  "timed ts = (ts \<noteq> Some [])"

definition source_timed :: "source_ref \<Rightarrow> bool" where
  "source_timed r = timed (sr_accepted r)"

definition logical_timed :: "logical_row \<Rightarrow> bool" where
  "logical_timed l = (list_all source_timed (l_sources l) \<and> timed (o_accepted (l_carrier l)))"

lemma source_roundtrip: "source_timed r \<Longrightarrow> source_from_record (source_record r) = Some r"
  by (auto simp: source_from_record_def source_record_def source_timed_def timed_def d_time_opt_of
      d_map_of join_from_def split: option.splits)

lemma owner_roundtrip: "timed (o_accepted w) \<Longrightarrow> owner_from (owner_public w) (o_table w) (o_content w) = Some w"
  by (simp add: owner_from_def owner_public_def timed_def d_time_opt_of)

lemma logical_roundtrip: "logical_timed l \<Longrightarrow> logical_from_record (logical_record l) = Some l"
  by (simp add: logical_from_record_def logical_record_def logical_public_def logical_timed_def
      owner_roundtrip d_map_of source_roundtrip list_all_iff)

section \<open>The origin index\<close>

definition j_of_reason :: "failure_reason \<Rightarrow> json" where
  "j_of_reason r = JStr (case r of MissingBinding \<Rightarrow> ''missing_binding'' | MixedStream \<Rightarrow> ''mixed_stream''
     | MissingBaselineProvenance \<Rightarrow> ''missing_baseline_provenance''
     | MissingRemovalProvenance \<Rightarrow> ''missing_removal_provenance''
     | MissingNaturalKey \<Rightarrow> ''missing_natural_key'' | InvalidSourceIdentity \<Rightarrow> ''invalid_source_identity'')"

definition d_reason :: "json \<Rightarrow> failure_reason option" where
  "d_reason j = (if j = JStr ''missing_binding'' then Some MissingBinding
     else if j = JStr ''mixed_stream'' then Some MixedStream
     else if j = JStr ''missing_baseline_provenance'' then Some MissingBaselineProvenance
     else if j = JStr ''missing_removal_provenance'' then Some MissingRemovalProvenance
     else if j = JStr ''missing_natural_key'' then Some MissingNaturalKey
     else if j = JStr ''invalid_source_identity'' then Some InvalidSourceIdentity else None)"

definition j_of_provenance :: "provenance \<Rightarrow> json" where
  "j_of_provenance p = JStr (case p of Current \<Rightarrow> ''current'' | Retained \<Rightarrow> ''retained'' | Prior \<Rightarrow> ''prior'')"

definition d_provenance :: "json \<Rightarrow> provenance option" where
  "d_provenance j = (if j = JStr ''current'' then Some Current else if j = JStr ''retained'' then Some Retained
     else if j = JStr ''prior'' then Some Prior else None)"

definition authority_record :: "removal_authority option \<Rightarrow> json" where
  "authority_record v = (case v of None \<Rightarrow> JNull | Some a \<Rightarrow> JObj [
     (''generation_id'', JInt (ra_gen a)), (''stream'', JStr (ra_stream a)),
     (''frozen_revision'', JInt (ra_revision a)),
     (''operation'', JStr (case ra_operation a of OpRemoval \<Rightarrow> ''removal'' | OpClear \<Rightarrow> ''clear'')),
     (''row'', j_of_row (ra_row a)), (''fields'', JList (map JStr (ra_fields a)))])"

definition d_operation :: "json \<Rightarrow> removal_operation option" where
  "d_operation j = (if j = JStr ''removal'' then Some OpRemoval else if j = JStr ''clear'' then Some OpClear else None)"

definition authority_from :: "json \<Rightarrow> removal_authority option option" where
  "authority_from j = (if j = JNull then Some None else do {
     a \<leftarrow> j_get j ''generation_id''; gen \<leftarrow> d_int a;
     b \<leftarrow> j_get j ''stream''; stream \<leftarrow> d_str b;
     c \<leftarrow> j_get j ''frozen_revision''; revn \<leftarrow> d_int c;
     d \<leftarrow> j_get j ''operation''; opn \<leftarrow> d_operation d;
     e \<leftarrow> j_get j ''row''; row \<leftarrow> d_row e;
     f \<leftarrow> j_get j ''fields''; fs \<leftarrow> d_list f; fields \<leftarrow> d_map d_str fs;
     Some (Some \<lparr>ra_gen = gen, ra_stream = stream, ra_revision = revn, ra_operation = opn, ra_row = row,
                 ra_fields = fields\<rparr>) })"

definition key_record :: "origin_key \<Rightarrow> jdict" where
  "key_record k = [(''family'', JStr (fst k)), (''row'', j_of_row (fst (snd k))), (''field'', j_of_str_opt (snd (snd k)))]"

definition binding_record :: "origin_key \<times> origin_binding \<Rightarrow> json" where
  "binding_record kb = (case kb of (k, b) \<Rightarrow> JObj (key_record k @ [
     (''stream'', JStr (b_stream b)), (''construct'', JStr (b_construct b)),
     (''provenance'', j_of_provenance (b_provenance b)),
     (''sources'', JList (map source_record (b_sources b))),
     (''logical_rows'', JList (map logical_record (b_logicals b))),
     (''baseline_attempt_id'', j_of_int_opt (b_baseline b)),
     (''entry_fingerprint'', j_of_str_opt (b_fingerprint b)),
     (''authority'', authority_record (b_authority b))]))"

definition unsupported_record :: "origin_key \<times> failure_reason \<Rightarrow> json" where
  "unsupported_record kr = (case kr of (k, r) \<Rightarrow> JObj (key_record k @ [
     (''unsupported_reason'', j_of_reason r), (''logical_rows'', JList [])]))"

definition subject_record :: "string \<times> failure_reason \<Rightarrow> json" where
  "subject_record sr = (case sr of (t, r) \<Rightarrow> JObj [
     (''subject'', JStr t), (''unsupported_reason'', j_of_reason r), (''logical_rows'', JList [])])"

definition origin_records :: "origin_index \<Rightarrow> json list" where
  "origin_records ix = map binding_record (x_bindings ix) @ map unsupported_record (x_unsupported ix) @
     map subject_record (x_subjects ix)"

definition key_from :: "json \<Rightarrow> origin_key option" where
  "key_from j = do {
     a \<leftarrow> j_get j ''family''; family \<leftarrow> d_str a;
     b \<leftarrow> j_get j ''row''; row \<leftarrow> d_row b;
     c \<leftarrow> j_get j ''field''; fld \<leftarrow> d_str_opt c;
     Some (family, row, fld) }"

definition binding_from :: "json \<Rightarrow> origin_binding option" where
  "binding_from j = do {
     a \<leftarrow> j_get j ''stream''; stream \<leftarrow> d_str a;
     b \<leftarrow> j_get j ''sources''; bs \<leftarrow> d_list b; sources \<leftarrow> d_map source_from_record bs;
     c \<leftarrow> j_get j ''construct''; construct \<leftarrow> d_str c;
     d \<leftarrow> j_get j ''provenance''; prov \<leftarrow> d_provenance d;
     e \<leftarrow> j_get j ''logical_rows''; es \<leftarrow> d_list e; logicals \<leftarrow> d_map logical_from_record es;
     f \<leftarrow> d_int_opt (case j_get j ''baseline_attempt_id'' of None \<Rightarrow> JNull | Some v \<Rightarrow> v);
     g \<leftarrow> d_str_opt (case j_get j ''entry_fingerprint'' of None \<Rightarrow> JNull | Some v \<Rightarrow> v);
     h \<leftarrow> authority_from (case j_get j ''authority'' of None \<Rightarrow> JNull | Some v \<Rightarrow> v);
     Some \<lparr>b_stream = stream, b_sources = sources, b_construct = construct, b_provenance = prov,
           b_logicals = logicals, b_baseline = f, b_fingerprint = g, b_authority = h\<rparr> }"

definition origin_from_record :: "origin_index \<Rightarrow> json \<Rightarrow> origin_index option" where
  "origin_from_record ix j =
     (if j_get j ''family'' = None then do {
        a \<leftarrow> j_get j ''subject''; subject \<leftarrow> d_str a;
        b \<leftarrow> j_get j ''unsupported_reason''; reason \<leftarrow> d_reason b;
        Some (ix\<lparr>x_subjects := dset (x_subjects ix) subject reason\<rparr>) }
      else do {
        key \<leftarrow> key_from j;
        (case j_get j ''unsupported_reason'' of
           Some u \<Rightarrow> do { reason \<leftarrow> d_reason u; Some (ix\<lparr>x_unsupported := dset (x_unsupported ix) key reason\<rparr>) }
         | None \<Rightarrow> do { b \<leftarrow> binding_from j; Some (ix\<lparr>x_bindings := dset (x_bindings ix) key b\<rparr>) }) })"

fun origins_from :: "origin_index \<Rightarrow> json list \<Rightarrow> origin_index option" where
  "origins_from ix [] = Some ix"
| "origins_from ix (j # js) = do { ix' \<leftarrow> origin_from_record ix j; origins_from ix' js }"

definition origins_from_records :: "json list \<Rightarrow> origin_index option" where
  "origins_from_records js = origins_from empty_index js"

section \<open>The index round trip\<close>

lemma d_reason_of [simp]: "d_reason (j_of_reason r) = Some r"
  by (cases r) (simp_all add: d_reason_def j_of_reason_def)

lemma d_provenance_of [simp]: "d_provenance (j_of_provenance p) = Some p"
  by (cases p) (simp_all add: d_provenance_def j_of_provenance_def)

lemma authority_roundtrip [simp]: "authority_from (authority_record v) = Some v"
proof (cases v)
  case (Some a)
  then show ?thesis
    by (cases "ra_operation a") (simp_all add: authority_from_def authority_record_def d_operation_def d_map_of)
qed (simp add: authority_from_def authority_record_def)

definition binding_timed :: "origin_binding \<Rightarrow> bool" where
  "binding_timed b = (list_all source_timed (b_sources b) \<and> list_all logical_timed (b_logicals b))"

lemma binding_roundtrip: "binding_timed b \<Longrightarrow> binding_from (binding_record (k, b)) = Some b"
  by (simp add: binding_from_def binding_record_def key_record_def binding_timed_def d_map_of
      source_roundtrip logical_roundtrip list_all_iff)

lemma dset_fresh: "\<not> dhas d k \<Longrightarrow> dset d k v = d @ [(k, v)]"
  by (induction d k v rule: dset.induct) (auto simp: dhas_def)

lemma origins_from_append:
  "origins_from ix (js @ js') = Option.bind (origins_from ix js) (\<lambda>ix'. origins_from ix' js')"
  by (induction ix js rule: origins_from.induct) (auto simp: bind_assoc split: Option.bind_splits)

lemma origins_from_bindings:
  assumes "list_all (binding_timed \<circ> snd) bs" and "distinct (map fst (x_bindings ix @ bs))"
  shows "origins_from ix (map binding_record bs) = Some (ix\<lparr>x_bindings := x_bindings ix @ bs\<rparr>)"
  using assms
proof (induction bs arbitrary: ix)
  case (Cons kb bs)
  obtain k b where kb: "kb = (k, b)" by (cases kb)
  have "origin_from_record ix (binding_record (k, b)) = Some (ix\<lparr>x_bindings := dset (x_bindings ix) k b\<rparr>)"
    using Cons.prems binding_roundtrip [of b k]
    by (simp add: origin_from_record_def key_from_def kb) (simp add: binding_record_def key_record_def)
  moreover have "dset (x_bindings ix) k b = x_bindings ix @ [(k, b)]"
    using Cons.prems by (intro dset_fresh) (auto simp: dhas_def kb)
  ultimately show ?case
    using Cons.IH [of "ix\<lparr>x_bindings := x_bindings ix @ [(k, b)]\<rparr>"] Cons.prems by (simp add: kb)
qed simp

lemma origins_from_unsupported:
  assumes "distinct (map fst (x_unsupported ix @ us))"
  shows "origins_from ix (map unsupported_record us) = Some (ix\<lparr>x_unsupported := x_unsupported ix @ us\<rparr>)"
  using assms
proof (induction us arbitrary: ix)
  case (Cons kr us)
  obtain k r where kr: "kr = (k, r)" by (cases kr)
  have "origin_from_record ix (unsupported_record (k, r)) = Some (ix\<lparr>x_unsupported := dset (x_unsupported ix) k r\<rparr>)"
    by (simp add: origin_from_record_def key_from_def unsupported_record_def key_record_def)
  moreover have "dset (x_unsupported ix) k r = x_unsupported ix @ [(k, r)]"
    using Cons.prems by (intro dset_fresh) (auto simp: dhas_def kr)
  ultimately show ?case
    using Cons.IH [of "ix\<lparr>x_unsupported := x_unsupported ix @ [(k, r)]\<rparr>"] Cons.prems by (simp add: kr)
qed simp

lemma origins_from_subjects:
  assumes "distinct (map fst (x_subjects ix @ us))"
  shows "origins_from ix (map subject_record us) = Some (ix\<lparr>x_subjects := x_subjects ix @ us\<rparr>)"
  using assms
proof (induction us arbitrary: ix)
  case (Cons kr us)
  obtain k r where kr: "kr = (k, r)" by (cases kr)
  have "origin_from_record ix (subject_record (k, r)) = Some (ix\<lparr>x_subjects := dset (x_subjects ix) k r\<rparr>)"
    by (simp add: origin_from_record_def subject_record_def)
  moreover have "dset (x_subjects ix) k r = x_subjects ix @ [(k, r)]"
    using Cons.prems by (intro dset_fresh) (auto simp: dhas_def kr)
  ultimately show ?case
    using Cons.IH [of "ix\<lparr>x_subjects := x_subjects ix @ [(k, r)]\<rparr>"] Cons.prems by (simp add: kr)
qed simp

definition index_ok :: "origin_index \<Rightarrow> bool" where
  "index_ok ix = (distinct (map fst (x_bindings ix)) \<and> distinct (map fst (x_unsupported ix)) \<and>
     distinct (map fst (x_subjects ix)) \<and> list_all (binding_timed \<circ> snd) (x_bindings ix))"

lemma origins_roundtrip:
  assumes "index_ok ix"
  shows "origins_from_records (origin_records ix) = Some (ix\<lparr>x_retained := [], x_omitted := []\<rparr>)"
proof -
  have "origins_from empty_index (map binding_record (x_bindings ix)) = Some (empty_index\<lparr>x_bindings := x_bindings ix\<rparr>)"
    using assms by (subst origins_from_bindings) (simp_all add: index_ok_def empty_index_def)
  moreover have "origins_from (empty_index\<lparr>x_bindings := x_bindings ix\<rparr>) (map unsupported_record (x_unsupported ix)) =
      Some (empty_index\<lparr>x_bindings := x_bindings ix, x_unsupported := x_unsupported ix\<rparr>)"
    using assms by (subst origins_from_unsupported) (simp_all add: index_ok_def empty_index_def)
  moreover have "origins_from (empty_index\<lparr>x_bindings := x_bindings ix, x_unsupported := x_unsupported ix\<rparr>)
      (map subject_record (x_subjects ix)) =
      Some (empty_index\<lparr>x_bindings := x_bindings ix, x_unsupported := x_unsupported ix, x_subjects := x_subjects ix\<rparr>)"
    using assms by (subst origins_from_subjects) (simp_all add: index_ok_def empty_index_def)
  ultimately show ?thesis
    by (simp add: origins_from_records_def origin_records_def origins_from_append empty_index_def)
qed

section \<open>Attribution\<close>

text \<open>What an attributed refusal rests on: one current, fully identified binding of one stream.\<close>

definition attribution_sound :: "origin_index \<Rightarrow> attributed \<Rightarrow> bool" where
  "attribution_sound ix a = (case a of (r, sources, logicals) \<Rightarrow>
     dget (x_unsupported ix) (refusal_key r) = None \<and>
     (\<exists>b. dget (x_bindings ix) (refusal_key r) = Some b \<and> sources = b_sources b \<and> logicals = b_logicals b \<and>
        sources \<noteq> [] \<and> logicals \<noteq> [] \<and> list_all valid_source sources \<and>
        list_all (\<lambda>l. l_sources l \<noteq> [] \<and> list_all valid_source (l_sources l) \<and>
          l_stream l = b_stream b \<and> o_stream (l_carrier l) = b_stream b) logicals \<and>
        (b_provenance b = Retained \<longrightarrow> b_baseline b \<noteq> None \<and> b_fingerprint b \<noteq> None) \<and>
        (b_provenance b = Prior \<longrightarrow> b_baseline b \<noteq> None \<and> b_authority b \<noteq> None)))"

lemma resolve_one_sound: "resolve_one ix r = Inr a \<Longrightarrow> attribution_sound ix a \<and> fst a = r"
  by (auto simp: resolve_one_def attribution_sound_def Let_def list_all_iff list_ex_iff
      split: option.splits if_splits)

lemma resolve_refusals_sound:
  "resolve_refusals rs ix = Inr as \<Longrightarrow> map fst as = rs \<and> list_all (attribution_sound ix) as"
proof (induction rs arbitrary: as)
  case (Cons r rs)
  then obtain a as' where "resolve_one ix r = Inr a" "resolve_refusals rs ix = Inr as'" "as = a # as'"
    by (auto split: sum.splits)
  then show ?case using Cons.IH [of as'] resolve_one_sound [of ix r a] by simp
qed simp

lemma resolve_refusals_fails_iff:
  "isl (resolve_refusals rs ix) \<longleftrightarrow> (\<exists>r \<in> set rs. isl (resolve_one ix r))"
  by (induction rs) (auto split: sum.splits)

lemma resolve_one_cong:
  assumes "x_bindings ix = x_bindings ix'" "x_unsupported ix = x_unsupported ix'" "x_subjects ix = x_subjects ix'"
  shows "resolve_one ix r = resolve_one ix' r"
  unfolding resolve_one_def assms ..

lemma resolve_refusals_cong:
  assumes "x_bindings ix = x_bindings ix'" "x_unsupported ix = x_unsupported ix'" "x_subjects ix = x_subjects ix'"
  shows "resolve_refusals rs ix = resolve_refusals rs ix'"
  by (induction rs) (simp_all add: resolve_one_cong [OF assms] split: sum.splits)

section \<open>Properties\<close>

definition sample_source :: source_ref where
  "sample_source = \<lparr>sr_table = ''vlan_intent'', sr_rows = [4], sr_content = replicate 64 (CHR ''a''),
     sr_revision = Some 6, sr_accepted = Some ''2026-01-01T00:00:00+00:00'', sr_join = Some (''vlan_intent'', 4)\<rparr>"

definition sample_owner :: settlement_owner where
  "sample_owner = \<lparr>o_stream = ''vlan'', o_table = ''vlan_intent'', o_row = (''vlan'', ''k''), o_push = Some 3,
     o_revision = Some 6, o_accepted = None, o_gen = Some 11, o_cohort = Some 5, o_content = ''c''\<rparr>"

definition sample_logical :: logical_row where
  "sample_logical = \<lparr>l_stream = ''vlan'', l_row = (''vlan'', ''k''), l_sources = [sample_source], l_push = Some 3,
     l_revision = Some 6, l_acceptance = None, l_gen = Some 11, l_cohort = Some 5, l_carrier = sample_owner\<rparr>"

definition sample_index :: origin_index where
  "sample_index = empty_index\<lparr>x_bindings := [((''vlan'', (''vlan'', ''k''), None),
     \<lparr>b_stream = ''vlan'', b_sources = [sample_source], b_construct = ''vlan'', b_provenance = Current,
      b_logicals = [sample_logical], b_baseline = None, b_fingerprint = None, b_authority = None\<rparr>)]\<rparr>"

definition sample_refusal :: refusal where
  "sample_refusal = \<lparr>rf_family = ''vlan'', rf_row = (''vlan'', ''k''), rf_field = None, rf_reason = ''r'',
     rf_message_id = ''m'', rf_message = ''t'', rf_related = None\<rparr>"

text \<open>
  C26. The durable evidence loses nothing that attribution reads: decoding the stored records of
  an origin index gives the index back (without the encoder's working lists), so refusals
  resolve against the stored evidence exactly as they would have against the live index.
\<close>

theorem durable_evidence_roundtrip:
  assumes "index_ok ix"
  shows "\<exists>ix'. origins_from_records (origin_records ix) = Some ix' \<and> x_bindings ix' = x_bindings ix \<and>
    x_unsupported ix' = x_unsupported ix \<and> x_subjects ix' = x_subjects ix \<and>
    (\<forall>rs. resolve_refusals rs ix' = resolve_refusals rs ix)"
  using origins_roundtrip [OF assms]
  by (intro exI [of _ "ix\<lparr>x_retained := [], x_omitted := []\<rparr>"]) (auto intro: resolve_refusals_cong)

theorem durable_evidence_roundtrip_witness:
  "\<exists>ix'. origins_from_records (origin_records sample_index) = Some ix' \<and>
     resolve_refusals [sample_refusal] ix' = resolve_refusals [sample_refusal] sample_index \<and>
     x_bindings ix' \<noteq> []"
proof -
  have "index_ok sample_index" "x_bindings sample_index \<noteq> []" by code_simp+
  then show ?thesis using durable_evidence_roundtrip [of sample_index] by metis
qed

text \<open>
  C27. Refusal attribution is atomic and exact.  It succeeds exactly when every refusal resolves,
  and then every refusal, in order, is attributed to the sources and logical rows of the one
  supported binding recorded for its site, all of one stream and with complete identities.
\<close>

theorem attribution_is_atomic:
  "(isl (resolve_refusals rs ix) \<longleftrightarrow> (\<exists>r \<in> set rs. isl (resolve_one ix r))) \<and>
   (case resolve_refusals rs ix of Inl _ \<Rightarrow> True
    | Inr as \<Rightarrow> map fst as = rs \<and> list_all (attribution_sound ix) as)"
  using resolve_refusals_fails_iff [of rs ix] resolve_refusals_sound [of rs ix] by (auto split: sum.splits)

end
