(* ===== verification/Device_Store.thy ===== *)
theory Device_Store
  imports Evidence_Records
begin

text \<open>
  The tables of \<open>store/models.py\<close> that the execution engine works on: jobs, device claims,
  deployment generations, projection streams, the two per-device counters, static-route
  tombstones and execution attempts.  A table is the list of its rows in insertion order, one
  record per row, a column per field.  Columns that no modelled operation reads
  (\<open>updated_at\<close>, relationships) are left out; a JSON column is a \<open>json\<close> or a
  \<open>jdict\<close>; a timestamp is an integer number of seconds.

  Every operation of the other theories is a function on \<open>store\<close> that returns the
  store the transaction commits, or the exception that rolls it back.
\<close>

section \<open>Enumerations\<close>

datatype job_status = JQueued | JRunning | JSucceeded | JFailed

datatype job_type =
    JTSync | JTDetectDrift | JTConnect | JTApply | JTRemoval | JTProvision | JTSyncNow | JTSyncFromNso

datatype gen_mode = Networked | Detach

datatype gen_status = GPending | GRunning | GSettled | GFailed | GOutcomeUnknown | GAbandoned

section \<open>Rows\<close>

record job =
  j_id :: int
  j_type :: job_type
  j_status :: job_status
  j_coalescible :: bool
  j_device :: "int option"
  j_result :: "jdict option"
  j_error :: "jdict option"
  j_context :: "jdict option"
  j_created_at :: int
  j_started_at :: "int option"
  j_heartbeat_at :: "int option"
  j_run_attempt :: int
  j_settle_seq :: "int option"
  j_provision_attempt :: "string option"

record claim =
  c_device :: int
  c_token :: string
  c_purpose :: string
  c_job :: "int option"
  c_acquired_at :: int
  c_heartbeat_at :: int

record counter =
  n_device :: int
  n_last :: int

record stream_row =
  s_device :: int
  s_stream :: string
  s_desired :: int
  s_authorized :: int
  s_applied :: int
  s_push_seq :: "int option"
  s_prepared :: "int option"
  s_document :: "jdict option"

record generation =
  g_id :: int
  g_device :: int
  g_seq :: int
  g_mode :: gen_mode
  g_status :: gen_status
  g_document :: jdict
  g_digest :: string
  g_allowed :: jdict
  g_push_seq :: "(string \<times> int) list"
  g_revisions :: "(string \<times> int) list"
  g_cohort :: "int option"
  g_removal :: "jdict option"
  g_apply_attempt :: "string option"
  g_job :: "int option"
  g_car_job :: "int option"
  g_car_status :: "job_status option"
  g_car_result :: "jdict option"
  g_car_error :: "jdict option"
  g_attempts :: int
  g_error :: "jdict option"
  g_settled_at :: "int option"

record tombstone =
  t_id :: int
  t_device :: int
  t_route :: int
  t_vrf :: string
  t_prefix :: string
  t_next_hop :: string
  t_deployed :: "(string \<times> string \<times> string) option"
  t_marking :: string
  t_job :: "int option"

datatype attempt_phase = PhPrepared | PhResponseRecorded | PhTerminal

datatype sender_phase = RpPreCommitDryRun | RpCommit | RpPostCommitVerification

text \<open>A recorded response checkpoint, keyed by the phase it was recorded in.\<close>

datatype checkpoint = CkRefused "refusal list" | CkProtocolFault | CkUnavailable | CkRejected
  | CkVerified | CkAcknowledged

datatype disposition = DInSync | DRefused | DNotApplied | DUnavailable

text \<open>
  The authority one carried generation contributes to an attempt: id, document digest, stream
  revisions, source push sequences and settlement cohort.
\<close>

type_synonym authority =
  "int \<times> string \<times> (string \<times> int) list \<times> (string \<times> int) list \<times> int option"

record attempt =
  a_id :: int
  a_device :: int
  a_gen :: int
  a_job :: "int option"
  a_job_corr :: int
  a_run_attempt :: int
  a_operation :: job_type
  a_digest :: string
  a_token :: string
  a_revisions :: "(string \<times> int) list"
  a_authorities :: "authority list"
  a_manual :: "string option"
  a_tombstones :: "int list"
  a_membership :: "logical_row list"
  a_carriers :: "settlement_owner list"
  a_origins :: origin_index
  a_phase :: attempt_phase
  a_response_phase :: "sender_phase option"
  a_classification :: "(sender_phase \<times> checkpoint) list"
  a_delivery :: "string option"
  a_commit_ack :: bool

record row_outcome =
  q_attempt :: int
  q_logical :: logical_row
  q_disposition :: disposition
  q_refusals :: "refusal list"

record store =
  st_devices :: "int list"
  st_jobs :: "job list"
  st_claims :: "claim list"
  st_settle :: "counter list"
  st_gencnt :: "counter list"
  st_streams :: "stream_row list"
  st_gens :: "generation list"
  st_tombs :: "tombstone list"
  st_attempts :: "attempt list"
  st_outcomes :: "row_outcome list"
  st_next_job :: int
  st_next_gen :: int
  st_next_attempt :: int
  st_next_cohort :: int

text \<open>
  The exceptions the modelled operations raise.  Their classes are kept apart because the
  callers distinguish them.
\<close>

datatype exn =
    ValueError string
  | RuntimeError string
  | KeyError string
  | TypeError string
  | ClaimLost
  | ClaimUnavailable
  | BookkeepingOutcomeUnknown
  | MissingSettleCounter
  | AttemptOwnershipLost
  | DeviceProjectionGone
  | GenerationModeConflict
  | GenerationNotBlocked
  | GenerationTampered
  | GenerationCarrierCorruption
  | ReleaseRefused
  | ProvisionAttemptConflict string int
  | OperationSectionAbsent string
  | CarrierGone
  | ApplyJobConflict int
  | IntegrityViolation string
  | CommitInDoubt
  | Cancelled
  | AsnRefused string json string json "json option"
  | BgpSourceAsMissing "string option"
  | PushSequenceConflict string jdict
  | PromotionProvenanceUnexecutable string
  | InterfaceEligibilityUnresolved
  | ApplyUnexecutable "(string \<times> string) list"
  | PromotionInterfaceUnresolved

section \<open>Status classes\<close>

definition job_terminal :: "job_status \<Rightarrow> bool" where
  "job_terminal s = (s = JSucceeded \<or> s = JFailed)"

definition job_live :: "job_status \<Rightarrow> bool" where
  "job_live s = (s = JQueued \<or> s = JRunning)"

definition crossable :: "gen_status \<Rightarrow> bool" where
  "crossable s = (s = GSettled \<or> s = GAbandoned)"

definition gen_terminal :: "gen_status \<Rightarrow> bool" where
  "gen_terminal s = (s = GSettled \<or> s = GFailed \<or> s = GOutcomeUnknown \<or> s = GAbandoned)"

definition gen_blocked :: "gen_status \<Rightarrow> bool" where
  "gen_blocked s = (s = GFailed \<or> s = GOutcomeUnknown)"

definition device_writing :: "job_type \<Rightarrow> bool" where
  "device_writing t = (t = JTApply \<or> t = JTRemoval)"

lemma job_live_iff: "job_live s \<longleftrightarrow> \<not> job_terminal s"
  by (cases s) (simp_all add: job_live_def job_terminal_def)

lemma gen_terminal_iff: "gen_terminal s \<longleftrightarrow> crossable s \<or> gen_blocked s"
  by (cases s) (simp_all add: gen_terminal_def crossable_def gen_blocked_def)

lemma gen_status_cases: "gen_terminal s \<or> s = GPending \<or> s = GRunning"
  by (cases s) (simp_all add: gen_terminal_def)

section \<open>Row access\<close>

abbreviation job_by_id :: "store \<Rightarrow> int \<Rightarrow> job option" where
  "job_by_id s k \<equiv> row_by j_id k (st_jobs s)"

abbreviation gen_by_id :: "store \<Rightarrow> int \<Rightarrow> generation option" where
  "gen_by_id s k \<equiv> row_by g_id k (st_gens s)"

definition upd_jobs :: "(job \<Rightarrow> bool) \<Rightarrow> (job \<Rightarrow> job) \<Rightarrow> store \<Rightarrow> store" where
  "upd_jobs p f s = s\<lparr>st_jobs := upd_where p f (st_jobs s)\<rparr>"

definition upd_gens :: "(generation \<Rightarrow> bool) \<Rightarrow> (generation \<Rightarrow> generation) \<Rightarrow> store \<Rightarrow> store" where
  "upd_gens p f s = s\<lparr>st_gens := upd_where p f (st_gens s)\<rparr>"

definition upd_streams :: "(stream_row \<Rightarrow> bool) \<Rightarrow> (stream_row \<Rightarrow> stream_row) \<Rightarrow> store \<Rightarrow> store" where
  "upd_streams p f s = s\<lparr>st_streams := upd_where p f (st_streams s)\<rparr>"

definition del_claims :: "(claim \<Rightarrow> bool) \<Rightarrow> store \<Rightarrow> store" where
  "del_claims p s = s\<lparr>st_claims := del_where p (st_claims s)\<rparr>"

text \<open>The columns the database trigger \<open>deployment_generation_immutable\<close> freezes.\<close>

definition gen_identity ::
  "generation \<Rightarrow> int \<times> int \<times> int \<times> gen_mode \<times> jdict \<times> string \<times> jdict \<times> (string \<times> int) list \<times>
   (string \<times> int) list \<times> jdict option \<times> int option \<times> string option" where
  "gen_identity g = (g_id g, g_device g, g_seq g, g_mode g, g_document g, g_digest g, g_allowed g,
     g_push_seq g, g_revisions g, g_removal g, g_cohort g, g_apply_attempt g)"

lemma gen_identityD:
  assumes "gen_identity g = gen_identity h"
  shows "g_id g = g_id h" "g_device g = g_device h" "g_seq g = g_seq h" "g_mode g = g_mode h"
    "g_document g = g_document h" "g_digest g = g_digest h" "g_allowed g = g_allowed h"
    "g_push_seq g = g_push_seq h" "g_revisions g = g_revisions h" "g_removal g = g_removal h"
    "g_cohort g = g_cohort h" "g_apply_attempt g = g_apply_attempt h"
  using assms by (simp_all add: gen_identity_def)

lemma upd_jobs_frame [simp]:
  "st_devices (upd_jobs p f s) = st_devices s" "st_claims (upd_jobs p f s) = st_claims s"
  "st_settle (upd_jobs p f s) = st_settle s" "st_gencnt (upd_jobs p f s) = st_gencnt s"
  "st_streams (upd_jobs p f s) = st_streams s" "st_gens (upd_jobs p f s) = st_gens s"
  "st_tombs (upd_jobs p f s) = st_tombs s" "st_attempts (upd_jobs p f s) = st_attempts s"
  "st_outcomes (upd_jobs p f s) = st_outcomes s" "st_next_job (upd_jobs p f s) = st_next_job s" "st_next_gen (upd_jobs p f s) = st_next_gen s"
  "st_jobs (upd_jobs p f s) = upd_where p f (st_jobs s)"
  by (simp_all add: upd_jobs_def)

lemma upd_gens_frame [simp]:
  "st_devices (upd_gens p f s) = st_devices s" "st_claims (upd_gens p f s) = st_claims s"
  "st_settle (upd_gens p f s) = st_settle s" "st_gencnt (upd_gens p f s) = st_gencnt s"
  "st_streams (upd_gens p f s) = st_streams s" "st_jobs (upd_gens p f s) = st_jobs s"
  "st_tombs (upd_gens p f s) = st_tombs s" "st_attempts (upd_gens p f s) = st_attempts s"
  "st_outcomes (upd_gens p f s) = st_outcomes s" "st_next_job (upd_gens p f s) = st_next_job s" "st_next_gen (upd_gens p f s) = st_next_gen s"
  "st_gens (upd_gens p f s) = upd_where p f (st_gens s)"
  by (simp_all add: upd_gens_def)

lemma upd_streams_frame [simp]:
  "st_devices (upd_streams p f s) = st_devices s" "st_claims (upd_streams p f s) = st_claims s"
  "st_settle (upd_streams p f s) = st_settle s" "st_gencnt (upd_streams p f s) = st_gencnt s"
  "st_gens (upd_streams p f s) = st_gens s" "st_jobs (upd_streams p f s) = st_jobs s"
  "st_tombs (upd_streams p f s) = st_tombs s" "st_attempts (upd_streams p f s) = st_attempts s"
  "st_outcomes (upd_streams p f s) = st_outcomes s" "st_next_job (upd_streams p f s) = st_next_job s" "st_next_gen (upd_streams p f s) = st_next_gen s"
  "st_streams (upd_streams p f s) = upd_where p f (st_streams s)"
  by (simp_all add: upd_streams_def)

lemma del_claims_frame [simp]:
  "st_devices (del_claims p s) = st_devices s" "st_jobs (del_claims p s) = st_jobs s"
  "st_settle (del_claims p s) = st_settle s" "st_gencnt (del_claims p s) = st_gencnt s"
  "st_streams (del_claims p s) = st_streams s" "st_gens (del_claims p s) = st_gens s"
  "st_tombs (del_claims p s) = st_tombs s" "st_attempts (del_claims p s) = st_attempts s"
  "st_outcomes (del_claims p s) = st_outcomes s" "st_next_job (del_claims p s) = st_next_job s" "st_next_gen (del_claims p s) = st_next_gen s"
  "st_claims (del_claims p s) = del_where p (st_claims s)"
  by (simp_all add: del_claims_def)

end
