(* ===== verification/Settle_Counter.thy ===== *)
theory Settle_Counter
  imports Device_Store
begin

text \<open>
  The per-device settlement counter of \<open>store/device_settle.py\<close>: creation with the device,
  the repair pass at startup, and the allocation inside a terminal transaction.  Rows of other
  transactions that commit while the repair waits on a device are the argument \<open>mid\<close>.
\<close>

section \<open>Operations\<close>

definition create_counter :: "int \<Rightarrow> store \<Rightarrow> store" where
  "create_counter d s = s\<lparr>st_settle := st_settle s @ [\<lparr>n_device = d, n_last = 0\<rparr>]\<rparr>"

definition has_counter :: "store \<Rightarrow> int \<Rightarrow> bool" where
  "has_counter s d = exists_where (\<lambda>c. n_device c = d) (st_settle s)"

text \<open>
  One savepoint of the repair loop: the insert waits for a concurrent offboard, fails on the
  foreign key when the device vanished, and does nothing when a row appeared meanwhile.
\<close>

definition ensure_one :: "(int \<Rightarrow> store \<Rightarrow> store) \<Rightarrow> store \<times> nat \<Rightarrow> int \<Rightarrow> store \<times> nat" where
  "ensure_one mid sc d = (case sc of (s, created) \<Rightarrow>
     let s1 = mid d s in
     if d \<notin> set (st_devices s1) then (s1, created)
     else if has_counter s1 d then (s1, created)
     else (create_counter d s1, created + 1))"

definition missing_counters :: "store \<Rightarrow> int list" where
  "missing_counters s = filter (\<lambda>d. \<not> has_counter s d) (st_devices s)"

definition ensure_settle_counters :: "(int \<Rightarrow> store \<Rightarrow> store) \<Rightarrow> store \<Rightarrow> store \<times> nat" where
  "ensure_settle_counters mid s = foldl (ensure_one mid) (s, 0) (missing_counters s)"

definition settle_last :: "int \<Rightarrow> store \<Rightarrow> int" where
  "settle_last d s = (case row_by n_device d (st_settle s) of None \<Rightarrow> 0 | Some c \<Rightarrow> n_last c)"

definition allocate_settle_seq :: "int \<Rightarrow> store \<Rightarrow> exn + store \<times> int" where
  "allocate_settle_seq d s =
     (let s1 = s\<lparr>st_settle := upd_where (\<lambda>c. n_device c = d) (\<lambda>c. c\<lparr>n_last := n_last c + 1\<rparr>) (st_settle s)\<rparr> in
      case row_by n_device d (st_settle s1) of
        None \<Rightarrow> Inl MissingSettleCounter
      | Some c \<Rightarrow> Inr (s1, n_last c))"

section \<open>Laws\<close>

interpretation bump_counter: keyed_update n_device "\<lambda>c. c\<lparr>n_last := n_last c + 1\<rparr>"
  by unfold_locales simp

lemma allocate_settle_seq_missing: "\<not> has_counter s d \<Longrightarrow> allocate_settle_seq d s = Inl MissingSettleCounter"
  by (auto simp: allocate_settle_seq_def has_counter_def table_simps Let_def bump_counter.row_by_upd
      row_by_None_iff split: option.splits dest!: row_by_SomeD)

lemma row_by_bumped:
  "row_by n_device e (upd_where (\<lambda>c. n_device c = d) (\<lambda>c. c\<lparr>n_last := n_last c + 1\<rparr>) t) =
   map_option (\<lambda>c. if e = d then c\<lparr>n_last := n_last c + 1\<rparr> else c) (row_by n_device e t)"
  unfolding bump_counter.row_by_upd by (cases "row_by n_device e t") (auto dest: row_by_SomeD)

lemma allocate_settle_seq_InrD:
  assumes "allocate_settle_seq d s = Inr (s', n)"
  shows "n = settle_last d s + 1" and "settle_last d s' = n"
    and "\<And>e. e \<noteq> d \<Longrightarrow> settle_last e s' = settle_last e s"
    and "s' = s\<lparr>st_settle := st_settle s'\<rparr>"
  using assms by (auto simp: allocate_settle_seq_def settle_last_def Let_def row_by_bumped split: option.splits)

lemma allocate_settle_seq_total: "has_counter s d \<Longrightarrow> \<exists>s' n. allocate_settle_seq d s = Inr (s', n)"
  by (auto simp: allocate_settle_seq_def has_counter_def table_simps Let_def bump_counter.row_by_upd
      row_by_None_iff split: option.splits)

lemma allocate_settle_seq_counters:
  "allocate_settle_seq d s = Inr (s', n) \<Longrightarrow> map n_device (st_settle s') = map n_device (st_settle s)"
  by (auto simp: allocate_settle_seq_def Let_def split: option.splits)

interpretation settle_alloc: sequence_allocator
    "\<lambda>s. case allocate_settle_seq d s of Inl e \<Rightarrow> None | Inr r \<Rightarrow> Some r" "settle_last d" for d
proof unfold_locales
  fix s s' n
  assume "(case allocate_settle_seq d s of Inl e \<Rightarrow> None | Inr r \<Rightarrow> Some r) = Some (s', n)"
  then have "allocate_settle_seq d s = Inr (s', n)" by (auto split: sum.splits)
  then show "n = settle_last d s + 1 \<and> settle_last d s' = n"
    using allocate_settle_seq_InrD(1,2) by auto
qed

section \<open>The repair pass\<close>

text \<open>
  What a concurrent transaction may do between two savepoints: delete devices together with
  their counters (offboard), or insert a device together with its counter.
\<close>

definition counter_respecting :: "(int \<Rightarrow> store \<Rightarrow> store) \<Rightarrow> bool" where
  "counter_respecting mid \<longleftrightarrow>
     (\<forall>d s e. e \<in> set (st_devices (mid d s)) \<longrightarrow>
        has_counter (mid d s) e \<or> (e \<in> set (st_devices s) \<and> \<not> has_counter s e))"

lemma has_counter_create [simp]: "has_counter (create_counter d s) e \<longleftrightarrow> e = d \<or> has_counter s e"
  by (auto simp: has_counter_def create_counter_def table_simps)

lemma st_devices_create [simp]: "st_devices (create_counter d s) = st_devices s"
  by (simp add: create_counter_def)

lemma ensure_one_covers:
  assumes "counter_respecting mid"
    and "\<And>e. e \<in> set (st_devices s) \<Longrightarrow> \<not> has_counter s e \<Longrightarrow> e \<in> insert d E"
    and "ensure_one mid (s, k) d = (s', k')"
  shows "e \<in> set (st_devices s') \<Longrightarrow> \<not> has_counter s' e \<Longrightarrow> e \<in> E"
  using assms unfolding counter_respecting_def
  by (auto simp: ensure_one_def Let_def split: if_splits) blast+

lemma ensure_loop_covers:
  assumes "counter_respecting mid"
    and "\<And>e. e \<in> set (st_devices s) \<Longrightarrow> \<not> has_counter s e \<Longrightarrow> e \<in> set ds"
    and "foldl (ensure_one mid) (s, k) ds = (s', k')"
  shows "\<forall>e \<in> set (st_devices s'). has_counter s' e"
  using assms(2,3)
proof (induction ds arbitrary: s k)
  case (Cons d ds)
  obtain s1 k1 where one: "ensure_one mid (s, k) d = (s1, k1)" by fastforce
  show ?case
    using Cons.IH [of s1 k1] ensure_one_covers [OF assms(1) _ one, of "set ds"] Cons.prems one by auto
qed auto

lemma ensure_settle_counters_covers:
  assumes "counter_respecting mid" and "ensure_settle_counters mid s = (s', k)"
  shows "\<forall>e \<in> set (st_devices s'). has_counter s' e"
  using assms ensure_loop_covers [of mid s "missing_counters s" 0 s' k]
  by (simp add: ensure_settle_counters_def missing_counters_def)

end
