(* ===== verification/Sample_Data.thy ===== *)
theory Sample_Data
  imports Device_Store
begin

text \<open>
  Concrete rows and a small store of one device, on which the witnesses of the development
  evaluate the operations.
\<close>

definition sample_job :: "int \<Rightarrow> job_type \<Rightarrow> job_status \<Rightarrow> int option \<Rightarrow> int \<Rightarrow> job" where
  "sample_job k ty st d attempt = \<lparr>j_id = k, j_type = ty, j_status = st, j_coalescible = (ty = JTApply \<or> ty = JTSync),
     j_device = d, j_result = None, j_error = None, j_context = None, j_created_at = k,
     j_started_at = None, j_heartbeat_at = None, j_run_attempt = attempt, j_settle_seq = None,
     j_provision_attempt = None\<rparr>"

definition sample_gen ::
  "int \<Rightarrow> int \<Rightarrow> int \<Rightarrow> gen_status \<Rightarrow> int option \<Rightarrow> (string \<times> int) list \<Rightarrow> int option \<Rightarrow> generation" where
  "sample_gen k d sq st jb revs cohort = \<lparr>g_id = k, g_device = d, g_seq = sq, g_mode = Networked, g_status = st,
     g_document = [(''vlan'', JObj [])], g_digest = ''d'', g_allowed = [], g_push_seq = [], g_revisions = revs,
     g_cohort = cohort, g_removal = None, g_apply_attempt = None, g_job = jb, g_car_job = None,
     g_car_status = None, g_car_result = None, g_car_error = None, g_attempts = 0, g_error = None,
     g_settled_at = None\<rparr>"

definition sample_stream :: "int \<Rightarrow> string \<Rightarrow> int \<Rightarrow> int \<Rightarrow> int \<Rightarrow> stream_row" where
  "sample_stream d st des auth app = \<lparr>s_device = d, s_stream = st, s_desired = des, s_authorized = auth,
     s_applied = app, s_push_seq = None, s_prepared = None, s_document = None\<rparr>"

definition sample_claim :: "int \<Rightarrow> string \<Rightarrow> int option \<Rightarrow> int \<Rightarrow> claim" where
  "sample_claim d tok jb hb = \<lparr>c_device = d, c_token = tok, c_purpose = ''job'', c_job = jb,
     c_acquired_at = hb, c_heartbeat_at = hb\<rparr>"

text \<open>
  Device 1 with a running apply job 7 that carries generation 11, whose cohort 5 has the settled
  member 10, and a queued apply job 8 that carries generation 12.
\<close>

definition sample_store :: store where
  "sample_store = \<lparr>st_devices = [1],
     st_jobs = [sample_job 6 JTRemoval JSucceeded (Some 1) 1, sample_job 7 JTApply JRunning (Some 1) 2,
                sample_job 8 JTApply JQueued (Some 1) 0],
     st_claims = [sample_claim 1 ''tok'' (Some 7) 100],
     st_settle = [\<lparr>n_device = 1, n_last = 4\<rparr>],
     st_gencnt = [\<lparr>n_device = 1, n_last = 3\<rparr>],
     st_streams = [sample_stream 1 ''vlan'' 9 9 2, sample_stream 1 ''ntp'' 4 4 1],
     st_gens = [sample_gen 10 1 1 GSettled (Some 6) [(''vlan'', 5)] (Some 5),
                sample_gen 11 1 2 GRunning (Some 7) [(''vlan'', 6), (''ntp'', 4)] (Some 5),
                sample_gen 12 1 3 GPending (Some 8) [(''vlan'', 9)] None],
     st_tombs = [], st_attempts = [], st_outcomes = [],
     st_next_job = 9, st_next_gen = 13, st_next_attempt = 1, st_next_cohort = 6\<rparr>"

lemma Inr_projr: "\<not> isl x \<Longrightarrow> x = Inr (projr x)"
  by (cases x) auto

end
