(* ===== verification/Generation_Settlement.thy ===== *)
theory Generation_Settlement
  imports Sample_Data
begin

text \<open>
  Settlement of deployment generations, from \<open>core/generation.py\<close>: which generations a job
  carries, how a starting job moves them to running, how a terminal write settles them and
  stamps the applied revisions, and how recovery returns them to pending.
\<close>

section \<open>Operations\<close>

definition job_generations :: "store \<Rightarrow> int \<Rightarrow> generation list" where
  "job_generations s k = sort_key g_seq (filter (\<lambda>g. g_job g = Some k) (st_gens s))"

definition mark_job_generations_running :: "int \<Rightarrow> store \<Rightarrow> store" where
  "mark_job_generations_running k s =
     upd_gens (\<lambda>g. g_job g = Some k \<and> g_status g = GPending)
       (\<lambda>g. g\<lparr>g_status := GRunning, g_attempts := g_attempts g + 1\<rparr>) s"

definition requeue_job_generations :: "int \<Rightarrow> store \<Rightarrow> store" where
  "requeue_job_generations k s =
     upd_gens (\<lambda>g. g_job g = Some k \<and> g_status g = GRunning) (\<lambda>g. g\<lparr>g_status := GPending\<rparr>) s"

text \<open>
  The columns one terminalization writes.  \<open>carrier\<close> is the job row read before the loop; its
  evidence is snapshotted when the job is terminal, and only onto a generation that holds no
  terminal evidence yet.
\<close>

definition snapshot_needed :: "generation \<Rightarrow> bool" where
  "snapshot_needed g = (\<not> gen_terminal (g_status g) \<or>
     (g_car_job g = None \<and> g_car_status g = None \<and> g_car_result g = None \<and> g_car_error g = None))"

definition terminal_values ::
  "gen_status \<Rightarrow> jdict option \<Rightarrow> int \<Rightarrow> job option \<Rightarrow> generation \<Rightarrow> generation" where
  "terminal_values outcome err now carrier g =
     (let need = snapshot_needed g;
          car = (case carrier of None \<Rightarrow> None | Some j \<Rightarrow> if job_terminal (j_status j) then Some j else None)
      in g\<lparr>g_status := outcome,
           g_settled_at := (if outcome = GSettled then Some now else g_settled_at g),
           g_error := (if outcome = GSettled then None
                       else case err of None \<Rightarrow> g_error g | Some e \<Rightarrow> Some e),
           g_car_job := (if need then map_option j_id car else g_car_job g),
           g_car_status := (if need then map_option j_status car else g_car_status g),
           g_car_result := (if need then Option.bind car j_result else g_car_result g),
           g_car_error := (if need then Option.bind car j_error else g_car_error g)\<rparr>)"

definition gen_matches :: "generation \<Rightarrow> gen_status list option \<Rightarrow> generation \<Rightarrow> bool" where
  "gen_matches g expected r = (g_id r = g_id g \<and> g_job r = g_job g \<and>
     (case expected of None \<Rightarrow> True | Some es \<Rightarrow> g_status r \<in> set es))"

definition terminalize_one ::
  "gen_status \<Rightarrow> jdict option \<Rightarrow> gen_status list option \<Rightarrow> int \<Rightarrow> store \<times> int list \<Rightarrow> generation
   \<Rightarrow> store \<times> int list" where
  "terminalize_one outcome err expected now sl g = (case sl of (s, landed) \<Rightarrow>
     if exists_where (gen_matches g expected) (st_gens s)
     then (upd_gens (gen_matches g expected)
             (terminal_values outcome err now (Option.bind (g_job g) (job_by_id s))) s,
           landed @ [g_id g])
     else (s, landed))"

definition terminalize_generations ::
  "store \<Rightarrow> generation list \<Rightarrow> gen_status \<Rightarrow> jdict option \<Rightarrow> gen_status list option \<Rightarrow> int
   \<Rightarrow> exn + store \<times> int list" where
  "terminalize_generations s gens outcome err expected now =
     (if \<not> gen_terminal outcome then Inl (ValueError ''terminalization requires a terminal status'')
      else Inr (foldl (terminalize_one outcome err expected now) (s, []) gens))"

type_synonym target = "int \<times> string \<times> int \<times> int option"

definition blocking_sibling :: "store \<Rightarrow> int \<Rightarrow> int option \<Rightarrow> bool" where
  "blocking_sibling s d cohort = (case cohort of None \<Rightarrow> False
     | Some c \<Rightarrow> exists_where
         (\<lambda>g. g_device g = d \<and> \<not> crossable (g_status g) \<and> g_cohort g = Some c) (st_gens s))"

definition stamp_one :: "store \<Rightarrow> target \<Rightarrow> store" where
  "stamp_one s t = (case t of (d, stream, revn, cohort) \<Rightarrow>
     upd_streams
       (\<lambda>r. s_device r = d \<and> s_stream r = stream \<and> s_applied r < revn \<and> \<not> blocking_sibling s d cohort)
       (\<lambda>r. r\<lparr>s_applied := revn\<rparr>) s)"

definition target_key :: "target \<Rightarrow> int \<times> string \<times> int \<times> bool \<times> int" where
  "target_key t = (case t of (d, stream, revn, cohort) \<Rightarrow>
     (d, stream, revn, cohort \<noteq> None, case cohort of None \<Rightarrow> 0 | Some c \<Rightarrow> c))"

definition stamp_applied_revisions :: "store \<Rightarrow> target list \<Rightarrow> store" where
  "stamp_applied_revisions s ts = foldl stamp_one s (sort_key target_key (remdups ts))"

definition gen_targets :: "generation \<Rightarrow> target list" where
  "gen_targets g = map (\<lambda>(stream, revn). (g_device g, stream, revn, g_cohort g)) (g_revisions g)"

definition stamp_settled_cohort :: "store \<Rightarrow> int \<Rightarrow> store" where
  "stamp_settled_cohort s c =
     (let members = filter (\<lambda>g. g_cohort g = Some c) (st_gens s) in
      if \<not> list_ex (\<lambda>g. g_status g = GSettled) members then s
      else stamp_applied_revisions s (concat (map gen_targets members)))"

definition cohorts_of :: "generation list \<Rightarrow> int list" where
  "cohorts_of gs = sort (remdups (concat (map (\<lambda>g. case g_cohort g of None \<Rightarrow> [] | Some c \<Rightarrow> [c]) gs)))"

definition settle_job_generations ::
  "store \<Rightarrow> int \<Rightarrow> gen_status \<Rightarrow> jdict option \<Rightarrow> int \<Rightarrow> exn + store" where
  "settle_job_generations s k outcome err now =
     (let carried = job_generations s k in
      if carried = [] then Inr s
      else bindE (terminalize_generations s carried outcome err None now) (\<lambda>(s1, landed_ids).
        let landed = filter (\<lambda>g. g_id g \<in> set landed_ids) carried in
        if outcome \<noteq> GSettled then Inr s1
        else
          let cohorts = cohorts_of landed;
              cohort_gens = filter (\<lambda>g. case g_cohort g of None \<Rightarrow> False | Some c \<Rightarrow> c \<in> set cohorts)
                              (st_gens s1);
              target_gens = filter (\<lambda>g. g_cohort g = None) landed @ cohort_gens;
              s2 = stamp_applied_revisions s1 (concat (map gen_targets target_gens))
          in Inr (foldl stamp_settled_cohort s2 (cohorts_of carried))))"

section \<open>What an update keeps of a generation\<close>

interpretation mark_running_ident: keyed_update gen_identity
    "\<lambda>g. g\<lparr>g_status := GRunning, g_attempts := g_attempts g + 1\<rparr>"
  by unfold_locales (simp add: gen_identity_def)

interpretation requeue_ident: keyed_update gen_identity "\<lambda>g. g\<lparr>g_status := GPending\<rparr>"
  by unfold_locales (simp add: gen_identity_def)

interpretation terminal_ident: keyed_update gen_identity "terminal_values outcome err now carrier"
    for outcome err now carrier
  by unfold_locales (simp add: gen_identity_def terminal_values_def Let_def)

lemma terminal_values_cols [row_simps]:
  "g_status (terminal_values outcome err now carrier g) = outcome"
  "g_job (terminal_values outcome err now carrier g) = g_job g"
  "g_id (terminal_values outcome err now carrier g) = g_id g"
  "g_device (terminal_values outcome err now carrier g) = g_device g"
  "g_seq (terminal_values outcome err now carrier g) = g_seq g"
  "g_cohort (terminal_values outcome err now carrier g) = g_cohort g"
  "g_revisions (terminal_values outcome err now carrier g) = g_revisions g"
  "g_attempts (terminal_values outcome err now carrier g) = g_attempts g"
  by (simp_all add: terminal_values_def Let_def)

lemma requeue_map_g_id [simp]: "map g_id (st_gens (requeue_job_generations k s)) = map g_id (st_gens s)"
  by (simp add: requeue_job_generations_def map_upd_where)

lemma mark_running_map_g_id [simp]: "map g_id (st_gens (mark_job_generations_running k s)) = map g_id (st_gens s)"
  by (simp add: mark_job_generations_running_def map_upd_where)

definition same_generations :: "store \<Rightarrow> store \<Rightarrow> bool" where
  "same_generations s s' = (map gen_identity (st_gens s') = map gen_identity (st_gens s))"

lemma same_generations_refl [simp]: "same_generations s s"
  by (simp add: same_generations_def)

lemma same_generations_trans: "same_generations s s' \<Longrightarrow> same_generations s' s'' \<Longrightarrow> same_generations s s''"
  by (simp add: same_generations_def)

lemma terminalize_one_same: "same_generations s (fst (terminalize_one outcome err expected now (s, l) g))"
  by (simp add: terminalize_one_def same_generations_def)

lemma terminalize_fold_same:
  "same_generations s (fst (foldl (terminalize_one outcome err expected now) (s, l) gs))"
proof (induction gs arbitrary: s l)
  case (Cons g gs)
  obtain s1 l1 where one: "terminalize_one outcome err expected now (s, l) g = (s1, l1)" by fastforce
  have "same_generations s s1"
    using terminalize_one_same [of s outcome err expected now l g] one by simp
  then show ?case
    using Cons [of s1 l1] one by (auto intro: same_generations_trans)
qed simp

lemma terminalize_generations_same:
  "terminalize_generations s gens outcome err expected now = Inr (s', l) \<Longrightarrow> same_generations s s'"
  using terminalize_fold_same [of s outcome err expected now "[]" gens]
  by (auto simp: terminalize_generations_def split: if_splits)

lemma stamp_one_gens [simp]: "st_gens (stamp_one s t) = st_gens s"
  by (cases t) (simp add: stamp_one_def)

lemma stamp_fold_gens [simp]: "st_gens (foldl stamp_one s ts) = st_gens s"
  by (induction ts arbitrary: s) simp_all

lemma stamp_applied_gens [simp]: "st_gens (stamp_applied_revisions s ts) = st_gens s"
  by (simp add: stamp_applied_revisions_def)

lemma stamp_settled_cohort_gens [simp]: "st_gens (stamp_settled_cohort s c) = st_gens s"
  by (simp add: stamp_settled_cohort_def Let_def)

lemma stamp_cohorts_gens [simp]: "st_gens (foldl stamp_settled_cohort s cs) = st_gens s"
  by (induction cs arbitrary: s) simp_all

lemma settle_job_generations_same:
  "settle_job_generations s k outcome err now = Inr s' \<Longrightarrow> same_generations s s'"
  by (auto simp: settle_job_generations_def Let_def bindE_eq_Inr same_generations_def
      dest!: terminalize_generations_same split: if_splits)

section \<open>The effect of a terminalization on the rows\<close>

lemma upd_where_upd_where:
  assumes "\<And>r. p (f r) = p r"
    and "\<And>r. p r \<Longrightarrow> \<not> q r"
  shows "upd_where p f (upd_where q f t) = upd_where (\<lambda>r. q r \<or> p r) f t"
  using assms by (induction t) auto

lemma terminalize_one_eq:
  assumes "g_job g = Some k" and "g \<in> set (st_gens s) \<or> (\<exists>r \<in> set (st_gens s). g_id r = g_id g \<and> g_job r = Some k)"
  shows "terminalize_one outcome err None now (s, l) g =
    (upd_gens (\<lambda>r. g_id r = g_id g \<and> g_job r = Some k) (terminal_values outcome err now (job_by_id s k)) s,
     l @ [g_id g])"
proof -
  have "gen_matches g None = (\<lambda>r. g_id r = g_id g \<and> g_job r = Some k)"
    using assms(1) by (auto simp: gen_matches_def fun_eq_iff)
  then show ?thesis
    using assms by (auto simp: terminalize_one_def table_simps)
qed

lemma terminalize_fold_eq:
  assumes "\<forall>g \<in> set gs. g_job g = Some k" and "distinct (map g_id gs)"
    and "\<forall>g \<in> set gs. \<exists>r \<in> set (st_gens s). g_id r = g_id g \<and> g_job r = Some k"
  shows "foldl (terminalize_one outcome err None now) (s, l) gs =
    (upd_gens (\<lambda>r. g_job r = Some k \<and> g_id r \<in> g_id ` set gs)
       (terminal_values outcome err now (job_by_id s k)) s, l @ map g_id gs)"
  using assms
proof (induction gs arbitrary: s l)
  case Nil
  then show ?case by (simp add: upd_gens_def upd_where_id)
next
  case (Cons g gs)
  let ?tv = "terminal_values outcome err now (job_by_id s k)"
  let ?s1 = "upd_gens (\<lambda>r. g_id r = g_id g \<and> g_job r = Some k) ?tv s"
  have one: "terminalize_one outcome err None now (s, l) g = (?s1, l @ [g_id g])"
    using Cons.prems by (intro terminalize_one_eq) auto
  have present: "\<forall>h \<in> set gs. \<exists>r \<in> set (st_gens ?s1). g_id r = g_id h \<and> g_job r = Some k"
  proof
    fix h assume "h \<in> set gs"
    then obtain r where "r \<in> set (st_gens s)" "g_id r = g_id h" "g_job r = Some k"
      using Cons.prems(3) by auto
    then show "\<exists>r \<in> set (st_gens ?s1). g_id r = g_id h \<and> g_job r = Some k"
      by (intro bexI [of _ "if g_id r = g_id g \<and> g_job r = Some k then ?tv r else r"])
        (auto simp: table_simps row_simps)
  qed
  have "upd_where (\<lambda>r. g_job r = Some k \<and> g_id r \<in> g_id ` set gs) ?tv
          (upd_where (\<lambda>r. g_id r = g_id g \<and> g_job r = Some k) ?tv (st_gens s)) =
        upd_where (\<lambda>r. g_job r = Some k \<and> g_id r \<in> g_id ` set (g # gs)) ?tv (st_gens s)"
    using Cons.prems(2)
    by (subst upd_where_upd_where) (auto simp: row_simps upd_where_def intro!: map_cong)
  then show ?case
    using Cons.IH [of ?s1 "l @ [g_id g]"] Cons.prems one present by (simp add: upd_gens_def)
qed

lemma set_job_generations: "set (job_generations s k) = {g \<in> set (st_gens s). g_job g = Some k}"
  by (auto simp: job_generations_def)

lemma sorted_job_generations: "sorted (map g_seq (job_generations s k))"
  by (simp add: job_generations_def)

lemma distinct_job_generations:
  assumes "distinct (map g_id (st_gens s))"
  shows "distinct (map g_id (job_generations s k))"
proof -
  have "distinct (filter (\<lambda>g. g_job g = Some k) (st_gens s))"
    using assms by (simp add: distinct_map)
  then have "distinct (job_generations s k)"
    by (simp add: job_generations_def)
  moreover have "inj_on g_id (set (job_generations s k))"
    using assms by (auto simp: distinct_map set_job_generations inj_on_def)
  ultimately show ?thesis by (simp add: distinct_map)
qed

lemma terminalize_carried_eq:
  assumes "distinct (map g_id (st_gens s))" and "gen_terminal outcome"
  shows "terminalize_generations s (job_generations s k) outcome err None now =
    Inr (upd_gens (\<lambda>r. g_job r = Some k) (terminal_values outcome err now (job_by_id s k)) s,
         map g_id (job_generations s k))"
proof -
  have "upd_where (\<lambda>r. g_job r = Some k \<and> g_id r \<in> g_id ` set (job_generations s k))
          (terminal_values outcome err now (job_by_id s k)) (st_gens s) =
        upd_where (\<lambda>r. g_job r = Some k) (terminal_values outcome err now (job_by_id s k)) (st_gens s)"
    unfolding upd_where_def by (rule map_cong) (auto simp: set_job_generations)
  then show ?thesis
    using assms terminalize_fold_eq [of "job_generations s k" k s outcome err now "[]"]
    by (auto simp: terminalize_generations_def set_job_generations distinct_job_generations upd_gens_def)
qed

lemma settle_job_generations_gens:
  assumes "distinct (map g_id (st_gens s))" and "settle_job_generations s k outcome err now = Inr s'"
  shows "st_gens s' =
    upd_where (\<lambda>r. g_job r = Some k) (terminal_values outcome err now (job_by_id s k)) (st_gens s)"
proof (cases "job_generations s k = []")
  case True
  then have "upd_where (\<lambda>r. g_job r = Some k) (terminal_values outcome err now (job_by_id s k)) (st_gens s)
      = st_gens s"
    using set_job_generations [of s k] by (intro upd_where_id) auto
  then show ?thesis
    using assms(2) True by (simp add: settle_job_generations_def)
next
  case False
  have "gen_terminal outcome"
    using assms(2) False
    by (auto simp: settle_job_generations_def terminalize_generations_def Let_def split: if_splits)
  then show ?thesis
    using assms False by (auto simp: settle_job_generations_def terminalize_carried_eq Let_def split: if_splits)
qed

section \<open>The effect of stamping on the streams\<close>

definition hit_revisions :: "store \<Rightarrow> stream_row \<Rightarrow> target list \<Rightarrow> int set" where
  "hit_revisions s r ts = {revn. \<exists>c. (s_device r, s_stream r, revn, c) \<in> set ts \<and>
     \<not> blocking_sibling s (s_device r) c}"

lemma finite_hit_revisions [simp]: "finite (hit_revisions s r ts)"
proof (rule finite_subset)
  show "hit_revisions s r ts \<subseteq> (\<lambda>t. fst (snd (snd t))) ` set ts"
    by (force simp: hit_revisions_def)
qed simp

lemma hit_revisions_Nil [simp]: "hit_revisions s r [] = {}"
  by (simp add: hit_revisions_def)

lemma blocking_sibling_gens: "st_gens s = st_gens s' \<Longrightarrow> blocking_sibling s = blocking_sibling s'"
  by (auto simp: blocking_sibling_def fun_eq_iff split: option.splits)

lemma hit_revisions_Cons:
  "hit_revisions s r ((d, stream, revn, c) # ts) =
     (if d = s_device r \<and> stream = s_stream r \<and> \<not> blocking_sibling s d c
      then insert revn (hit_revisions s r ts) else hit_revisions s r ts)"
  by (auto simp: hit_revisions_def)

lemma hit_revisions_cong:
  "st_gens s = st_gens s' \<Longrightarrow> s_device r = s_device r' \<Longrightarrow> s_stream r = s_stream r' \<Longrightarrow>
   hit_revisions s r ts = hit_revisions s' r' ts"
  by (simp add: hit_revisions_def blocking_sibling_gens [of s s'])

lemma Max_insert_insert: "finite A \<Longrightarrow> Max (insert a (insert b A)) = Max (insert (max a b) A)" for a :: int
  by (cases "A = {}") (auto simp: max.assoc)

lemma stamp_fold_streams:
  "st_streams (foldl stamp_one s ts) =
     map (\<lambda>r. r\<lparr>s_applied := Max (insert (s_applied r) (hit_revisions s r ts))\<rparr>) (st_streams s)"
proof (induction ts arbitrary: s)
  case Nil
  then show ?case by (simp add: map_idI)
next
  case (Cons t ts)
  obtain d stream revn c where t: "t = (d, stream, revn, c)" by (cases t)
  let ?f = "\<lambda>r. if s_device r = d \<and> s_stream r = stream \<and> s_applied r < revn \<and> \<not> blocking_sibling s d c
    then r\<lparr>s_applied := revn\<rparr> else r"
  let ?s1 = "stamp_one s t"
  have s1: "st_streams ?s1 = map ?f (st_streams s)"
    by (simp add: t stamp_one_def upd_where_def)
  have row: "(?f r)\<lparr>s_applied := Max (insert (s_applied (?f r)) (hit_revisions ?s1 (?f r) ts))\<rparr> =
      r\<lparr>s_applied := Max (insert (s_applied r) (hit_revisions s r (t # ts)))\<rparr>" for r
  proof -
    have h: "hit_revisions ?s1 (?f r) ts = hit_revisions s r ts"
      by (rule hit_revisions_cong) auto
    let ?hit = "d = s_device r \<and> stream = s_stream r \<and> \<not> blocking_sibling s d c"
    have a: "s_applied (?f r) = (if ?hit then max (s_applied r) revn else s_applied r)"
      by (auto simp: max_def)
    have b: "(?f r)\<lparr>s_applied := x\<rparr> = r\<lparr>s_applied := x\<rparr>" for x by simp
    show ?thesis
      unfolding a b h unfolding t hit_revisions_Cons
    proof (cases ?hit)
      case True
      show "r\<lparr>s_applied := Max (insert (if ?hit then max (s_applied r) revn else s_applied r)
              (hit_revisions s r ts))\<rparr> =
            r\<lparr>s_applied := Max (insert (s_applied r)
              (if ?hit then insert revn (hit_revisions s r ts) else hit_revisions s r ts))\<rparr>"
        unfolding if_P [OF True] Max_insert_insert [OF finite_hit_revisions] ..
    qed (simp only: if_False)
  qed
  show ?case
    using Cons.IH [of ?s1] row by (simp add: s1)
qed

lemma hit_revisions_set: "set ts = set ts' \<Longrightarrow> hit_revisions s r ts = hit_revisions s r ts'"
  by (simp add: hit_revisions_def)

lemma stamp_applied_streams:
  "st_streams (stamp_applied_revisions s ts) =
     map (\<lambda>r. r\<lparr>s_applied := Max (insert (s_applied r) (hit_revisions s r ts))\<rparr>) (st_streams s)"
  using hit_revisions_set [of "sort_key target_key (remdups ts)" ts s]
  by (simp add: stamp_applied_revisions_def stamp_fold_streams)

text \<open>
  A store in which every applied revision either stayed or moved forward to a revision the
  predicate \<open>J\<close> justifies, and nothing else of a stream row changed.
\<close>

definition row_advance :: "(int \<Rightarrow> string \<Rightarrow> int \<Rightarrow> bool) \<Rightarrow> stream_row \<Rightarrow> stream_row \<Rightarrow> bool" where
  "row_advance J r r' = (r' = r\<lparr>s_applied := s_applied r'\<rparr> \<and>
     (s_applied r' = s_applied r \<or> (s_applied r < s_applied r' \<and> J (s_device r) (s_stream r) (s_applied r'))))"

definition stream_advance :: "(int \<Rightarrow> string \<Rightarrow> int \<Rightarrow> bool) \<Rightarrow> store \<Rightarrow> store \<Rightarrow> bool" where
  "stream_advance J s s' = list_all2 (row_advance J) (st_streams s) (st_streams s')"

lemma row_advance_refl [simp]: "row_advance J r r"
  by (simp add: row_advance_def)

lemma row_advance_cols:
  assumes "row_advance J r r'"
  shows "s_device r' = s_device r" "s_stream r' = s_stream r" "s_desired r' = s_desired r"
    "s_authorized r' = s_authorized r" "s_applied r \<le> s_applied r'"
proof -
  have *: "r' = r\<lparr>s_applied := s_applied r'\<rparr>" using assms by (simp add: row_advance_def)
  show "s_device r' = s_device r" "s_stream r' = s_stream r" "s_desired r' = s_desired r"
    "s_authorized r' = s_authorized r"
    by (subst *, simp)+
  show "s_applied r \<le> s_applied r'" using assms by (auto simp: row_advance_def)
qed

lemma row_advance_trans:
  assumes "row_advance J r r'" and "row_advance J r' r''"
  shows "row_advance J r r''"
proof -
  have "r'' = r\<lparr>s_applied := s_applied r''\<rparr>"
    using assms by (metis (no_types, lifting) row_advance_def stream_row.update_convs(5) stream_row.surjective
        stream_row.select_convs)
  then show ?thesis
    using assms row_advance_cols [OF assms(1)] by (auto simp: row_advance_def)
qed

lemma stream_advance_refl [simp]: "stream_advance J s s"
  by (simp add: stream_advance_def list_all2_same)

lemma stream_advance_same: "st_streams s' = st_streams s \<Longrightarrow> stream_advance J s s'"
  by (simp add: stream_advance_def list_all2_same)

lemma stream_advance_trans:
  "stream_advance J s s' \<Longrightarrow> stream_advance J s' s'' \<Longrightarrow> stream_advance J s s''"
  unfolding stream_advance_def by (rule list_all2_trans [OF row_advance_trans])

lemma stamp_applied_advance:
  assumes "\<And>d stream revn c. (d, stream, revn, c) \<in> set ts \<Longrightarrow> \<not> blocking_sibling s d c \<Longrightarrow> J d stream revn"
  shows "stream_advance J s (stamp_applied_revisions s ts)"
proof -
  have "row_advance J r (r\<lparr>s_applied := Max (insert (s_applied r) (hit_revisions s r ts))\<rparr>)" for r
  proof -
    let ?m = "Max (insert (s_applied r) (hit_revisions s r ts))"
    have "?m \<in> insert (s_applied r) (hit_revisions s r ts)" by (rule Max_in) auto
    moreover have "s_applied r \<le> ?m" by simp
    ultimately show ?thesis
      using assms by (auto simp: row_advance_def hit_revisions_def simp del: Max_insert)
  qed
  then show ?thesis
    by (simp add: stream_advance_def stamp_applied_streams list_all2_map2 list_all2_same)
qed

section \<open>What settlement proves\<close>

text \<open>
  A revision of a stream is proved when a settled generation without a cohort carries it, or
  when a cohort carries it that has a settled member and no member of the device left that a
  successor may not cross.
\<close>

definition revision_proved :: "store \<Rightarrow> int \<Rightarrow> string \<Rightarrow> int \<Rightarrow> bool" where
  "revision_proved s d stream revn =
     (\<exists>g \<in> set (st_gens s). g_device g = d \<and> (stream, revn) \<in> set (g_revisions g) \<and>
        (case g_cohort g of None \<Rightarrow> g_status g = GSettled
         | Some c \<Rightarrow> \<not> blocking_sibling s d (Some c) \<and>
             (\<exists>h \<in> set (st_gens s). g_cohort h = Some c \<and> g_status h = GSettled)))"

lemma revision_proved_gens:
  assumes "st_gens s = st_gens s'"
  shows "revision_proved s = revision_proved s'"
  unfolding fun_eq_iff revision_proved_def assms blocking_sibling_gens [OF assms] by simp

lemma terminalize_fold_frame:
  "\<exists>gs'. fst (foldl (terminalize_one outcome err expected now) (s, l) gs) = s\<lparr>st_gens := gs'\<rparr>"
proof (induction gs arbitrary: s l)
  case Nil
  show ?case by (intro exI [of _ "st_gens s"]) simp
next
  case (Cons g gs)
  obtain s1 l1 where one: "terminalize_one outcome err expected now (s, l) g = (s1, l1)" by fastforce
  then have "\<exists>gs'. s1 = s\<lparr>st_gens := gs'\<rparr>"
    by (auto simp: terminalize_one_def upd_gens_def split: if_splits intro: exI [of _ "st_gens s"])
  then show ?case
    using Cons [of s1 l1] one by auto
qed

lemma terminalize_generations_frame:
  "terminalize_generations s gens outcome err expected now = Inr (s', l) \<Longrightarrow> \<exists>gs'. s' = s\<lparr>st_gens := gs'\<rparr>"
  using terminalize_fold_frame [of outcome err expected now s "[]" gens]
  by (auto simp: terminalize_generations_def split: if_splits)

lemma in_gen_targets:
  "(d, stream, revn, c) \<in> set (gen_targets g) \<longleftrightarrow>
   d = g_device g \<and> c = g_cohort g \<and> (stream, revn) \<in> set (g_revisions g)"
  by (auto simp: gen_targets_def)

lemma set_cohorts_of: "set (cohorts_of gs) = {c. \<exists>g \<in> set gs. g_cohort g = Some c}"
  by (auto simp: cohorts_of_def split: option.splits)

lemma stamp_settled_cohort_advance: "stream_advance (revision_proved s) s (stamp_settled_cohort s c)"
proof -
  let ?ms = "filter (\<lambda>g. g_cohort g = Some c) (st_gens s)"
  show ?thesis
  proof (cases "list_ex (\<lambda>g. g_status g = GSettled) ?ms")
    case True
    have "stream_advance (revision_proved s) s (stamp_applied_revisions s (concat (map gen_targets ?ms)))"
      using True
      by (intro stamp_applied_advance)
        (fastforce simp: in_gen_targets revision_proved_def list_ex_iff split: option.splits)
    then show ?thesis using True by (simp add: stamp_settled_cohort_def Let_def)
  qed (simp add: stamp_settled_cohort_def)
qed

lemma stamp_cohorts_advance: "stream_advance (revision_proved s) s (foldl stamp_settled_cohort s cs)"
proof (induction cs arbitrary: s)
  case (Cons c cs)
  let ?s1 = "stamp_settled_cohort s c"
  have "revision_proved ?s1 = revision_proved s" by (rule revision_proved_gens) simp
  then have "stream_advance (revision_proved s) ?s1 (foldl stamp_settled_cohort ?s1 cs)"
    using Cons [of ?s1] by simp
  then show ?case
    using stamp_settled_cohort_advance stream_advance_trans by fastforce
qed simp

lemma stamp_targets_advance:
  assumes "\<And>g. g \<in> set gs \<Longrightarrow> \<exists>g' \<in> set (st_gens s). gen_identity g' = gen_identity g \<and>
      (case g_cohort g of None \<Rightarrow> g_status g' = GSettled
       | Some c \<Rightarrow> \<exists>h \<in> set (st_gens s). g_cohort h = Some c \<and> g_status h = GSettled)"
  shows "stream_advance (revision_proved s) s (stamp_applied_revisions s (concat (map gen_targets gs)))"
proof (rule stamp_applied_advance)
  fix d stream revn c
  assume "(d, stream, revn, c) \<in> set (concat (map gen_targets gs))" and free: "\<not> blocking_sibling s d c"
  then obtain g where g: "g \<in> set gs" "d = g_device g" "c = g_cohort g" "(stream, revn) \<in> set (g_revisions g)"
    by (auto simp: in_gen_targets)
  from assms [OF g(1)] obtain g' where g': "g' \<in> set (st_gens s)" "gen_identity g' = gen_identity g"
    and just: "case g_cohort g of None \<Rightarrow> g_status g' = GSettled
       | Some c \<Rightarrow> \<exists>h \<in> set (st_gens s). g_cohort h = Some c \<and> g_status h = GSettled" by auto
  note cols = gen_identityD(2,9,11) [OF g'(2)]
  show "revision_proved s d stream revn"
    unfolding revision_proved_def
    using g g'(1) just free cols by (intro bexI [of _ g']) (auto split: option.splits)
qed

text \<open>The stores a settlement goes through, for the outcome settled.\<close>

lemma settle_settled_unfold:
  assumes ids: "distinct (map g_id (st_gens s))" and ne: "job_generations s k \<noteq> []"
    and run: "settle_job_generations s k GSettled err now = Inr s'"
  obtains s1 where
    "s1 = upd_gens (\<lambda>r. g_job r = Some k) (terminal_values GSettled err now (job_by_id s k)) s"
    "s' = foldl stamp_settled_cohort
       (stamp_applied_revisions s1 (concat (map gen_targets
          (filter (\<lambda>g. g_cohort g = None) (job_generations s k) @
           filter (\<lambda>g. case g_cohort g of None \<Rightarrow> False
             | Some c \<Rightarrow> c \<in> set (cohorts_of (job_generations s k))) (st_gens s1)))))
       (cohorts_of (job_generations s k))"
proof -
  have "filter (\<lambda>g. g_id g \<in> set (map g_id (job_generations s k))) (job_generations s k) = job_generations s k"
    by (rule filter_True) simp
  note all_landed = this
  have fin: "gen_terminal GSettled" by (simp add: gen_terminal_def)
  show ?thesis
    using run unfolding settle_job_generations_def Let_def terminalize_carried_eq [OF ids fin]
      bindE_simps prod.case all_landed if_not_P [OF ne]
    by (intro that [OF refl]) auto
qed

lemma settled_carried:
  assumes "g \<in> set (job_generations s k)"
  shows "\<exists>g' \<in> set (st_gens (upd_gens (\<lambda>r. g_job r = Some k) (terminal_values GSettled err now car) s)).
    gen_identity g' = gen_identity g \<and> g_status g' = GSettled"
  using assms
  by (intro bexI [of _ "terminal_values GSettled err now car g"])
    (auto simp: set_job_generations table_simps row_simps terminal_ident.key_kept)

lemma settle_advance:
  assumes ids: "distinct (map g_id (st_gens s))"
    and run: "settle_job_generations s k outcome err now = Inr s'"
  shows "stream_advance (revision_proved s') s s'"
proof (cases "outcome = GSettled \<and> job_generations s k \<noteq> []")
  case False
  then have "st_streams s' = st_streams s"
    using run by (auto simp: settle_job_generations_def Let_def bindE_eq_Inr split: if_splits
        dest!: terminalize_generations_frame)
  then show ?thesis by (rule stream_advance_same)
next
  case True
  let ?c = "job_generations s k"
  from True run obtain s1 where
    s1: "s1 = upd_gens (\<lambda>r. g_job r = Some k) (terminal_values GSettled err now (job_by_id s k)) s" and
    s': "s' = foldl stamp_settled_cohort
       (stamp_applied_revisions s1 (concat (map gen_targets
          (filter (\<lambda>g. g_cohort g = None) ?c @
           filter (\<lambda>g. case g_cohort g of None \<Rightarrow> False | Some c \<Rightarrow> c \<in> set (cohorts_of ?c)) (st_gens s1)))))
       (cohorts_of ?c)"
    using settle_settled_unfold [OF ids] by metis
  let ?s2 = "stamp_applied_revisions s1 (concat (map gen_targets
          (filter (\<lambda>g. g_cohort g = None) ?c @
           filter (\<lambda>g. case g_cohort g of None \<Rightarrow> False | Some c \<Rightarrow> c \<in> set (cohorts_of ?c)) (st_gens s1))))"
  have landed: "\<exists>g' \<in> set (st_gens s1). gen_identity g' = gen_identity g \<and> g_status g' = GSettled"
    if "g \<in> set ?c" for g
    unfolding s1 using that by (rule settled_carried)
  have first: "stream_advance (revision_proved s1) s1 ?s2"
  proof (rule stamp_targets_advance)
    fix g assume "g \<in> set (filter (\<lambda>g. g_cohort g = None) ?c @
        filter (\<lambda>g. case g_cohort g of None \<Rightarrow> False | Some c \<Rightarrow> c \<in> set (cohorts_of ?c)) (st_gens s1))"
    then show "\<exists>g' \<in> set (st_gens s1). gen_identity g' = gen_identity g \<and>
      (case g_cohort g of None \<Rightarrow> g_status g' = GSettled
       | Some c \<Rightarrow> \<exists>h \<in> set (st_gens s1). g_cohort h = Some c \<and> g_status h = GSettled)"
      using landed by (fastforce simp: set_cohorts_of split: option.splits dest: gen_identityD(11))
  qed
  have same: "revision_proved s1 = revision_proved s'" "revision_proved ?s2 = revision_proved s'"
    by (rule revision_proved_gens, simp add: s')+
  have A: "stream_advance (revision_proved s') s s1"
    by (rule stream_advance_same) (simp add: s1)
  have B: "stream_advance (revision_proved s') s1 ?s2"
    using first unfolding same .
  have C: "stream_advance (revision_proved s') ?s2 s'"
    using stamp_cohorts_advance [of ?s2 "cohorts_of ?c"] unfolding same s' [symmetric] .
  show ?thesis
    by (rule stream_advance_trans [OF stream_advance_trans [OF A B] C])
qed

lemma stamp_applied_reaches:
  assumes "r' \<in> set (st_streams (stamp_applied_revisions s ts))"
    and "(s_device r', s_stream r', revn, c) \<in> set ts" and "\<not> blocking_sibling s (s_device r') c"
  shows "revn \<le> s_applied r'"
proof -
  obtain r where r: "r' = r\<lparr>s_applied := Max (insert (s_applied r) (hit_revisions s r ts))\<rparr>"
    using assms(1) by (auto simp: stamp_applied_streams)
  then have "revn \<in> hit_revisions s r ts"
    using assms(2,3) by (auto simp: hit_revisions_def)
  then show ?thesis by (simp add: r Max_ge)
qed

lemma stream_advance_back:
  assumes "stream_advance J s s'" and "r' \<in> set (st_streams s')"
  obtains r where "r \<in> set (st_streams s)" "row_advance J r r'"
  using assms unfolding stream_advance_def by (metis in_set_conv_nth list_all2_conv_all_nth)

lemma settle_reaches:
  assumes ids: "distinct (map g_id (st_gens s))"
    and run: "settle_job_generations s k GSettled err now = Inr s'"
    and g: "g \<in> set (job_generations s k)"
    and r': "r' \<in> set (st_streams s')" and h: "h \<in> set (st_gens s')"
    and rv: "g_device h = s_device r'" "(s_stream r', revn) \<in> set (g_revisions h)"
    and how: "(g_cohort g = None \<and> gen_identity h = gen_identity g) \<or>
      (\<exists>c. g_cohort g = Some c \<and> g_cohort h = Some c \<and> \<not> blocking_sibling s' (s_device r') (Some c))"
  shows "revn \<le> s_applied r'"
proof -
  let ?c = "job_generations s k"
  have ne: "?c \<noteq> []" using g by auto
  from run obtain s1 where
    s': "s' = foldl stamp_settled_cohort
       (stamp_applied_revisions s1 (concat (map gen_targets
          (filter (\<lambda>g. g_cohort g = None) ?c @
           filter (\<lambda>g. case g_cohort g of None \<Rightarrow> False | Some c \<Rightarrow> c \<in> set (cohorts_of ?c)) (st_gens s1)))))
       (cohorts_of ?c)"
    using settle_settled_unfold [OF ids ne] by metis
  let ?ts = "concat (map gen_targets
          (filter (\<lambda>g. g_cohort g = None) ?c @
           filter (\<lambda>g. case g_cohort g of None \<Rightarrow> False | Some c \<Rightarrow> c \<in> set (cohorts_of ?c)) (st_gens s1)))"
  let ?s2 = "stamp_applied_revisions s1 ?ts"
  have gens: "st_gens s1 = st_gens s'" by (simp add: s')
  obtain r2 where r2: "r2 \<in> set (st_streams ?s2)" "row_advance (revision_proved ?s2) r2 r'"
    using stream_advance_back [OF stamp_cohorts_advance [of ?s2 "cohorts_of ?c"]] r' s' by metis
  note cols = row_advance_cols [OF r2(2)]
  have "\<exists>c. (s_device r2, s_stream r2, revn, c) \<in> set ?ts \<and> \<not> blocking_sibling s1 (s_device r2) c"
  proof (cases "g_cohort g")
    case None
    then have "gen_identity h = gen_identity g" using how by auto
    from gen_identityD [OF this] have "(s_device r2, s_stream r2, revn, None) \<in> set (gen_targets g)"
      using rv cols None by (simp add: in_gen_targets)
    then show ?thesis
      using g None by (intro exI [of _ None]) (auto simp: blocking_sibling_def)
  next
    case (Some c)
    then have c: "g_cohort h = Some c" "\<not> blocking_sibling s' (s_device r') (Some c)" using how by auto
    have "(s_device r2, s_stream r2, revn, Some c) \<in> set (gen_targets h)"
      using rv cols c by (simp add: in_gen_targets)
    moreover have "c \<in> set (cohorts_of ?c)" using g Some by (auto simp: set_cohorts_of)
    ultimately show ?thesis
      using c h gens cols by (intro exI [of _ "Some c"]) (auto simp: blocking_sibling_gens [OF gens])
  qed
  then have "revn \<le> s_applied r2" using stamp_applied_reaches [OF r2(1)] by blast
  then show ?thesis using cols(5) by simp
qed

text \<open>Settlement touches generations and streams only, and returns for every terminal outcome.\<close>

lemma stamp_applied_frame: "\<exists>x. stamp_applied_revisions s ts = s\<lparr>st_streams := x\<rparr>"
proof -
  have "\<exists>x. foldl stamp_one s us = s\<lparr>st_streams := x\<rparr>" for us
  proof (induction us arbitrary: s)
    case Nil
    show ?case by (intro exI [of _ "st_streams s"]) simp
  next
    case (Cons t us)
    have "\<exists>x. stamp_one s t = s\<lparr>st_streams := x\<rparr>"
      by (cases t) (auto simp: stamp_one_def upd_streams_def)
    then show ?case using Cons [of "stamp_one s t"] by auto
  qed
  then show ?thesis by (simp add: stamp_applied_revisions_def)
qed

lemma stamp_cohorts_frame: "\<exists>x. foldl stamp_settled_cohort s cs = s\<lparr>st_streams := x\<rparr>"
proof (induction cs arbitrary: s)
  case Nil
  show ?case by (intro exI [of _ "st_streams s"]) simp
next
  case (Cons c cs)
  have "\<exists>x. stamp_settled_cohort s c = s\<lparr>st_streams := x\<rparr>"
    using stamp_applied_frame by (auto simp: stamp_settled_cohort_def Let_def intro: exI [of _ "st_streams s"])
  then show ?case using Cons [of "stamp_settled_cohort s c"] by auto
qed

lemma settle_job_generations_frame:
  assumes "settle_job_generations s k outcome err now = Inr s'"
  shows "\<exists>gs ss. s' = s\<lparr>st_gens := gs, st_streams := ss\<rparr>"
proof -
  have keep: "\<exists>gs ss. s = s\<lparr>st_gens := gs, st_streams := ss\<rparr>"
    by (intro exI [of _ "st_gens s"] exI [of _ "st_streams s"]) simp
  have part: "\<exists>gs ss. s\<lparr>st_gens := x\<rparr> = s\<lparr>st_gens := gs, st_streams := ss\<rparr>" for x
    by (intro exI [of _ x] exI [of _ "st_streams s"]) simp
  have full: "\<exists>gs ss. foldl stamp_settled_cohort (stamp_applied_revisions (s\<lparr>st_gens := x\<rparr>) ts) cs
      = s\<lparr>st_gens := gs, st_streams := ss\<rparr>" for x ts cs
    using stamp_applied_frame [of "s\<lparr>st_gens := x\<rparr>" ts]
      stamp_cohorts_frame [of "stamp_applied_revisions (s\<lparr>st_gens := x\<rparr>) ts" cs] by force
  from assms show ?thesis
    using keep part full
    by (auto simp: settle_job_generations_def Let_def bindE_eq_Inr split: if_splits
        dest!: terminalize_generations_frame)
qed

lemma settle_job_generations_total:
  "gen_terminal outcome \<Longrightarrow> \<exists>s'. settle_job_generations s k outcome err now = Inr s'"
  by (auto simp: settle_job_generations_def terminalize_generations_def Let_def split: prod.splits)

section \<open>Properties\<close>

text \<open>
  C3. Settling a job moves the applied revision of a stream only forward, only to a revision
  that is proved in the resulting store, and changes nothing else of a stream: a generation
  outside a cohort proves its revisions by settling, a cohort proves the revisions of its
  members only when one of them settled and no member is left that a successor may not cross.
  So a live or failed member withholds every stream of the request.
\<close>

theorem settlement_stamps_only_proved:
  assumes "distinct (map g_id (st_gens s))"
    and "settle_job_generations s k outcome err now = Inr s'"
  shows "stream_advance (revision_proved s') s s'"
  using assms by (rule settle_advance)

theorem settlement_stamps_only_proved_witness:
  "stream_advance (revision_proved (projr (settle_job_generations sample_store 7 GSettled None 50))) sample_store
     (projr (settle_job_generations sample_store 7 GSettled None 50)) \<and>
   map s_applied (st_streams (projr (settle_job_generations sample_store 7 GSettled None 50))) = [6, 4]"
proof -
  have ok: "\<not> isl (settle_job_generations sample_store 7 GSettled None 50)" by code_simp
  have ids: "distinct (map g_id (st_gens sample_store))" by code_simp
  have vals: "map s_applied (st_streams (projr (settle_job_generations sample_store 7 GSettled None 50))) = [6, 4]"
    by code_simp
  show ?thesis
    using settlement_stamps_only_proved [OF ids Inr_projr [OF ok]] vals by simp
qed

text \<open>
  C20. The other half of request atomicity: when a job that carries generation g settles, every
  revision g carries is applied if g has no cohort; and if g is in a cohort all of whose members
  on the device may be crossed afterwards, every revision of every member is applied, also of
  the members other jobs carried.
\<close>

theorem settlement_completes_cohort:
  assumes "distinct (map g_id (st_gens s))"
    and "settle_job_generations s k GSettled err now = Inr s'"
    and "g \<in> set (st_gens s)" and "g_job g = Some k"
    and "r' \<in> set (st_streams s')" and "h \<in> set (st_gens s')"
    and "g_device h = s_device r'" and "(s_stream r', revn) \<in> set (g_revisions h)"
    and "(g_cohort g = None \<and> gen_identity h = gen_identity g) \<or>
      (\<exists>c. g_cohort g = Some c \<and> g_cohort h = Some c \<and>
        (\<forall>m \<in> set (st_gens s'). g_device m = s_device r' \<and> g_cohort m = Some c \<longrightarrow> crossable (g_status m)))"
  shows "revn \<le> s_applied r'"
  using assms by (intro settle_reaches [OF assms(1,2) _ assms(5-8)])
    (auto simp: set_job_generations blocking_sibling_def table_simps)

theorem settlement_completes_cohort_witness:
  "\<exists>r' \<in> set (st_streams (projr (settle_job_generations sample_store 7 GSettled None 50))).
     s_stream r' = ''ntp'' \<and> (4::int) \<le> s_applied r'"
proof -
  let ?run = "settle_job_generations sample_store 7 GSettled None 50"
  let ?g = "sample_gen 11 1 2 GRunning (Some 7) [(''vlan'', 6), (''ntp'', 4)] (Some 5)"
  let ?h = "st_gens (projr ?run) ! 1"
  let ?r = "st_streams (projr ?run) ! 1"
  have pre: "\<not> isl ?run" "distinct (map g_id (st_gens sample_store))" "?g \<in> set (st_gens sample_store)"
    "g_job ?g = Some 7" "?r \<in> set (st_streams (projr ?run))" "?h \<in> set (st_gens (projr ?run))"
    "g_device ?h = s_device ?r" "(s_stream ?r, 4) \<in> set (g_revisions ?h)" "g_cohort ?g = Some 5"
    "g_cohort ?h = Some 5" "s_stream ?r = ''ntp''"
    "\<forall>m \<in> set (st_gens (projr ?run)). g_device m = s_device ?r \<and> g_cohort m = Some 5 \<longrightarrow> crossable (g_status m)"
    by code_simp+
  have "4 \<le> s_applied ?r"
    using pre(9,10,12)
    by (intro settlement_completes_cohort [OF pre(2) Inr_projr [OF pre(1)] pre(3-8)]) auto
  then show ?thesis using pre(5,11) by auto
qed

text \<open>
  No settlement rewrites what a generation deploys: the immutable columns (document, mode,
  digest, sequence, removal keys, revisions, cohort, removal context) of every generation are
  the same, row by row, before and after.
\<close>

theorem settlement_keeps_documents:
  assumes "settle_job_generations s k outcome err now = Inr s'"
  shows "map gen_identity (st_gens s') = map gen_identity (st_gens s)"
  using settle_job_generations_same [OF assms] by (simp add: same_generations_def)

theorem settlement_keeps_documents_witness:
  "map gen_identity (st_gens (projr (settle_job_generations sample_store 7 GFailed None 50))) =
   map gen_identity (st_gens sample_store)"
proof -
  have "\<not> isl (settle_job_generations sample_store 7 GFailed None 50)" by code_simp
  then show ?thesis by (rule settlement_keeps_documents [OF Inr_projr])
qed

end
