(* ===== verification/Execution_Evidence.thy ===== *)
theory Execution_Evidence
  imports Generation_Settlement
begin

text \<open>
  What one execution proves about its frozen membership (\<open>store/execution_attempt_store.py\<close>,
  \<open>core/execution.py\<close>): the check of a membership against its generations, the projection of
  row outcomes onto carriers and counts, the job result, and the not-applied result of a run
  that prepared no attempt.

  Code of the repository that this development does not look into is bundled in \<open>env\<close>: the
  digest of a document (\<open>digest_document\<close>, sha256 over canonical JSON), the membership a
  frozen document encodes to (\<open>None\<close> when encoding raises), the names and result keys of the
  section registry, the per-route results of the static-route section, and whether a refusal has a
  canonical codec form.
\<close>

type_synonym outcome = "logical_row \<times> disposition \<times> refusal list"

record env =
  e_digest :: "gen_mode \<Rightarrow> jdict \<Rightarrow> jdict \<Rightarrow> string"
  e_membership :: "job_type \<Rightarrow> generation list \<Rightarrow> logical_row list option"
  e_sections :: "string list"
  e_result_keys :: "string list"
  e_stream_key :: "string \<Rightarrow> string"
  e_routes :: "generation \<Rightarrow> outcome list \<Rightarrow> jdict option \<Rightarrow> json list"
  e_codec_ok :: "refusal \<Rightarrow> bool"

section \<open>Membership\<close>

definition logical_identity :: "logical_row \<Rightarrow> string \<times> row_ref \<times> int option" where
  "logical_identity l = (l_stream l, l_row l, l_cohort l)"

definition logical_authorized :: "generation list \<Rightarrow> logical_row \<Rightarrow> bool" where
  "logical_authorized gens l = (case Option.bind (l_gen l) (\<lambda>k. row_by g_id k gens) of
       None \<Rightarrow> False
     | Some g \<Rightarrow> dhas (g_revisions g) (l_stream l) \<and>
         l_revision l = dget (g_revisions g) (l_stream l) \<and>
         l_push l = dget (g_push_seq g) (l_stream l) \<and>
         l_cohort l = g_cohort g \<and>
         o_gen (l_carrier l) = Some (g_id g) \<and>
         o_stream (l_carrier l) = l_stream l \<and>
         o_revision (l_carrier l) = l_revision l \<and>
         o_cohort (l_carrier l) = l_cohort l \<and>
         o_push (l_carrier l) = l_push l)"

definition validate_logical_membership :: "generation list \<Rightarrow> logical_row list \<Rightarrow> exn + unit" where
  "validate_logical_membership gens ls =
     (if \<not> distinct (map logical_identity ls) then Inl (ValueError ''Attempted logical membership must be unique'')
      else if list_ex (\<lambda>l. \<not> logical_authorized gens l) ls
      then Inl (ValueError ''Logical membership does not match the frozen generation'')
      else Inr ())"

definition generation_authorities :: "generation list \<Rightarrow> authority list" where
  "generation_authorities gens = map (\<lambda>g. (g_id g, g_digest g, g_revisions g, g_push_seq g, g_cohort g)) gens"

section \<open>Results\<close>

definition priority :: "disposition \<Rightarrow> nat" where
  "priority d = (case d of DInSync \<Rightarrow> 0 | DNotApplied \<Rightarrow> 1 | DUnavailable \<Rightarrow> 2 | DRefused \<Rightarrow> 3)"

definition worst :: "disposition list \<Rightarrow> disposition" where
  "worst ds = foldl (\<lambda>a d. if priority a < priority d then d else a) (hd ds) (tl ds)"

definition disposition_text :: "disposition \<Rightarrow> string" where
  "disposition_text d = (case d of DInSync \<Rightarrow> ''in_sync'' | DRefused \<Rightarrow> ''refused''
     | DNotApplied \<Rightarrow> ''not_applied'' | DUnavailable \<Rightarrow> ''unavailable'')"

definition zero_counts :: "(string \<times> int) list" where
  "zero_counts = [(''in_sync'', 0), (''apply_failed'', 0), (''not_applied'', 0), (''unavailable'', 0)]"

definition count_key :: "string \<Rightarrow> string" where
  "count_key key = key @ ''_count_by_outcome''"

definition bump_count ::
  "(string \<times> (string \<times> int) list) list \<Rightarrow> string \<Rightarrow> disposition \<Rightarrow> (string \<times> (string \<times> int) list) list" where
  "bump_count counts key d =
     (let row = (case dget counts key of None \<Rightarrow> zero_counts | Some r \<Rightarrow> r);
          col = (if d = DRefused then ''apply_failed'' else disposition_text d)
      in dset counts key (dset row col ((case dget row col of None \<Rightarrow> 0 | Some n \<Rightarrow> n) + 1)))"

definition carrier_members :: "settlement_owner \<Rightarrow> outcome list \<Rightarrow> outcome list" where
  "carrier_members c outs = filter (\<lambda>(l, _, _). owner_public (l_carrier l) = owner_public c) outs"

definition carrier_step ::
  "env \<Rightarrow> outcome list \<Rightarrow> (settlement_owner \<times> disposition) list \<times> (string \<times> (string \<times> int) list) list
   \<Rightarrow> settlement_owner \<Rightarrow> exn + (settlement_owner \<times> disposition) list \<times> (string \<times> (string \<times> int) list) list" where
  "carrier_step E outs acc c = (case acc of (done_carriers, counts) \<Rightarrow>
     let members = carrier_members c outs in
     if members = [] then Inl (ValueError ''An attempted carrier requires logical outcomes'')
     else let d = worst (map (\<lambda>(_, d, _). d) members)
          in Inr (done_carriers @ [(c, d)], bump_count counts (count_key (e_stream_key E (o_stream c))) d))"

definition carrier_results ::
  "env \<Rightarrow> settlement_owner list \<Rightarrow> outcome list
   \<Rightarrow> exn + (settlement_owner \<times> disposition) list \<times> (string \<times> (string \<times> int) list) list" where
  "carrier_results E carriers outs =
     foldE (carrier_step E outs) ([], map (\<lambda>k. (count_key k, zero_counts)) (e_result_keys E)) carriers"

definition refusal_record :: "refusal \<Rightarrow> json" where
  "refusal_record r = JObj [(''family'', JStr (rf_family r)), (''row'', j_of_row (rf_row r)),
     (''field'', j_of_str_opt (rf_field r)), (''reason'', JStr (rf_reason r)),
     (''message_id'', JStr (rf_message_id r)), (''message'', JStr (rf_message r)),
     (''related'', case rf_related r of None \<Rightarrow> JNull | Some (f, row, fld) \<Rightarrow>
        JObj [(''family'', JStr f), (''row'', case row of None \<Rightarrow> JNull | Some w \<Rightarrow> j_of_row w),
              (''field'', j_of_str_opt fld)])]"

definition outcome_result ::
  "env \<Rightarrow> settlement_owner list \<Rightarrow> outcome list \<Rightarrow> json list \<Rightarrow> bool \<Rightarrow> exn + jdict" where
  "outcome_result E carriers outs refusals acked =
     bindE (carrier_results E carriers outs) (\<lambda>(cs, counts). Inr (dmerge
       (map (\<lambda>(k, row). (k, JObj (map (\<lambda>(c, n). (c, JInt n)) row))) counts)
       [(''row_outcomes'', JList (map (\<lambda>(l, d, rs). JObj (logical_public l @
            [(''disposition'', JStr (disposition_text d)), (''refusals'', JList (map refusal_record rs))])) outs)),
        (''refusals'', JList refusals),
        (''settlement_owners'', JList (map (\<lambda>(c, d). case owner_public c of
            JObj fs \<Rightarrow> JObj (fs @ [(''disposition'', JStr (disposition_text d))]) | j \<Rightarrow> j) cs)),
        (''commit_acknowledged'', JBool acked)]))"

definition first_occurrences :: "'a list \<Rightarrow> 'a list" where
  "first_occurrences xs = rev (remdups (rev xs))"

definition with_routes :: "json list \<Rightarrow> jdict \<Rightarrow> jdict" where
  "with_routes routes result = (if routes = [] then result else dset result ''static_route_results'' (JList routes))"

definition unsent_execution_result ::
  "env \<Rightarrow> generation \<Rightarrow> logical_row list \<Rightarrow> jdict option \<Rightarrow> exn + jdict" where
  "unsent_execution_result E g membership err =
     (let outs = map (\<lambda>l. (l, DNotApplied, [])) membership;
          carriers = first_occurrences (map l_carrier membership)
      in bindE (outcome_result E carriers outs [] False) (\<lambda>r. Inr (with_routes (e_routes E g outs err) r)))"

section \<open>A run that prepared no attempt\<close>

definition digest_intact :: "env \<Rightarrow> generation \<Rightarrow> bool" where
  "digest_intact E g = (e_digest E (g_mode g) (g_document g) (g_allowed g) = g_digest g)"

definition derive_unprepared_evidence ::
  "env \<Rightarrow> job_type \<Rightarrow> generation list \<Rightarrow> jdict option \<Rightarrow> bool \<Rightarrow> jdict option" where
  "derive_unprepared_evidence E ty gens err attempt_exists =
     (if attempt_exists then None
      else if gens = [] then None
      else if \<not> digest_intact E (last gens) then None
      else case e_membership E ty gens of None \<Rightarrow> None
      | Some ls \<Rightarrow>
          (case bindE (validate_logical_membership gens ls) (\<lambda>_. unsent_execution_result E (last gens) ls err) of
             Inl _ \<Rightarrow> None | Inr r \<Rightarrow> Some r))"

definition unprepared_evidence ::
  "env \<Rightarrow> store \<Rightarrow> int \<Rightarrow> job_type \<Rightarrow> int \<Rightarrow> jdict option \<Rightarrow> jdict option" where
  "unprepared_evidence E s k ty ra err =
     derive_unprepared_evidence E ty (job_generations s k) err
       (exists_where (\<lambda>a. a_job_corr a = k \<and> a_run_attempt a = ra) (st_attempts s))"

section \<open>Carrier results\<close>

lemma worst_max:
  assumes "ds \<noteq> []"
  shows "worst ds \<in> set ds" and "\<And>d. d \<in> set ds \<Longrightarrow> priority d \<le> priority (worst ds)"
proof -
  have fold: "foldl (\<lambda>a d. if priority a < priority d then d else a) a ds \<in> insert a (set ds) \<and>
      (\<forall>d \<in> insert a (set ds). priority d \<le> priority (foldl (\<lambda>a d. if priority a < priority d then d else a) a ds))"
    for a ds
  proof (induction ds arbitrary: a)
    case (Cons d ds)
    show ?case
      using Cons [of "if priority a < priority d then d else a"] by (auto split: if_splits)
  qed simp
  show "worst ds \<in> set ds" "\<And>d. d \<in> set ds \<Longrightarrow> priority d \<le> priority (worst ds)"
    using fold [of "hd ds" "tl ds"] assms by (cases ds; auto simp: worst_def)+
qed

definition count_total :: "(string \<times> (string \<times> int) list) list \<Rightarrow> int" where
  "count_total counts = sum_list (map (\<lambda>(_, row). sum_list (map snd row)) counts)"

lemma sum_dset:
  "sum_list (map f (dset d k v)) = sum_list (map f d) + f (k, v) - (case dget d k of None \<Rightarrow> 0 | Some w \<Rightarrow> f (k, w))"
  for f :: "'k \<times> 'v \<Rightarrow> int"
  by (induction d k v rule: dset.induct) auto

lemma count_total_bump: "count_total (bump_count counts key d) = count_total counts + 1"
proof -
  have row: "sum_list (map snd (dset r col ((case dget r col of None \<Rightarrow> 0 | Some n \<Rightarrow> n) + 1))) = sum_list (map snd r) + 1"
    for r :: "(string \<times> int) list" and col
    by (subst sum_dset) (simp split: option.splits)
  show ?thesis
    unfolding bump_count_def count_total_def Let_def
    by (subst sum_dset) (simp add: row zero_counts_def split: option.splits)
qed

definition carrier_verdict :: "outcome list \<Rightarrow> settlement_owner \<times> disposition \<Rightarrow> bool" where
  "carrier_verdict outs cd = (case cd of (c, d) \<Rightarrow>
     (\<exists>(l, d', rs) \<in> set (carrier_members c outs). d' = d) \<and>
     (\<forall>(l, d', rs) \<in> set (carrier_members c outs). priority d' \<le> priority d))"

lemma carrier_step_sound:
  assumes "carrier_step E outs (cs, counts) c = Inr (cs', counts')"
  shows "\<exists>d. cs' = cs @ [(c, d)] \<and> carrier_verdict outs (c, d) \<and> count_total counts' = count_total counts + 1"
proof -
  let ?ds = "map (\<lambda>(_, d, _). d) (carrier_members c outs)"
  have ne: "?ds \<noteq> []" and res: "cs' = cs @ [(c, worst ?ds)]"
      "counts' = bump_count counts (count_key (e_stream_key E (o_stream c))) (worst ?ds)"
    using assms by (auto simp: carrier_step_def Let_def split: if_splits)
  have "carrier_verdict outs (c, worst ?ds)"
    using worst_max [OF ne] by (force simp: carrier_verdict_def)
  then show ?thesis using res count_total_bump by blast
qed

lemma carrier_fold_sound:
  assumes "foldE (carrier_step E outs) (cs, counts) carriers = Inr (cs', counts')"
  shows "\<exists>new. cs' = cs @ new \<and> map fst new = carriers \<and> list_all (carrier_verdict outs) new \<and>
    count_total counts' = count_total counts + int (length carriers)"
  using assms
proof (induction carriers arbitrary: cs counts)
  case (Cons c carriers)
  then obtain cs1 counts1 where step: "carrier_step E outs (cs, counts) c = Inr (cs1, counts1)"
    and rest: "foldE (carrier_step E outs) (cs1, counts1) carriers = Inr (cs', counts')"
    by (auto simp: bindE_eq_Inr)
  from carrier_step_sound [OF step] obtain d where d: "cs1 = cs @ [(c, d)]" "carrier_verdict outs (c, d)"
    "count_total counts1 = count_total counts + 1" by blast
  from Cons.IH [OF rest] obtain new where "cs' = cs1 @ new" "map fst new = carriers"
    "list_all (carrier_verdict outs) new" "count_total counts' = count_total counts1 + int (length carriers)" by blast
  with d show ?case by (intro exI [of _ "(c, d) # new"]) simp
qed simp

lemma carrier_results_sound:
  assumes "carrier_results E carriers outs = Inr (cs, counts)"
  shows "map fst cs = carriers \<and> list_all (carrier_verdict outs) cs \<and> count_total counts = int (length carriers)"
proof -
  have "count_total (map (\<lambda>k. (count_key k, zero_counts)) ks) = 0" for ks
    by (induction ks) (simp_all add: count_total_def zero_counts_def)
  then show ?thesis
    using carrier_fold_sound [of E outs "[]" _ carriers cs counts] assms by (auto simp: carrier_results_def)
qed

lemma carrier_results_total:
  assumes "\<And>c. c \<in> set carriers \<Longrightarrow> carrier_members c outs \<noteq> []"
  shows "\<exists>r. carrier_results E carriers outs = Inr r"
proof -
  have "\<exists>r. foldE (carrier_step E outs) acc carriers = Inr r" for acc
    using assms
  proof (induction carriers arbitrary: acc)
    case (Cons c carriers)
    have "\<exists>acc'. carrier_step E outs acc c = Inr acc'"
      using Cons.prems [of c] by (cases acc) (simp add: carrier_step_def Let_def)
    then show ?case using Cons.IH Cons.prems by auto
  qed simp
  then show ?thesis by (simp add: carrier_results_def)
qed

lemma set_first_occurrences [simp]: "set (first_occurrences xs) = set xs"
  by (simp add: first_occurrences_def)

lemma distinct_first_occurrences [simp]: "distinct (first_occurrences xs)"
  by (simp add: first_occurrences_def)

lemma outcome_result_rows:
  assumes "outcome_result E carriers outs refusals acked = Inr r"
  shows "dget r ''row_outcomes'' = Some (JList (map (\<lambda>(l, d, rs). JObj (logical_public l @
            [(''disposition'', JStr (disposition_text d)), (''refusals'', JList (map refusal_record rs))])) outs))"
  using assms by (auto simp: outcome_result_def bindE_eq_Inr dget_dmerge)

lemma unsent_total:
  "\<exists>r. unsent_execution_result E g ls err = Inr r \<and> dget r ''row_outcomes'' =
     Some (JList (map (\<lambda>l. JObj (logical_public l @ [(''disposition'', JStr ''not_applied''), (''refusals'', JList [])])) ls))"
proof -
  let ?outs = "map (\<lambda>l. (l, DNotApplied, [])) ls :: outcome list"
  let ?cs = "first_occurrences (map l_carrier ls)"
  have "carrier_members c ?outs \<noteq> []" if "c \<in> set ?cs" for c
    using that by (auto simp: carrier_members_def filter_empty_conv)
  from carrier_results_total [OF this] obtain p where p: "carrier_results E ?cs ?outs = Inr p" by blast
  then obtain r where r: "outcome_result E ?cs ?outs [] False = Inr r"
    by (cases p) (auto simp: outcome_result_def)
  have "dget (with_routes routes r) ''row_outcomes'' = dget r ''row_outcomes''" for routes
    by (simp add: with_routes_def)
  then show ?thesis
    using r outcome_result_rows [OF r] by (simp add: unsent_execution_result_def disposition_text_def comp_def)
qed

section \<open>Properties\<close>

text \<open>
  The projection of row outcomes onto carriers counts every attempted carrier once: the
  result lists the carriers in order, each with the worst disposition of its members (refused
  over unavailable over not applied over in sync), and the counts over all result keys add up to
  the number of carriers.
\<close>

theorem carrier_counts_add_up:
  assumes "carrier_results E carriers outs = Inr (cs, counts)"
  shows "map fst cs = carriers \<and> list_all (carrier_verdict outs) cs \<and>
    sum_list (map (\<lambda>(_, row). sum_list (map snd row)) counts) = int (length carriers)"
  using carrier_results_sound [OF assms] by (simp add: count_total_def)

definition sample_evidence_env :: env where
  "sample_evidence_env = \<lparr>e_digest = (\<lambda>_ _ _. ''d''), e_membership = (\<lambda>_ _. Some [sample_logical]),
     e_sections = [''vlan''], e_result_keys = [''vlan''], e_stream_key = id, e_routes = (\<lambda>_ _ _. []), e_codec_ok = (\<lambda>_. True)\<rparr>"

theorem carrier_counts_add_up_witness:
  "map fst (fst (projr (carrier_results sample_evidence_env [sample_owner] [(sample_logical, DRefused, [sample_refusal])])))
     = [sample_owner]"
proof -
  let ?r = "carrier_results sample_evidence_env [sample_owner] [(sample_logical, DRefused, [sample_refusal])]"
  have "\<not> isl ?r" by code_simp
  then have "?r = Inr (fst (projr ?r), snd (projr ?r))" by (simp add: Inr_projr [symmetric])
  from carrier_counts_add_up [OF this] show ?thesis by simp
qed

text \<open>
  A run that reached no device is never silent.  When no attempt was prepared, the carried
  document's digest verifies and its membership matches the frozen generations, the derived
  evidence exists and reports every logical row of the membership, in order, as not applied.
\<close>

theorem unprepared_evidence_complete:
  assumes "job_generations s k \<noteq> []"
    and "\<not> (\<exists>a \<in> set (st_attempts s). a_job_corr a = k \<and> a_run_attempt a = ra)"
    and "digest_intact E (last (job_generations s k))"
    and "e_membership E ty (job_generations s k) = Some ls"
    and "validate_logical_membership (job_generations s k) ls = Inr ()"
  shows "\<exists>r. unprepared_evidence E s k ty ra err = Some r \<and> dget r ''row_outcomes'' =
     Some (JList (map (\<lambda>l. JObj (logical_public l @ [(''disposition'', JStr ''not_applied''), (''refusals'', JList [])])) ls))"
  using assms unsent_total [of E "last (job_generations s k)" ls err]
  by (auto simp: unprepared_evidence_def derive_unprepared_evidence_def table_simps)

theorem unprepared_evidence_complete_witness:
  "\<exists>r. unprepared_evidence sample_evidence_env
      (sample_store\<lparr>st_gens := [(sample_gen 11 1 2 GRunning (Some 7) [(''vlan'', 6)] (Some 5))\<lparr>g_push_seq := [(''vlan'', 3)]\<rparr>]\<rparr>)
      7 JTApply 2 None = Some r \<and> dhas r ''row_outcomes''"
proof -
  let ?s = "sample_store\<lparr>st_gens := [(sample_gen 11 1 2 GRunning (Some 7) [(''vlan'', 6)] (Some 5))\<lparr>g_push_seq := [(''vlan'', 3)]\<rparr>]\<rparr>"
  have pre: "job_generations ?s 7 \<noteq> []" "\<not> (\<exists>a \<in> set (st_attempts ?s). a_job_corr a = 7 \<and> a_run_attempt a = 2)"
    "digest_intact sample_evidence_env (last (job_generations ?s 7))"
    "validate_logical_membership (job_generations ?s 7) [sample_logical] = Inr ()" by code_simp+
  have mem: "e_membership sample_evidence_env JTApply (job_generations ?s 7) = Some [sample_logical]"
    by (simp add: sample_evidence_env_def)
  from unprepared_evidence_complete [OF pre(1-3) mem pre(4), of None] show ?thesis
    by (auto simp: dhas_iff)
qed

end
