(* ===== verification/Claims.thy ===== *)
theory Claims
  imports Sample_Data
begin

text \<open>
  The exclusive per-device claim of \<open>core/claim.py\<close>: its timing constants, the live
  registration a run holds, acquisition (single, in-doubt resolving, waiting), the row lock that
  validates ownership inside a transaction, and release.  Each operation is one committed
  transaction.  What the server did with a COMMIT whose acknowledgement was lost is the argument
  \<open>fate\<close>; a lock timeout on a rival's uncommitted insert is the argument \<open>busy\<close>; the clock
  and the freshly minted token are arguments as well.
\<close>

section \<open>Timing\<close>

definition JOB_EXECUTION_BUDGET :: int where "JOB_EXECUTION_BUDGET = 1200"
definition JOB_CANCEL_DRAIN :: int where "JOB_CANCEL_DRAIN = 30"
definition JOB_CLEANUP_BOUND :: int where "JOB_CLEANUP_BOUND = 60"
definition REAP_INTERVAL_DEFAULT :: int where "REAP_INTERVAL_DEFAULT = 5 * 60"
definition REAPER_MARGIN :: int where "REAPER_MARGIN = REAP_INTERVAL_DEFAULT + 120"
definition LIFECYCLE_TOTAL :: int where
  "LIFECYCLE_TOTAL = JOB_EXECUTION_BUDGET + JOB_CANCEL_DRAIN + JOB_CLEANUP_BOUND + REAPER_MARGIN"
definition STALE_SLACK :: int where "STALE_SLACK = 60"
definition CLAIM_STALE_AFTER :: int where "CLAIM_STALE_AFTER = LIFECYCLE_TOTAL + STALE_SLACK"
definition PROVISION_STALE_AFTER :: int where "PROVISION_STALE_AFTER = LIFECYCLE_TOTAL + STALE_SLACK"

lemmas timing_defs = JOB_EXECUTION_BUDGET_def JOB_CANCEL_DRAIN_def JOB_CLEANUP_BOUND_def
  REAP_INTERVAL_DEFAULT_def REAPER_MARGIN_def LIFECYCLE_TOTAL_def STALE_SLACK_def CLAIM_STALE_AFTER_def
  PROVISION_STALE_AFTER_def

section \<open>Registration\<close>

definition PURPOSES :: "string list" where
  "PURPOSES = [''job'', ''intent_put'', ''teardown'', ''sweep'', ''failover'']"

datatype claim_outcome = CommitAcknowledged | AbortKnown | OutcomeUnknown

record registration =
  r_device :: "int option"
  r_token :: "string option"
  r_attempt :: "int option"

definition registered :: "registration \<Rightarrow> bool" where
  "registered reg = (r_token reg \<noteq> None)"

definition register :: "int \<Rightarrow> string \<Rightarrow> registration \<Rightarrow> exn + registration" where
  "register d tok reg = (if r_token reg \<noteq> None then Inl (RuntimeError ''a run registers at most once'')
     else Inr (reg\<lparr>r_device := Some d, r_token := Some tok\<rparr>))"

definition reg_identity :: "registration \<Rightarrow> exn + int \<times> string" where
  "reg_identity reg = (case (r_device reg, r_token reg) of (Some d, Some tok) \<Rightarrow> Inr (d, tok)
     | _ \<Rightarrow> Inl (RuntimeError ''claim registration has no complete identity''))"

definition own_registration :: "int \<Rightarrow> string \<Rightarrow> registration" where
  "own_registration d tok = \<lparr>r_device = Some d, r_token = Some tok, r_attempt = None\<rparr>"

definition disposition_for :: "job_type \<Rightarrow> job_status" where
  "disposition_for ty = (if ty = JTApply then JFailed else JQueued)"

section \<open>Commit outcomes\<close>

text \<open>
  What a COMMIT did: acknowledged, or lost with an ordinary error or a cancellation at the
  await; the flag of a lost commit says whether the server applied it.
\<close>

datatype commit_fate = Acked | LostError bool | LostCancelled bool

definition commit_state :: "commit_fate \<Rightarrow> store \<Rightarrow> store \<Rightarrow> store" where
  "commit_state fate old new = (case fate of Acked \<Rightarrow> new
     | LostError landed \<Rightarrow> if landed then new else old
     | LostCancelled landed \<Rightarrow> if landed then new else old)"

definition commit_outcome :: "commit_fate \<Rightarrow> store \<Rightarrow> store \<Rightarrow> store \<times> claim_outcome" where
  "commit_outcome fate old new =
     (commit_state fate old new, if fate = Acked then CommitAcknowledged else OutcomeUnknown)"

section \<open>Acquisition\<close>

definition claim_owned :: "int \<Rightarrow> string \<Rightarrow> claim \<Rightarrow> bool" where
  "claim_owned d tok c = (c_device c = d \<and> c_token c = tok)"

definition insert_claim :: "int \<Rightarrow> int \<Rightarrow> string \<Rightarrow> int option \<Rightarrow> string \<Rightarrow> store \<Rightarrow> store" where
  "insert_claim now d purpose jb tok s = s\<lparr>st_claims := st_claims s @
     [\<lparr>c_device = d, c_token = tok, c_purpose = purpose, c_job = jb, c_acquired_at = now,
       c_heartbeat_at = now\<rparr>]\<rparr>"

definition commit_exn :: "commit_fate \<Rightarrow> exn" where
  "commit_exn fate = (case fate of LostCancelled _ \<Rightarrow> Cancelled | _ \<Rightarrow> CommitInDoubt)"

definition acquire_claim ::
  "commit_fate \<Rightarrow> bool \<Rightarrow> int \<Rightarrow> int \<Rightarrow> string \<Rightarrow> int option \<Rightarrow> string \<Rightarrow> store
   \<Rightarrow> store \<times> (exn + registration option)" where
  "acquire_claim fate busy now d purpose jb tok s =
     (if purpose \<notin> set PURPOSES then (s, Inl (ValueError ''unknown claim purpose''))
      else if busy then (s, Inr None)
      else if exists_where (\<lambda>c. c_device c = d) (st_claims s) then
        (s, if fate = Acked then Inr None else Inl (commit_exn fate))
      else if exists_where (\<lambda>c. c_token c = tok) (st_claims s) then
        (s, Inl (IntegrityViolation ''uq_device_claim_token''))
      else if d \<notin> set (st_devices s) then (s, Inr None)
      else if (case jb of None \<Rightarrow> False | Some k \<Rightarrow> job_by_id s k = None) then
        (s, Inl (IntegrityViolation ''device_claim_job_id_fkey''))
      else (commit_state fate s (insert_claim now d purpose jb tok s),
            if fate = Acked then Inr (Some (own_registration d tok)) else Inl (commit_exn fate)))"

definition resolve_claim_by_token :: "string \<Rightarrow> store \<Rightarrow> registration option" where
  "resolve_claim_by_token tok s =
     map_option (\<lambda>c. own_registration (c_device c) tok) (row_by c_token tok (st_claims s))"

text \<open>
  The in-doubt COMMIT is resolved by reading the token back.  A cancellation must propagate, so
  a claim that turned out to be ours is handed to the caller's live registration \<open>adopt\<close>.
\<close>

definition acquire_claim_resolving ::
  "commit_fate \<Rightarrow> bool \<Rightarrow> int \<Rightarrow> int \<Rightarrow> string \<Rightarrow> int option \<Rightarrow> string \<Rightarrow> registration option \<Rightarrow> store
   \<Rightarrow> store \<times> registration option \<times> (exn + registration option)" where
  "acquire_claim_resolving fate busy now d purpose jb tok adopt s =
     (case acquire_claim fate busy now d purpose jb tok s of
        (s1, Inr r) \<Rightarrow> (s1, adopt, Inr r)
      | (s1, Inl e) \<Rightarrow>
          (case resolve_claim_by_token tok s1 of
             None \<Rightarrow> (s1, adopt, Inl e)
           | Some resolved \<Rightarrow>
               if e \<noteq> Cancelled then (s1, adopt, Inr (Some resolved))
               else (s1,
                     (case adopt of None \<Rightarrow> None
                      | Some a \<Rightarrow> if registered a then Some a
                          else Some (a\<lparr>r_device := r_device resolved, r_token := r_token resolved\<rparr>)),
                     Inl e)))"

text \<open>
  Polling: one attempt, then until the deadline a sleep during which other transactions
  commit.  \<open>polls\<close> lists, for each sleep the budget allows, what happened meanwhile and the
  token the next attempt mints; the loop ends with the list.
\<close>

fun acquire_claim_waiting ::
  "int \<Rightarrow> int \<Rightarrow> string \<Rightarrow> int option \<Rightarrow> string \<Rightarrow> ((store \<Rightarrow> store) \<times> string) list \<Rightarrow> store
   \<Rightarrow> store \<times> (exn + registration option)" where
  "acquire_claim_waiting now d purpose jb tok polls s =
     (case acquire_claim Acked False now d purpose jb tok s of
        (s1, Inl e) \<Rightarrow> (s1, Inl e)
      | (s1, Inr (Some reg)) \<Rightarrow> (s1, Inr (Some reg))
      | (s1, Inr None) \<Rightarrow>
          (case polls of [] \<Rightarrow> (s1, Inr None)
           | (mid, tok') # rest \<Rightarrow> acquire_claim_waiting now d purpose jb tok' rest (mid s1)))"

definition acquire_claim_or_refuse ::
  "int \<Rightarrow> int \<Rightarrow> string \<Rightarrow> int option \<Rightarrow> string \<Rightarrow> ((store \<Rightarrow> store) \<times> string) list \<Rightarrow> store
   \<Rightarrow> store \<times> (exn + registration)" where
  "acquire_claim_or_refuse now d purpose jb tok polls s =
     (case acquire_claim_waiting now d purpose jb tok polls s of
        (s1, Inl e) \<Rightarrow> (s1, Inl e)
      | (s1, Inr None) \<Rightarrow> (s1, Inl ClaimUnavailable)
      | (s1, Inr (Some reg)) \<Rightarrow> (s1, Inr reg))"

section \<open>Ownership inside a transaction, and release\<close>

definition holds_claim :: "store \<Rightarrow> registration \<Rightarrow> bool" where
  "holds_claim s reg = (case (r_device reg, r_token reg) of
       (Some d, Some tok) \<Rightarrow> exists_where (claim_owned d tok) (st_claims s)
     | _ \<Rightarrow> False)"

definition lock_claim :: "registration \<Rightarrow> store \<Rightarrow> exn + unit" where
  "lock_claim reg s = (if \<not> registered reg then Inr ()
     else if holds_claim s reg then Inr () else Inl ClaimLost)"

definition reg_owns :: "registration \<Rightarrow> claim \<Rightarrow> bool" where
  "reg_owns reg c = (r_device reg = Some (c_device c) \<and> r_token reg = Some (c_token c))"

definition delete_own_claim :: "registration \<Rightarrow> store \<Rightarrow> store" where
  "delete_own_claim reg s = (if \<not> registered reg then s else del_claims (reg_owns reg) s)"

text \<open>\<open>failed\<close>: a statement of the release failed before COMMIT, e.g. on its lock timeout.\<close>

definition release_claim :: "commit_fate \<Rightarrow> bool \<Rightarrow> registration \<Rightarrow> store \<Rightarrow> store \<times> claim_outcome" where
  "release_claim fate failed reg s =
     (if \<not> registered reg then (s, CommitAcknowledged)
      else if failed then (s, AbortKnown)
      else case lock_claim reg s of
        Inl _ \<Rightarrow> (s, AbortKnown)
      | Inr _ \<Rightarrow> commit_outcome fate s (del_claims (reg_owns reg) s))"

text \<open>The body runs under the claim, and the claim is released on every exit.\<close>

definition held_claim ::
  "commit_fate \<Rightarrow> bool \<Rightarrow> int \<Rightarrow> int \<Rightarrow> string \<Rightarrow> int option \<Rightarrow> string \<Rightarrow> ((store \<Rightarrow> store) \<times> string) list
   \<Rightarrow> (registration \<Rightarrow> store \<Rightarrow> store \<times> (exn + 'a)) \<Rightarrow> store \<Rightarrow> store \<times> (exn + 'a)" where
  "held_claim fate failed now d purpose jb tok polls body s =
     (case acquire_claim_or_refuse now d purpose jb tok polls s of
        (s1, Inl e) \<Rightarrow> (s1, Inl e)
      | (s1, Inr reg) \<Rightarrow>
          (case body reg s1 of (s2, r) \<Rightarrow> (fst (release_claim fate failed reg s2), r)))"

section \<open>Exclusivity\<close>

definition claims_ok :: "store \<Rightarrow> bool" where
  "claims_ok s = (distinct (map c_device (st_claims s)) \<and> distinct (map c_token (st_claims s)))"

definition claim_holder :: "store \<Rightarrow> int \<Rightarrow> string option" where
  "claim_holder s d = map_option c_token (row_by c_device d (st_claims s))"

lemma insert_claim_claims [simp]:
  "st_claims (insert_claim now d purpose jb tok s) = st_claims s @
     [\<lparr>c_device = d, c_token = tok, c_purpose = purpose, c_job = jb, c_acquired_at = now, c_heartbeat_at = now\<rparr>]"
  by (simp add: insert_claim_def)

lemma acquire_claim_Some:
  assumes "acquire_claim fate busy now d purpose jb tok s = (s', Inr (Some reg))"
  shows "s' = insert_claim now d purpose jb tok s" "reg = own_registration d tok"
    "d \<notin> c_device ` set (st_claims s)" "tok \<notin> c_token ` set (st_claims s)" "d \<in> set (st_devices s)"
  using assms by (auto simp: acquire_claim_def commit_state_def table_simps split: if_splits commit_fate.splits)

lemma acquire_claim_cases:
  assumes "acquire_claim fate busy now d purpose jb tok s = (s', r)"
  obtains "s' = s" "r \<noteq> Inr (Some x)"
  | "s' = insert_claim now d purpose jb tok s" "d \<notin> c_device ` set (st_claims s)"
    "tok \<notin> c_token ` set (st_claims s)" "d \<in> set (st_devices s)"
    "r = (if fate = Acked then Inr (Some (own_registration d tok)) else Inl (commit_exn fate))"
  using assms
  by (auto simp: acquire_claim_def commit_state_def table_simps image_iff
      split: if_splits commit_fate.splits option.splits)

lemma claims_ok_insert:
  "claims_ok s \<Longrightarrow> d \<notin> c_device ` set (st_claims s) \<Longrightarrow> tok \<notin> c_token ` set (st_claims s) \<Longrightarrow>
   claims_ok (insert_claim now d purpose jb tok s)"
  by (simp add: claims_ok_def)

lemma claims_ok_acquire:
  "claims_ok s \<Longrightarrow> acquire_claim fate busy now d purpose jb tok s = (s', r) \<Longrightarrow> claims_ok s'"
  by (erule acquire_claim_cases) (auto intro: claims_ok_insert)

lemma claims_ok_del: "claims_ok s \<Longrightarrow> claims_ok (del_claims p s)"
  by (simp add: claims_ok_def distinct_map_del_where)

lemma claims_ok_release: "claims_ok s \<Longrightarrow> claims_ok (fst (release_claim fate failed reg s))"
  by (auto simp: release_claim_def commit_outcome_def commit_state_def claims_ok_del
      split: sum.splits commit_fate.splits)

lemma claim_holder_Some_iff:
  "claims_ok s \<Longrightarrow> claim_holder s d = Some tok \<longleftrightarrow> (\<exists>c \<in> set (st_claims s). c_device c = d \<and> c_token c = tok)"
  by (auto simp: claim_holder_def claims_ok_def row_by_eq_Some_iff)

lemma holds_claim_iff: "holds_claim s (own_registration d tok) \<longleftrightarrow> (\<exists>c \<in> set (st_claims s). c_device c = d \<and> c_token c = tok)"
  by (simp add: holds_claim_def own_registration_def claim_owned_def table_simps)

lemma reg_owns_own [simp]: "reg_owns (own_registration d tok) c \<longleftrightarrow> c_device c = d \<and> c_token c = tok"
  by (auto simp: reg_owns_def own_registration_def)

lemma registered_own [simp]: "registered (own_registration d tok)"
  by (simp add: registered_def own_registration_def)

lemma release_claim_acked:
  "fst (release_claim Acked False (own_registration d tok) s) =
     (if holds_claim s (own_registration d tok)
      then del_claims (\<lambda>c. c_device c = d \<and> c_token c = tok) s else s)"
proof -
  have "reg_owns (own_registration d tok) = (\<lambda>c. c_device c = d \<and> c_token c = tok)" by auto
  then show ?thesis
    by (auto simp: release_claim_def lock_claim_def commit_outcome_def commit_state_def)
qed

lemma claim_holder_del:
  assumes "claims_ok s"
  shows "claim_holder (del_claims (\<lambda>c. c_device c = d \<and> c_token c = tok) s) e =
    (if e = d \<and> claim_holder s d = Some tok then None else claim_holder s e)"
proof -
  let ?s = "del_claims (\<lambda>c. c_device c = d \<and> c_token c = tok) s"
  have ok: "claims_ok ?s" using assms by (rule claims_ok_del)
  have uniq: "c = c'" if "c \<in> set (st_claims s)" "c' \<in> set (st_claims s)" "c_device c = c_device c'" for c c'
    using assms that by (auto simp: claims_ok_def distinct_map dest: inj_onD)
  show ?thesis
  proof (rule option_eqI)
    fix t
    show "claim_holder ?s e = Some t \<longleftrightarrow>
      (if e = d \<and> claim_holder s d = Some tok then None else claim_holder s e) = Some t"
      unfolding claim_holder_Some_iff [OF ok]
      by (auto simp: claim_holder_Some_iff [OF assms]) (metis uniq)
  qed
qed

text \<open>The claim, at the granularity of its committed transactions, is an exclusive lock.\<close>

definition acquire_device :: "int \<Rightarrow> string \<Rightarrow> int \<Rightarrow> string \<Rightarrow> store \<Rightarrow> store option" where
  "acquire_device now purpose d tok s = (case acquire_claim Acked False now d purpose None tok s of
     (s', Inr (Some _)) \<Rightarrow> Some s' | _ \<Rightarrow> None)"

definition release_device :: "int \<Rightarrow> string \<Rightarrow> store \<Rightarrow> store" where
  "release_device d tok s = fst (release_claim Acked False (own_registration d tok) s)"

lemma acquire_device_SomeD:
  assumes "acquire_device now purpose d tok s = Some s'"
  shows "s' = insert_claim now d purpose None tok s" "d \<notin> c_device ` set (st_claims s)"
    "tok \<notin> c_token ` set (st_claims s)"
  using assms by (auto simp: acquire_device_def split: prod.splits sum.splits option.splits
      dest: acquire_claim_Some)

interpretation device_lock: exclusive_lock claims_ok claim_holder "acquire_device now purpose" release_device
  for now purpose
proof unfold_locales
  fix s d h s' assume "acquire_device now purpose d h s = Some s'"
  note acq = acquire_device_SomeD [OF this]
  show "claim_holder s d = None \<and> claim_holder s' d = Some h \<and> (\<forall>e. e \<noteq> d \<longrightarrow> claim_holder s' e = claim_holder s e)"
  proof -
    have "row_by c_device d (st_claims s) = None"
      using acq(2) by (simp add: row_by_None_iff)
    then show ?thesis
      by (auto simp: acq(1) claim_holder_def split: option.splits)
  qed
  show "claims_ok s \<Longrightarrow> claims_ok s'"
    using acq by (auto intro: claims_ok_insert)
next
  fix s d h assume ok: "claims_ok s"
  then show "claim_holder (release_device d h s) = (claim_holder s)(d := if claim_holder s d = Some h then None else claim_holder s d)"
    using claim_holder_del [OF ok] claim_holder_Some_iff [OF ok]
    by (auto simp: release_device_def release_claim_acked holds_claim_iff fun_eq_iff)
  show "claims_ok (release_device d h s)"
    using ok by (simp add: release_device_def claims_ok_release)
qed

text \<open>
  A history of committed acquisitions and releases, by any process and for any device.
\<close>

fun claim_event :: "int \<Rightarrow> string \<Rightarrow> store \<Rightarrow> (int, string) lock_event \<Rightarrow> store" where
  "claim_event now purpose s (Acquire d tok) =
     (case acquire_device now purpose d tok s of None \<Rightarrow> s | Some s' \<Rightarrow> s')"
| "claim_event now purpose s (Release d tok) = release_device d tok s"

lemma claim_event_eq: "claim_event now purpose = device_lock.run_event now purpose"
proof (intro ext)
  fix s e show "claim_event now purpose s e = device_lock.run_event now purpose s e"
    by (cases e) (simp_all add: device_lock.run_event.simps)
qed

lemma acquired_holder:
  assumes "acquire_device now purpose d tok s = Some s'"
  shows "claim_holder s' d = Some tok"
proof -
  note acq = acquire_device_SomeD [OF assms]
  have "row_by c_device d (st_claims s) = None" using acq(2) by (simp add: row_by_None_iff)
  then show ?thesis by (simp add: acq(1) claim_holder_def)
qed

lemma lock_claim_own: "lock_claim (own_registration d tok) s =
    (if \<exists>c \<in> set (st_claims s). c_device c = d \<and> c_token c = tok then Inr () else Inl ClaimLost)"
  by (simp add: lock_claim_def holds_claim_iff)

lemma acquire_claim_SomeD:
  "acquire_claim fate busy now d purpose jb tok s = (s', Inr (Some reg)) \<Longrightarrow>
   s' = insert_claim now d purpose jb tok s \<and> reg = own_registration d tok"
  using acquire_claim_Some(1,2) by blast

lemma acquire_claim_waiting_SomeD:
  "acquire_claim_waiting now d purpose jb tok polls s = (s', Inr (Some reg)) \<Longrightarrow>
   \<exists>t \<in> insert tok (snd ` set polls). reg = own_registration d t \<and> holds_claim s' reg"
proof (induction polls arbitrary: tok s)
  case Nil
  then show ?case
    by (auto simp: holds_claim_iff dest!: acquire_claim_SomeD split: prod.splits sum.splits option.splits)
next
  case (Cons p polls)
  obtain s1 r where acq: "acquire_claim Acked False now d purpose jb tok s = (s1, r)" by fastforce
  consider e where "r = Inl e" | reg' where "r = Inr (Some reg')" | "r = Inr None"
    by (metis option.exhaust sum.exhaust)
  then show ?case
  proof cases
    case 2
    then show ?thesis using Cons.prems acq by (auto simp: holds_claim_iff dest!: acquire_claim_SomeD)
  next
    case 3
    then show ?thesis using Cons.prems Cons.IH [of "snd p" "fst p s1"] acq by (cases p) auto
  qed (use Cons.prems acq in auto)
qed

lemma release_drops: "\<not> holds_claim (fst (release_claim Acked False (own_registration d tok) s)) (own_registration d tok)"
  by (auto simp: release_claim_acked holds_claim_iff)

section \<open>Properties\<close>



text \<open>
  C21. No ABA: a token that does not hold its device (because it was released or revoked) never
  validates again, whatever acquisitions and releases follow, as long as that token itself is
  not minted again.  Its holder's next transaction raises the claim-lost error.
\<close>

theorem revoked_token_never_validates:
  assumes "claims_ok s" and "lock_claim (own_registration d tok) s = Inl ClaimLost"
    and "Acquire d tok \<notin> set es"
  shows "lock_claim (own_registration d tok) (foldl (claim_event now purpose) s es) = Inl ClaimLost"
proof -
  have "claim_holder s d \<noteq> Some tok"
    using assms(1,2) by (simp add: lock_claim_own claim_holder_Some_iff split: if_splits)
  then have "claim_holder (foldl (claim_event now purpose) s es) d \<noteq> Some tok"
    unfolding claim_event_eq using assms(1,3) by (intro device_lock.never_reacquired)
  moreover have "claims_ok (foldl (claim_event now purpose) s es)"
    unfolding claim_event_eq by (rule device_lock.run_events_inv [OF assms(1)])
  ultimately show ?thesis by (auto simp: lock_claim_own claim_holder_Some_iff)
qed

theorem revoked_token_never_validates_witness:
  "lock_claim (own_registration 1 ''old'')
     (foldl (claim_event 5 ''job'') sample_store [Release 1 ''tok'', Acquire 1 ''new'']) = Inl ClaimLost"
proof -
  have "claims_ok sample_store" "lock_claim (own_registration 1 ''old'') sample_store = Inl ClaimLost" by code_simp+
  then show ?thesis by (rule revoked_token_never_validates) simp
qed

text \<open>
  C22. An acquisition whose COMMIT acknowledgement was lost never leaks a claim.  If the fresh
  token ends up in the table, the caller got the registration back, or the call was cancelled
  and the live registration it passed in now carries the claim (when it passed a free one); and
  a returned registration is always backed by its row.
\<close>

theorem acquisition_never_leaks:
  assumes "tok \<notin> c_token ` set (st_claims s)"
    and "acquire_claim_resolving fate busy now d purpose jb tok (Some adopt) s = (s', adopt', r)"
    and "\<not> registered adopt"
  shows "((\<exists>c \<in> set (st_claims s'). c_token c = tok) \<longrightarrow>
      r = Inr (Some (own_registration d tok)) \<or>
      (r = Inl Cancelled \<and> adopt' = Some (adopt\<lparr>r_device := Some d, r_token := Some tok\<rparr>))) \<and>
    (\<forall>reg. r = Inr (Some reg) \<longrightarrow> holds_claim s' reg)"
proof (intro conjI impI allI)
  obtain s1 r1 where acq: "acquire_claim fate busy now d purpose jb tok s = (s1, r1)" by fastforce
  show "r = Inr (Some (own_registration d tok)) \<or>
      (r = Inl Cancelled \<and> adopt' = Some (adopt\<lparr>r_device := Some d, r_token := Some tok\<rparr>))"
    if tab: "\<exists>c \<in> set (st_claims s'). c_token c = tok"
    using acq
  proof (cases rule: acquire_claim_cases [where x = "own_registration d tok"])
    case 1
    then have none: "row_by c_token tok (st_claims s1) = None" using assms(1) by (simp add: row_by_None_iff)
    then have "s' = s"
      using assms(2) acq 1 by (auto simp: acquire_claim_resolving_def resolve_claim_by_token_def split: sum.splits)
    then show ?thesis using assms(1) tab by auto
  next
    case 2
    then have "row_by c_token tok (st_claims s) = None" by (simp add: row_by_None_iff)
    then show ?thesis
      using assms(2,3) acq 2
      by (auto simp: acquire_claim_resolving_def resolve_claim_by_token_def own_registration_def commit_exn_def
          split: if_splits commit_fate.splits)
  qed
  show "holds_claim s' reg" if "r = Inr (Some reg)" for reg
  proof (cases r1)
    case (Inl e)
    then have "resolve_claim_by_token tok s1 = Some reg" "s' = s1"
      using assms(2) acq that by (auto simp: acquire_claim_resolving_def split: option.splits if_splits)
    then show ?thesis
      by (auto simp: resolve_claim_by_token_def holds_claim_iff dest!: row_by_SomeD)
  next
    case (Inr x)
    then show ?thesis
      using assms(2) acq that
      by (auto simp: acquire_claim_resolving_def holds_claim_iff dest!: acquire_claim_SomeD)
  qed
qed

theorem acquisition_never_leaks_witness:
  "\<exists>s' adopt'. acquire_claim_resolving (LostCancelled True) False 5 1 ''job'' None ''n''
      (Some \<lparr>r_device = None, r_token = None, r_attempt = Some 3\<rparr>) (sample_store\<lparr>st_claims := []\<rparr>)
      = (s', adopt', Inl Cancelled) \<and>
    adopt' = Some \<lparr>r_device = Some 1, r_token = Some ''n'', r_attempt = Some 3\<rparr>"
proof -
  let ?s = "sample_store\<lparr>st_claims := []\<rparr>" and ?a = "\<lparr>r_device = None, r_token = None, r_attempt = Some 3\<rparr>"
  let ?out = "acquire_claim_resolving (LostCancelled True) False 5 1 ''job'' None ''n'' (Some ?a) ?s"
  have out: "?out = (fst ?out, fst (snd ?out), snd (snd ?out))" by simp
  have pre: "''n'' \<notin> c_token ` set (st_claims ?s)" "\<not> registered ?a"
    "\<exists>c \<in> set (st_claims (fst ?out)). c_token c = ''n''"
    "snd (snd ?out) = Inl Cancelled" by code_simp+
  from acquisition_never_leaks [OF pre(1) out pre(2)] pre(3,4)
  have "fst (snd ?out) = Some (?a\<lparr>r_device := Some 1, r_token := Some ''n''\<rparr>)" by simp
  then show ?thesis using out pre(4) by (metis (no_types) registration.update_convs(1,2))
qed

text \<open>
  A body run under the held claim gives the claim back on every exit, normal or raised: the
  registration it ran under no longer holds the device afterwards, and the body itself ran with
  the claim row present.
\<close>

theorem held_claim_releases:
  assumes "acquire_claim_or_refuse now d purpose jb tok polls s = (s1, Inr reg)"
    and "held_claim Acked False now d purpose jb tok polls body s = (s', r)"
  shows "holds_claim s1 reg \<and> r = snd (body reg s1) \<and> \<not> holds_claim s' reg"
proof -
  have "acquire_claim_waiting now d purpose jb tok polls s = (s1, Inr (Some reg))"
    using assms(1) by (auto simp: acquire_claim_or_refuse_def split: prod.splits sum.splits option.splits)
  from acquire_claim_waiting_SomeD [OF this] obtain t where
    t: "reg = own_registration d t" and h: "holds_claim s1 reg" by auto
  show ?thesis
    using assms h release_drops [of d t] by (auto simp: held_claim_def t split: prod.splits)
qed

theorem held_claim_releases_witness:
  "\<not> holds_claim (fst (held_claim Acked False 5 1 ''intent_put'' None ''a'' []
      (\<lambda>reg s. (s, Inl DeviceProjectionGone :: exn + unit)) (sample_store\<lparr>st_claims := []\<rparr>)))
     (own_registration 1 ''a'')"
proof -
  let ?s = "sample_store\<lparr>st_claims := []\<rparr>" and ?body = "\<lambda>reg s. (s, Inl DeviceProjectionGone :: exn + unit)"
  let ?h = "held_claim Acked False 5 1 ''intent_put'' None ''a'' [] ?body ?s"
  have "snd (acquire_claim_or_refuse 5 1 ''intent_put'' None ''a'' [] ?s) = Inr (own_registration 1 ''a'')"
    by code_simp
  then have "acquire_claim_or_refuse 5 1 ''intent_put'' None ''a'' [] ?s =
      (fst (acquire_claim_or_refuse 5 1 ''intent_put'' None ''a'' [] ?s), Inr (own_registration 1 ''a''))"
    by (metis prod.collapse)
  moreover have "?h = (fst ?h, snd ?h)" by simp
  ultimately show ?thesis using held_claim_releases by blast
qed

end
