(* ===== verification/Terminal_Writer.thy ===== *)
theory Terminal_Writer
  imports Settle_Counter Execution_Evidence Claims
begin

text \<open>
  The one terminal writer of \<open>core/claim.py\<close>: the ownership compare-and-set on a job row,
  the evidence owed by a run that prepared no attempt, settlement of the carried generations,
  allocation of the settlement sequence, offboard's bulk writers, and recovery's
  re-disposition of a running job.
\<close>

section \<open>Operations\<close>

subsection \<open>Evidence of a run that prepared no attempt\<close>

definition with_unprepared_evidence ::
  "env \<Rightarrow> store \<Rightarrow> int \<Rightarrow> job \<Rightarrow> jdict option \<Rightarrow> jdict option \<Rightarrow> exn + jdict option" where
  "with_unprepared_evidence E s k locked result err =
     (if \<not> device_writing (j_type locked) \<or> j_device locked = None then Inr result
      else case unprepared_evidence E s k (j_type locked) (j_run_attempt locked) err of
        None \<Rightarrow> Inr result
      | Some ev \<Rightarrow>
          let base = (case result of None \<Rightarrow> [] | Some r \<Rightarrow> r) in
          if list_ex (\<lambda>(key, _). dhas base key) ev
          then Inl (ValueError ''a result without row outcomes already carries evidence'')
          else Inr (Some (dmerge base ev)))"

subsection \<open>The compare-and-set\<close>

definition ownership :: "int \<Rightarrow> job_status \<Rightarrow> int option \<Rightarrow> job \<Rightarrow> bool" where
  "ownership k expect ra j = (j_id j = k \<and> j_status j = expect \<and>
     (case ra of None \<Rightarrow> True | Some a \<Rightarrow> j_run_attempt j = a))"

definition cas_job_status ::
  "store \<Rightarrow> int \<Rightarrow> job_status \<Rightarrow> job_status \<Rightarrow> int option \<Rightarrow> (job \<Rightarrow> job) \<Rightarrow> (store \<times> int option) option" where
  "cas_job_status s k status expect ra vals =
     (if exists_where (ownership k expect ra) (st_jobs s)
      then let s1 = upd_jobs (ownership k expect ra) (\<lambda>j. vals (j\<lparr>j_status := status\<rparr>)) s
           in Some (s1, Option.bind (job_by_id s1 k) j_device)
      else None)"

definition terminal_vals ::
  "jdict option \<Rightarrow> jdict option \<Rightarrow> int option option \<Rightarrow> job \<Rightarrow> job" where
  "terminal_vals result err set_device j = j\<lparr>
     j_result := (case result of None \<Rightarrow> j_result j | Some r \<Rightarrow> Some r),
     j_error := (case err of None \<Rightarrow> j_error j | Some e \<Rightarrow> Some e),
     j_device := (case set_device of None \<Rightarrow> j_device j | Some d \<Rightarrow> d)\<rparr>"

record terminal_write =
  w_job :: int
  w_status :: job_status
  w_device :: "int option"
  w_seq :: "int option"

text \<open>
  The result the write carries: as given when it has row outcomes; otherwise the job row is
  locked under the ownership predicate first (no such row refuses the write) and the evidence
  is added.
\<close>

definition terminal_result ::
  "env \<Rightarrow> store \<Rightarrow> int \<Rightarrow> job_status \<Rightarrow> int option \<Rightarrow> jdict option \<Rightarrow> jdict option
   \<Rightarrow> exn + jdict option option" where
  "terminal_result E s k expect ra result err =
     (if (case result of None \<Rightarrow> True | Some r \<Rightarrow> \<not> dhas r ''row_outcomes'') then
        (case List.find (ownership k expect ra) (st_jobs s) of
           None \<Rightarrow> Inr None
         | Some locked \<Rightarrow> bindE (with_unprepared_evidence E s k locked result err) (\<lambda>r. Inr (Some r)))
      else Inr (Some result))"

definition allocate_terminal_seq ::
  "int \<Rightarrow> int option \<Rightarrow> store \<Rightarrow> exn + store \<times> int option" where
  "allocate_terminal_seq k dev s = (case dev of
       None \<Rightarrow> Inr (s, None)
     | Some d \<Rightarrow> (case allocate_settle_seq d s of
         Inl _ \<Rightarrow> Inl BookkeepingOutcomeUnknown
       | Inr (s1, n) \<Rightarrow> Inr (upd_jobs (\<lambda>j. j_id j = k) (\<lambda>j. j\<lparr>j_settle_seq := Some n\<rparr>) s1, Some n)))"

definition gen_verdict :: "gen_status option \<Rightarrow> job_status \<Rightarrow> gen_status" where
  "gen_verdict outcome status = (case outcome of Some g \<Rightarrow> g
     | None \<Rightarrow> if status = JSucceeded then GSettled else GFailed)"

definition terminalize ::
  "env \<Rightarrow> int \<Rightarrow> store \<Rightarrow> int \<Rightarrow> job_status \<Rightarrow> job_status \<Rightarrow> int option \<Rightarrow> jdict option \<Rightarrow> jdict option
   \<Rightarrow> int option option \<Rightarrow> gen_status option \<Rightarrow> exn + store \<times> terminal_write option" where
  "terminalize E now s k status expect ra result err set_device gen_outcome =
     (if \<not> job_terminal status then Inl (ValueError ''terminalize is for terminal statuses only'')
      else bindE (terminal_result E s k expect ra result err) (\<lambda>r.
        case r of None \<Rightarrow> Inr (s, None)
        | Some result' \<Rightarrow>
            (case cas_job_status s k status expect ra (terminal_vals result' err set_device) of
               None \<Rightarrow> Inr (s, None)
             | Some (s1, dev) \<Rightarrow>
                 bindE (settle_job_generations s1 k (gen_verdict gen_outcome status) err now)
                   (\<lambda>s2. bindE (allocate_terminal_seq k dev s2) (\<lambda>(s3, n).
                      Inr (s3, Some \<lparr>w_job = k, w_status = status, w_device = dev, w_seq = n\<rparr>))))))"

subsection \<open>Offboard's bulk writers\<close>

definition terminalize_where :: "(job \<Rightarrow> bool) \<Rightarrow> jdict \<Rightarrow> store \<Rightarrow> store \<times> nat" where
  "terminalize_where p err s =
     (upd_jobs p (\<lambda>j. j\<lparr>j_status := JFailed, j_error := Some err\<rparr>) s, length (filter p (st_jobs s)))"

definition terminalize_queued_bulk :: "int \<Rightarrow> jdict \<Rightarrow> store \<Rightarrow> store \<times> nat" where
  "terminalize_queued_bulk d err s =
     terminalize_where (\<lambda>j. j_device j = Some d \<and> j_status j = JQueued) err s"

definition terminalize_offboard_orphans_bulk :: "int \<Rightarrow> jdict \<Rightarrow> store \<Rightarrow> store \<times> nat" where
  "terminalize_offboard_orphans_bulk d err s =
     terminalize_where (\<lambda>j. j_device j = Some d \<and> \<not> job_terminal (j_status j)) err s"

subsection \<open>Recovery's re-disposition of a running job\<close>

definition queued_successor_id :: "store \<Rightarrow> int \<Rightarrow> job_type \<Rightarrow> int option" where
  "queued_successor_id s d ty = map_option j_id
     (List.find (\<lambda>j. j_device j = Some d \<and> j_type j = ty \<and> j_status j = JQueued) (st_jobs s))"

definition superseded_error :: "int option \<Rightarrow> jdict" where
  "superseded_error k = [(''code'', JStr ''superseded''),
     (''message'', JStr ''Interrupted; an equivalent queued job covers the re-run''),
     (''detail'', JObj [(''queued_successor_id'', case k of None \<Rightarrow> JNull | Some i \<Rightarrow> JInt i)])]"

text \<open>
  The partial unique index \<open>uq_job_queued_per_device_type\<close>: would the row collide with another
  queued coalescible row once it is queued?
\<close>

definition queued_slot_taken :: "store \<Rightarrow> job \<Rightarrow> bool" where
  "queued_slot_taken s j = (j_coalescible j \<and> j_device j \<noteq> None \<and>
     exists_where (\<lambda>i. j_id i \<noteq> j_id j \<and> j_status i = JQueued \<and> j_coalescible i \<and>
       j_device i = j_device j \<and> j_type i = j_type j) (st_jobs s))"

definition requeue_vals :: "jdict option \<Rightarrow> job \<Rightarrow> job" where
  "requeue_vals err j = j\<lparr>j_started_at := None, j_heartbeat_at := None,
     j_error := (case err of None \<Rightarrow> j_error j | Some e \<Rightarrow> Some e)\<rparr>"

definition finish_running ::
  "env \<Rightarrow> int \<Rightarrow> store \<Rightarrow> int \<Rightarrow> job_status \<Rightarrow> jdict option \<Rightarrow> bool \<Rightarrow> int option
   \<Rightarrow> exn + store \<times> job_status option" where
  "finish_running E now s k status err superseded ra =
     bindE (terminalize E now s k status JRunning ra None err None
              (if superseded then Some GAbandoned
               else if status = JFailed then Some GOutcomeUnknown else None))
       (\<lambda>(s1, w). Inr (s1, map_option w_status w))"

text \<open>
  \<open>mid\<close> is what other transactions commit between the successor lookup and the requeue
  UPDATE, which runs in a savepoint because admission may have taken the queued slot meanwhile.
\<close>

definition terminalize_running ::
  "env \<Rightarrow> int \<Rightarrow> (store \<Rightarrow> store) \<Rightarrow> store \<Rightarrow> int \<Rightarrow> job_status \<Rightarrow> jdict option \<Rightarrow> int option
   \<Rightarrow> exn + store \<times> job_status option" where
  "terminalize_running E now mid s k status err ra =
     (if status \<noteq> JQueued then finish_running E now s k status err False ra
      else
        let coal = (case List.find (\<lambda>j. j_id j = k \<and> j_status j = JRunning) (st_jobs s) of
                      None \<Rightarrow> None
                    | Some j \<Rightarrow> (case j_device j of None \<Rightarrow> None
                        | Some d \<Rightarrow> if j_type j = JTRemoval then None else Some (d, j_type j)));
            successor = (case coal of None \<Rightarrow> None | Some (d, ty) \<Rightarrow> queued_successor_id s d ty)
        in case successor of
             Some i \<Rightarrow> finish_running E now s k JFailed (Some (superseded_error (Some i))) True ra
           | None \<Rightarrow>
               let s1 = mid s in
               (case List.find (ownership k JRunning ra) (st_jobs s1) of
                  None \<Rightarrow> Inr (s1, None)
                | Some j \<Rightarrow>
                    if queued_slot_taken s1 j then
                      finish_running E now s1 k JFailed
                        (Some (superseded_error
                           (case coal of None \<Rightarrow> None | Some (d, ty) \<Rightarrow> queued_successor_id s1 d ty))) True ra
                    else
                      Inr (requeue_job_generations k
                             (upd_jobs (ownership k JRunning ra) (\<lambda>j. requeue_vals err (j\<lparr>j_status := JQueued\<rparr>)) s1),
                           Some JQueued)))"

definition fail_lost_attempt ::
  "env \<Rightarrow> int \<Rightarrow> store \<Rightarrow> int \<Rightarrow> int \<Rightarrow> exn + store \<times> job_status option" where
  "fail_lost_attempt E now s k ra = terminalize_running E now id s k JFailed
     (Some [(''code'', JStr ''attempt_ownership_lost''),
            (''message'', JStr ''Execution attempt no longer matches its job''), (''detail'', JObj [])])
     (Some ra)"

section \<open>The effect of a terminal write\<close>

definition ids_ok :: "store \<Rightarrow> bool" where
  "ids_ok s = (distinct (map j_id (st_jobs s)) \<and> distinct (map g_id (st_gens s)))"

lemma ownership_id: "ownership k expect ra j \<Longrightarrow> j_id j = k"
  by (simp add: ownership_def)

lemma find_ownership:
  assumes "distinct (map j_id (st_jobs s))" and "List.find (ownership k expect ra) (st_jobs s) = Some j"
  shows "j \<in> set (st_jobs s)" "ownership k expect ra j" "job_by_id s k = Some j"
    "\<And>i. i \<in> set (st_jobs s) \<Longrightarrow> ownership k expect ra i \<longleftrightarrow> i = j"
    "\<And>i. i \<in> set (st_jobs s) \<Longrightarrow> j_id i = k \<longleftrightarrow> i = j"
proof -
  show j: "j \<in> set (st_jobs s)" "ownership k expect ra j"
    using assms(2) by (auto simp: find_Some_iff)
  then show "job_by_id s k = Some j"
    using assms(1) by (simp add: row_by_eq_Some_iff ownership_id)
  fix i assume i: "i \<in> set (st_jobs s)"
  show eq: "j_id i = k \<longleftrightarrow> i = j"
    using j i assms(1) ownership_id [OF j(2)] by (auto simp: distinct_map dest: inj_onD)
  then show "ownership k expect ra i \<longleftrightarrow> i = j"
    using j ownership_id by blast
qed

lemma upd_where_row_cong:
  "(\<And>r. r \<in> set t \<Longrightarrow> (if p r then f r else r) = (if q r then g r else r)) \<Longrightarrow> upd_where p f t = upd_where q g t"
  by (induction t) auto

lemma row_by_replaced:
  assumes "row_by key k t = Some r" and "key r' = k"
  shows "row_by key k (upd_where (\<lambda>x. key x = k) (\<lambda>_. r') t) = Some r'"
  using assms by (induction t) (auto split: if_splits)

lemma terminal_result_refused:
  "terminal_result E s k expect ra result err = Inr None \<Longrightarrow> List.find (ownership k expect ra) (st_jobs s) = None"
  by (auto simp: terminal_result_def bindE_eq_Inr split: if_splits option.splits)

lemma cas_job_status_None:
  "cas_job_status s k status expect ra vals = None \<longleftrightarrow> List.find (ownership k expect ra) (st_jobs s) = None"
  by (auto simp: cas_job_status_def Let_def table_simps find_None_iff)

lemma cas_job_status_Some:
  assumes "distinct (map j_id (st_jobs s))" and "\<And>j. j_id (vals j) = j_id j"
    and "cas_job_status s k status expect ra vals = Some (s1, dev)"
  obtains j where "List.find (ownership k expect ra) (st_jobs s) = Some j"
    "s1 = s\<lparr>st_jobs := upd_where (\<lambda>i. j_id i = k) (\<lambda>_. vals (j\<lparr>j_status := status\<rparr>)) (st_jobs s)\<rparr>"
    "dev = j_device (vals (j\<lparr>j_status := status\<rparr>))" "job_by_id s1 k = Some (vals (j\<lparr>j_status := status\<rparr>))"
proof -
  have "List.find (ownership k expect ra) (st_jobs s) \<noteq> None"
    using assms(3) cas_job_status_None [of s k status expect ra vals] by simp
  then obtain j where j: "List.find (ownership k expect ra) (st_jobs s) = Some j" by auto
  note own = find_ownership [OF assms(1) j]
  let ?j' = "vals (j\<lparr>j_status := status\<rparr>)"
  have upd: "upd_where (ownership k expect ra) (\<lambda>j. vals (j\<lparr>j_status := status\<rparr>)) (st_jobs s)
      = upd_where (\<lambda>i. j_id i = k) (\<lambda>_. ?j') (st_jobs s)"
    by (rule upd_where_row_cong) (auto simp: own)
  have "row_by j_id k (upd_where (\<lambda>i. j_id i = k) (\<lambda>_. ?j') (st_jobs s)) = Some ?j'"
    using own(3) assms(2) ownership_id [OF own(2)] by (intro row_by_replaced) auto
  then show ?thesis
    using assms(3) j upd
    by (intro that [of j]) (auto simp: cas_job_status_def Let_def upd_jobs_def split: if_splits)
qed

lemma terminalize_cases:
  assumes "terminalize E now s k status expect ra result err sd go = Inr (s', w)"
  obtains (refused) "w = None" "s' = s" "List.find (ownership k expect ra) (st_jobs s) = None"
  | (written) r' s1 dev s2 n where "terminal_result E s k expect ra result err = Inr (Some r')"
      "cas_job_status s k status expect ra (terminal_vals r' err sd) = Some (s1, dev)"
      "settle_job_generations s1 k (gen_verdict go status) err now = Inr s2"
      "allocate_terminal_seq k dev s2 = Inr (s', n)"
      "w = Some \<lparr>w_job = k, w_status = status, w_device = dev, w_seq = n\<rparr>" "job_terminal status"
proof (cases "terminal_result E s k expect ra result err")
  case (Inl e)
  then show ?thesis using assms by (auto simp: terminalize_def split: if_splits)
next
  case (Inr r)
  have fin: "job_terminal status" using assms by (auto simp: terminalize_def split: if_splits)
  show ?thesis
  proof (cases r)
    case None
    then show ?thesis
      using assms Inr fin terminal_result_refused [of E s k expect ra result err]
      by (intro refused) (auto simp: terminalize_def)
  next
    case (Some r')
    show ?thesis
    proof (cases "cas_job_status s k status expect ra (terminal_vals r' err sd)")
      case None
      then show ?thesis
        using assms Inr Some fin cas_job_status_None [of s k status expect ra "terminal_vals r' err sd"]
        by (intro refused) (auto simp: terminalize_def)
    next
      case c: (Some c)
      then show ?thesis
        using assms Inr Some fin by (cases c) (auto simp: terminalize_def bindE_eq_Inr intro: written)
    qed
  qed
qed

definition settled_row :: "store \<Rightarrow> job \<Rightarrow> job" where
  "settled_row s j = (case j_device j of None \<Rightarrow> j | Some d \<Rightarrow> j\<lparr>j_settle_seq := Some (settle_last d s + 1)\<rparr>)"

lemma settled_row_cols [row_simps]:
  "j_id (settled_row s j) = j_id j" "j_type (settled_row s j) = j_type j" "j_status (settled_row s j) = j_status j"
  "j_device (settled_row s j) = j_device j" "j_coalescible (settled_row s j) = j_coalescible j"
  "j_result (settled_row s j) = j_result j" "j_error (settled_row s j) = j_error j"
  "j_run_attempt (settled_row s j) = j_run_attempt j" "j_created_at (settled_row s j) = j_created_at j"
  by (simp_all add: settled_row_def split: option.splits)

lemma terminal_vals_cols [row_simps]:
  "j_id (terminal_vals r e sd j) = j_id j" "j_type (terminal_vals r e sd j) = j_type j"
  "j_status (terminal_vals r e sd j) = j_status j" "j_coalescible (terminal_vals r e sd j) = j_coalescible j"
  "j_run_attempt (terminal_vals r e sd j) = j_run_attempt j" "j_created_at (terminal_vals r e sd j) = j_created_at j"
  "j_settle_seq (terminal_vals r e sd j) = j_settle_seq j"
  "j_device (terminal_vals r e sd j) = (case sd of None \<Rightarrow> j_device j | Some d \<Rightarrow> d)"
  by (simp_all add: terminal_vals_def)

lemma settle_last_cong: "st_settle s = st_settle s' \<Longrightarrow> settle_last d s = settle_last d s'"
  by (simp add: settle_last_def)

lemma allocate_terminal_seq_effect:
  assumes "allocate_terminal_seq k dev s = Inr (s', n)" and "job_by_id s k = Some j" and "dev = j_device j"
    and "st_jobs s = upd_where (\<lambda>i. j_id i = k) (\<lambda>_. j) t"
  shows "st_jobs s' = upd_where (\<lambda>i. j_id i = k) (\<lambda>_. settled_row s j) t"
    and "n = (case dev of None \<Rightarrow> None | Some d \<Rightarrow> Some (settle_last d s + 1))"
    and "s' = s\<lparr>st_jobs := st_jobs s', st_settle := st_settle s'\<rparr>"
    and "settle_last d' s' = (if dev = Some d' then settle_last d' s + 1 else settle_last d' s)"
proof -
  have jid: "j_id j = k" using assms(2) by (auto dest: row_by_SomeD)
  have "st_jobs s' = upd_where (\<lambda>i. j_id i = k) (\<lambda>_. settled_row s j) t \<and>
      n = (case dev of None \<Rightarrow> None | Some d \<Rightarrow> Some (settle_last d s + 1)) \<and>
      s' = s\<lparr>st_jobs := st_jobs s', st_settle := st_settle s'\<rparr> \<and>
      settle_last d' s' = (if dev = Some d' then settle_last d' s + 1 else settle_last d' s)"
  proof (cases dev)
    case None
    then show ?thesis using assms by (simp add: allocate_terminal_seq_def settled_row_def)
  next
    case (Some d)
    then obtain s1 where alloc: "allocate_settle_seq d s = Inr (s1, settle_last d s + 1)"
      and s': "s' = upd_jobs (\<lambda>j. j_id j = k) (\<lambda>j. j\<lparr>j_settle_seq := Some (settle_last d s + 1)\<rparr>) s1"
      and n: "n = Some (settle_last d s + 1)"
      using assms(1) by (auto simp: allocate_terminal_seq_def split: sum.splits dest: allocate_settle_seq_InrD(1))
    note eff = allocate_settle_seq_InrD [OF alloc]
    have jobs1: "st_jobs s1 = st_jobs s" by (subst eff(4)) simp
    have "upd_where (\<lambda>j. j_id j = k) (\<lambda>j. j\<lparr>j_settle_seq := Some (settle_last d s + 1)\<rparr>)
        (upd_where (\<lambda>i. j_id i = k) (\<lambda>_. j) t) = upd_where (\<lambda>i. j_id i = k) (\<lambda>_. settled_row s j) t"
      using jid Some assms(3) by (induction t) (auto simp: settled_row_def)
    moreover have "settle_last d' s' = settle_last d' s1"
      by (rule settle_last_cong) (simp add: s')
    moreover have "s' = s\<lparr>st_jobs := st_jobs s', st_settle := st_settle s'\<rparr>"
      using arg_cong [OF eff(4), of "\<lambda>x. x\<lparr>st_jobs := st_jobs s'\<rparr>"] by (simp add: s' upd_jobs_def)
    ultimately show ?thesis
      using n Some eff(2,3) by (cases "d = d'") (simp_all add: s' jobs1 assms(4))
  qed
  then show "st_jobs s' = upd_where (\<lambda>i. j_id i = k) (\<lambda>_. settled_row s j) t"
    and "n = (case dev of None \<Rightarrow> None | Some d \<Rightarrow> Some (settle_last d s + 1))"
    and "s' = s\<lparr>st_jobs := st_jobs s', st_settle := st_settle s'\<rparr>"
    and "settle_last d' s' = (if dev = Some d' then settle_last d' s + 1 else settle_last d' s)"
    by blast+
qed

text \<open>
  The whole effect of a write that landed: the job row is replaced by its terminal version,
  the carried generations take the verdict with the terminal row as their evidence, the
  streams advance to proved revisions, the device's settlement counter moves by one.
\<close>

lemma terminalize_written:
  assumes ids: "ids_ok s" and run: "terminalize E now s k status expect ra result err sd go = Inr (s', Some w)"
  obtains j r' where "List.find (ownership k expect ra) (st_jobs s) = Some j"
    "terminal_result E s k expect ra result err = Inr (Some r')"
    "st_jobs s' = upd_where (\<lambda>i. j_id i = k)
       (\<lambda>_. settled_row s (terminal_vals r' err sd (j\<lparr>j_status := status\<rparr>))) (st_jobs s)"
    "st_gens s' = upd_where (\<lambda>g. g_job g = Some k)
       (terminal_values (gen_verdict go status) err now (Some (terminal_vals r' err sd (j\<lparr>j_status := status\<rparr>))))
       (st_gens s)"
    "stream_advance (revision_proved s') s s'"
    "s' = s\<lparr>st_jobs := st_jobs s', st_gens := st_gens s', st_streams := st_streams s', st_settle := st_settle s'\<rparr>"
    "\<And>d'. settle_last d' s' = (if w_device w = Some d' then settle_last d' s + 1 else settle_last d' s)"
    "w = \<lparr>w_job = k, w_status = status, w_device = (case sd of None \<Rightarrow> j_device j | Some d \<Rightarrow> d),
       w_seq = (case (case sd of None \<Rightarrow> j_device j | Some d \<Rightarrow> d) of None \<Rightarrow> None
          | Some d \<Rightarrow> Some (settle_last d s + 1))\<rparr>"
    "job_terminal status"
  using run
proof (cases rule: terminalize_cases)
  case (written r' s1 dev s2 n)
  have jd: "distinct (map j_id (st_jobs s))" and gd: "distinct (map g_id (st_gens s))"
    using ids by (simp_all add: ids_ok_def)
  obtain j where j: "List.find (ownership k expect ra) (st_jobs s) = Some j"
    and s1: "s1 = s\<lparr>st_jobs := upd_where (\<lambda>i. j_id i = k) (\<lambda>_. terminal_vals r' err sd (j\<lparr>j_status := status\<rparr>)) (st_jobs s)\<rparr>"
    and dev: "dev = j_device (terminal_vals r' err sd (j\<lparr>j_status := status\<rparr>))"
    and row: "job_by_id s1 k = Some (terminal_vals r' err sd (j\<lparr>j_status := status\<rparr>))"
    using cas_job_status_Some [OF jd _ written(2)] by (auto simp: terminal_vals_def)
  let ?jt = "terminal_vals r' err sd (j\<lparr>j_status := status\<rparr>)"
  have gd1: "distinct (map g_id (st_gens s1))" using gd by (simp add: s1)
  obtain gs ss where s2: "s2 = s1\<lparr>st_gens := gs, st_streams := ss\<rparr>"
    using settle_job_generations_frame [OF written(3)] by auto
  have row2: "job_by_id s2 k = Some ?jt" and jobs2: "st_jobs s2 = upd_where (\<lambda>i. j_id i = k) (\<lambda>_. ?jt) (st_jobs s)"
    using row by (simp_all add: s2 s1)
  note alloc = allocate_terminal_seq_effect [OF written(4) row2 dev jobs2]
  have last2: "settle_last d s2 = settle_last d s" for d
    by (rule settle_last_cong) (simp add: s2 s1)
  have srow: "settled_row s2 ?jt = settled_row s ?jt"
    unfolding settled_row_def last2 ..
  have gens': "st_gens s' = st_gens s2" and streams': "st_streams s' = st_streams s2"
    by (subst alloc(3), simp)+
  have adv: "stream_advance (revision_proved s') s s'"
    using settle_advance [OF gd1 written(3)] revision_proved_gens [of s2 s'] gens' streams'
    by (simp add: stream_advance_def s1)
  have frame: "s' = s\<lparr>st_jobs := st_jobs s', st_gens := st_gens s', st_streams := st_streams s', st_settle := st_settle s'\<rparr>"
    unfolding gens' streams' by (subst alloc(3)) (rule store.equality; simp add: s2 s1)
  show thesis
  proof (rule that [OF j written(1)])
    show "st_jobs s' = upd_where (\<lambda>i. j_id i = k) (\<lambda>_. settled_row s ?jt) (st_jobs s)"
      using alloc(1) by (simp add: srow)
    show "st_gens s' = upd_where (\<lambda>g. g_job g = Some k)
       (terminal_values (gen_verdict go status) err now (Some ?jt)) (st_gens s)"
      using settle_job_generations_gens [OF gd1 written(3)] row by (simp add: gens' s1)
    show "settle_last d' s' = (if w_device w = Some d' then settle_last d' s + 1 else settle_last d' s)" for d'
      using alloc(4) [of d'] written(5) by (simp add: last2)
    show "w = \<lparr>w_job = k, w_status = status, w_device = (case sd of None \<Rightarrow> j_device j | Some d \<Rightarrow> d),
       w_seq = (case (case sd of None \<Rightarrow> j_device j | Some d \<Rightarrow> d) of None \<Rightarrow> None
          | Some d \<Rightarrow> Some (settle_last d s + 1))\<rparr>"
      using written(5) alloc(2) dev by (simp add: last2 row_simps split: option.splits)
  qed (fact adv, fact frame, fact written(6))
qed auto

section \<open>Invariants of the job table\<close>

text \<open>
  \<open>settle_seqs_ok\<close>: a live job has no settlement sequence, no sequence is above its device's
  counter, and no two jobs of a device share one.  \<open>queued_unique\<close> is the partial unique index
  on queued coalescible jobs.
\<close>

definition settle_seqs_ok :: "store \<Rightarrow> bool" where
  "settle_seqs_ok s \<longleftrightarrow>
     (\<forall>j \<in> set (st_jobs s). job_live (j_status j) \<longrightarrow> j_settle_seq j = None) \<and>
     (\<forall>j \<in> set (st_jobs s). \<forall>d n. j_device j = Some d \<and> j_settle_seq j = Some n \<longrightarrow> n \<le> settle_last d s) \<and>
     (\<forall>i \<in> set (st_jobs s). \<forall>j \<in> set (st_jobs s). \<forall>d n. j_device i = Some d \<and> j_device j = Some d \<and>
        j_settle_seq i = Some n \<and> j_settle_seq j = Some n \<longrightarrow> j_id i = j_id j)"

definition in_queued_slot :: "job \<Rightarrow> int \<Rightarrow> job_type \<Rightarrow> bool" where
  "in_queued_slot j d ty = (j_status j = JQueued \<and> j_coalescible j \<and> j_device j = Some d \<and> j_type j = ty)"

definition queued_unique :: "store \<Rightarrow> bool" where
  "queued_unique s \<longleftrightarrow> (\<forall>i \<in> set (st_jobs s). \<forall>j \<in> set (st_jobs s). \<forall>d ty.
     in_queued_slot i d ty \<and> in_queued_slot j d ty \<longrightarrow> j_id i = j_id j)"

lemma in_replaced:
  assumes "i \<in> set (upd_where (\<lambda>i. j_id i = k) (\<lambda>_. j') t)" and "j_id j' = k"
  shows "(i = j' \<and> k \<in> j_id ` set t) \<or> (i \<in> set t \<and> j_id i \<noteq> k)"
  using assms by (auto elim!: in_upd_whereE split: if_splits intro: rev_image_eqI)

lemma ids_ok_replaced:
  assumes "ids_ok s" and "j_id j' = k" and "map g_id gs = map g_id (st_gens s)"
  shows "ids_ok (s\<lparr>st_jobs := upd_where (\<lambda>i. j_id i = k) (\<lambda>_. j') (st_jobs s), st_gens := gs\<rparr>)"
proof -
  have "map j_id (upd_where (\<lambda>i. j_id i = k) (\<lambda>_. j') (st_jobs s)) = map j_id (st_jobs s)"
    using assms(2) by (intro map_upd_where) auto
  then show ?thesis using assms by (simp add: ids_ok_def)
qed

text \<open>What the rest of the development needs of a landed write, row by row.\<close>

lemma terminalize_rows:
  assumes "ids_ok s" and "terminalize E now s k status expect ra result err sd go = Inr (s', Some w)"
  obtains j j' where "j \<in> set (st_jobs s)" "ownership k expect ra j" "j_id j' = k" "j_status j' = status"
    "job_terminal status" "st_jobs s' = upd_where (\<lambda>i. j_id i = k) (\<lambda>_. j') (st_jobs s)"
    "j_device j' = w_device w" "w_status w = status" "w_job w = k"
    "j_settle_seq j' = (case w_device w of None \<Rightarrow> j_settle_seq j | Some d \<Rightarrow> Some (settle_last d s + 1))"
    "w_seq w = (case w_device w of None \<Rightarrow> None | Some d \<Rightarrow> Some (settle_last d s + 1))"
    "j_type j' = j_type j" "j_run_attempt j' = j_run_attempt j" "j_coalescible j' = j_coalescible j"
    "sd = None \<Longrightarrow> j_device j' = j_device j"
proof (rule terminalize_written [OF assms])
  fix j r'
  assume j: "List.find (ownership k expect ra) (st_jobs s) = Some j"
    and jobs: "st_jobs s' = upd_where (\<lambda>i. j_id i = k)
       (\<lambda>_. settled_row s (terminal_vals r' err sd (j\<lparr>j_status := status\<rparr>))) (st_jobs s)"
    and w: "w = \<lparr>w_job = k, w_status = status, w_device = (case sd of None \<Rightarrow> j_device j | Some d \<Rightarrow> d),
       w_seq = (case (case sd of None \<Rightarrow> j_device j | Some d \<Rightarrow> d) of None \<Rightarrow> None
          | Some d \<Rightarrow> Some (settle_last d s + 1))\<rparr>"
    and fin: "job_terminal status"
  let ?j' = "settled_row s (terminal_vals r' err sd (j\<lparr>j_status := status\<rparr>))"
  have own: "j \<in> set (st_jobs s)" "ownership k expect ra j"
    using j by (auto simp: find_Some_iff)
  have seq: "j_settle_seq ?j' = (case w_device w of None \<Rightarrow> j_settle_seq j | Some d \<Rightarrow> Some (settle_last d s + 1))"
    by (simp add: w settled_row_def row_simps split: option.splits)
  show thesis
    by (rule that [OF own _ _ fin jobs _ _ _ seq])
      (use ownership_id [OF own(2)] w in \<open>simp_all add: row_simps split: option.splits\<close>)
qed

lemma terminalize_ids_ok:
  assumes "ids_ok s" and "terminalize E now s k status expect ra result err sd go = Inr (s', Some w)"
  shows "ids_ok s'"
proof (rule terminalize_written [OF assms])
  fix j r'
  assume j: "List.find (ownership k expect ra) (st_jobs s) = Some j"
    and jobs: "st_jobs s' = upd_where (\<lambda>i. j_id i = k)
       (\<lambda>_. settled_row s (terminal_vals r' err sd (j\<lparr>j_status := status\<rparr>))) (st_jobs s)"
    and gens: "st_gens s' = upd_where (\<lambda>g. g_job g = Some k)
       (terminal_values (gen_verdict go status) err now (Some (terminal_vals r' err sd (j\<lparr>j_status := status\<rparr>))))
       (st_gens s)"
  have "j_id j = k" using j by (auto simp: find_Some_iff ownership_def)
  then have "map j_id (st_jobs s') = map j_id (st_jobs s)"
    unfolding jobs by (intro map_upd_where) (simp add: row_simps)
  moreover have "map g_id (st_gens s') = map g_id (st_gens s)"
    unfolding gens by (intro map_upd_where) (simp add: row_simps)
  ultimately show "ids_ok s'" using assms(1) by (simp add: ids_ok_def)
qed

lemma terminalize_queued_unique:
  assumes "ids_ok s" and "queued_unique s"
    and "terminalize E now s k status expect ra result err sd go = Inr (s', w)"
  shows "queued_unique s'"
proof (cases w)
  case None
  then show ?thesis using assms(2,3) by (auto elim: terminalize_cases)
next
  case (Some w')
  from terminalize_rows [OF assms(1) assms(3) [unfolded Some]] obtain j j' where
    jobs: "st_jobs s' = upd_where (\<lambda>i. j_id i = k) (\<lambda>_. j') (st_jobs s)"
    and j': "j_id j' = k" "j_status j' = status" "job_terminal status" by metis
  have "\<not> in_queued_slot j' d ty" for d ty
    using j' by (auto simp: in_queued_slot_def job_terminal_def)
  then show ?thesis
    using assms(2) in_replaced [of _ k j' "st_jobs s"] j'(1)
    unfolding queued_unique_def jobs by metis
qed

lemma terminalize_running_cases:
  assumes "terminalize_running E now mid s k status err ra = Inr (s', r)"
  obtains (direct) status' err' b where "finish_running E now s k status' err' b ra = Inr (s', r)"
  | (raced) err' where "finish_running E now (mid s) k JFailed err' True ra = Inr (s', r)"
  | (missed) "List.find (ownership k JRunning ra) (st_jobs (mid s)) = None" "s' = mid s" "r = None"
  | (requeued) j where "List.find (ownership k JRunning ra) (st_jobs (mid s)) = Some j"
      "\<not> queued_slot_taken (mid s) j" "r = Some JQueued" "status = JQueued"
      "s' = requeue_job_generations k
         (upd_jobs (ownership k JRunning ra) (\<lambda>j. requeue_vals err (j\<lparr>j_status := JQueued\<rparr>)) (mid s))"
proof -
  let ?coal = "case List.find (\<lambda>j. j_id j = k \<and> j_status j = JRunning) (st_jobs s) of
      None \<Rightarrow> None
    | Some j \<Rightarrow> (case j_device j of None \<Rightarrow> None
        | Some d \<Rightarrow> if j_type j = JTRemoval then None else Some (d, j_type j))"
  let ?succ = "case ?coal of None \<Rightarrow> None | Some (d, ty) \<Rightarrow> queued_successor_id s d ty"
  consider "status \<noteq> JQueued" | i where "status = JQueued" "?succ = Some i"
    | "status = JQueued" "?succ = None" "List.find (ownership k JRunning ra) (st_jobs (mid s)) = None"
    | j where "status = JQueued" "?succ = None" "List.find (ownership k JRunning ra) (st_jobs (mid s)) = Some j"
    by (meson option.exhaust)
  then show ?thesis
  proof cases
    case 1
    then show ?thesis using assms by (intro direct) (simp add: terminalize_running_def)
  next
    case 2
    then show ?thesis using assms by (intro direct) (simp add: terminalize_running_def Let_def)
  next
    case 3
    then show ?thesis using assms by (intro missed) (simp_all add: terminalize_running_def Let_def)
  next
    case 4
    show ?thesis
    proof (cases "queued_slot_taken (mid s) j")
      case True
      then show ?thesis using assms 4 by (intro raced) (simp add: terminalize_running_def Let_def)
    next
      case False
      then show ?thesis using assms 4 by (intro requeued) (simp_all add: terminalize_running_def Let_def)
    qed
  qed
qed

lemma finish_running_queued_unique:
  "ids_ok s \<Longrightarrow> queued_unique s \<Longrightarrow> finish_running E now s k status err superseded ra = Inr (s', r) \<Longrightarrow> queued_unique s'"
  by (auto simp: finish_running_def bindE_eq_Inr dest: terminalize_queued_unique)

lemma requeued_queued_unique:
  assumes ids: "ids_ok s" and uniq: "queued_unique s" and j: "List.find (ownership k JRunning ra) (st_jobs s) = Some j"
    and free: "\<not> queued_slot_taken s j"
  shows "queued_unique (upd_jobs (ownership k JRunning ra) (\<lambda>j. requeue_vals err (j\<lparr>j_status := JQueued\<rparr>)) s)"
proof -
  have jd: "distinct (map j_id (st_jobs s))" using ids by (simp add: ids_ok_def)
  note own = find_ownership [OF jd j]
  let ?j' = "requeue_vals err (j\<lparr>j_status := JQueued\<rparr>)"
  have j': "j_id ?j' = k" "j_device ?j' = j_device j" "j_type ?j' = j_type j" "j_coalescible ?j' = j_coalescible j"
    using ownership_id [OF own(2)] by (simp_all add: requeue_vals_def)
  have jobs: "st_jobs (upd_jobs (ownership k JRunning ra) (\<lambda>j. requeue_vals err (j\<lparr>j_status := JQueued\<rparr>)) s)
      = upd_where (\<lambda>i. j_id i = k) (\<lambda>_. ?j') (st_jobs s)"
    unfolding upd_jobs_frame by (rule upd_where_row_cong) (auto simp: own)
  have clash: "\<not> (in_queued_slot i d ty \<and> in_queued_slot ?j' d ty)" if "i \<in> set (st_jobs s)" "j_id i \<noteq> k" for i d ty
    using free that ownership_id [OF own(2)] j'
    by (auto simp: queued_slot_taken_def in_queued_slot_def table_simps)
  show ?thesis
    unfolding queued_unique_def jobs
  proof (intro ballI allI impI)
    fix a b d ty
    assume a: "a \<in> set (upd_where (\<lambda>i. j_id i = k) (\<lambda>_. ?j') (st_jobs s))"
      and b: "b \<in> set (upd_where (\<lambda>i. j_id i = k) (\<lambda>_. ?j') (st_jobs s))"
      and slots: "in_queued_slot a d ty \<and> in_queued_slot b d ty"
    from in_replaced [OF a j'(1)] in_replaced [OF b j'(1)] show "j_id a = j_id b"
      using slots clash uniq unfolding queued_unique_def by blast
  qed
qed

section \<open>Properties\<close>

definition sample_env :: env where
  "sample_env = \<lparr>e_digest = (\<lambda>_ _ _. ''d''), e_membership = (\<lambda>_ _. Some []), e_sections = [''vlan''], e_result_keys = [''vlan''],
     e_stream_key = id, e_routes = (\<lambda>_ _ _. []), e_codec_ok = (\<lambda>_. True)\<rparr>"



lemma settle_seqs_replaced:
  assumes ok: "settle_seqs_ok s" and jobs: "st_jobs s' = upd_where (\<lambda>i. j_id i = k) (\<lambda>_. j') (st_jobs s)"
    and j': "j_id j' = k" "\<not> job_live (j_status j')"
    and lasts: "\<And>d. settle_last d s \<le> settle_last d s'"
    and new: "\<And>d n. j_device j' = Some d \<Longrightarrow> j_settle_seq j' = Some n \<Longrightarrow> settle_last d s < n \<and> n \<le> settle_last d s'"
  shows "settle_seqs_ok s'"
proof -
  have row: "i = j' \<or> (i \<in> set (st_jobs s) \<and> j_id i \<noteq> k)" if "i \<in> set (st_jobs s')" for i
    using in_replaced [OF that [unfolded jobs] j'(1)] by auto
  have old: "n \<le> settle_last d s" if "i \<noteq> j'" "i \<in> set (st_jobs s')" "j_device i = Some d" "j_settle_seq i = Some n" for i d n
    using row [OF that(2)] ok that by (auto simp: settle_seqs_ok_def)
  show ?thesis
    unfolding settle_seqs_ok_def
  proof (intro conjI ballI allI impI)
    fix i assume "i \<in> set (st_jobs s')" "job_live (j_status i)"
    then show "j_settle_seq i = None" using row j' ok by (auto simp: settle_seqs_ok_def)
  next
    fix i d n assume i: "i \<in> set (st_jobs s')" and dn: "j_device i = Some d \<and> j_settle_seq i = Some n"
    then show "n \<le> settle_last d s'"
      using new [of d n] old [OF _ i] lasts [of d] by (cases "i = j'") force+
  next
    fix a b d n assume a: "a \<in> set (st_jobs s')" and b: "b \<in> set (st_jobs s')"
      and ab: "j_device a = Some d \<and> j_device b = Some d \<and> j_settle_seq a = Some n \<and> j_settle_seq b = Some n"
    show "j_id a = j_id b"
    proof (cases "a = j' \<or> b = j'")
      case True
      then show ?thesis using ab new [of d n] old [OF _ a] old [OF _ b] by fastforce
    next
      case False
      then have "a \<in> set (st_jobs s)" "b \<in> set (st_jobs s)" using row [OF a] row [OF b] by auto
      then show ?thesis using ab ok unfolding settle_seqs_ok_def by blast
    qed
  qed
qed

text \<open>
  C23. Settlement sequences order the terminal writes of a device.  A device-bound write takes a
  sequence above every sequence the device's jobs hold, and the invariant (live jobs have none,
  none is above the counter, none is shared) is kept.
\<close>

theorem settle_sequence_orders_writes:
  assumes "ids_ok s" and "settle_seqs_ok s" and "job_live expect"
    and "terminalize E now s k status expect ra result err sd go = Inr (s', Some w)"
  shows "settle_seqs_ok s' \<and>
    (\<forall>d. w_device w = Some d \<longrightarrow> (\<exists>n. w_seq w = Some n \<and>
       (\<forall>i \<in> set (st_jobs s). \<forall>m. j_device i = Some d \<and> j_settle_seq i = Some m \<longrightarrow> m < n)))"
proof (rule terminalize_rows [OF assms(1,4)])
  fix j j'
  assume j: "j \<in> set (st_jobs s)" "ownership k expect ra j" and j': "j_id j' = k" "j_status j' = status"
    and fin: "job_terminal status" and jobs: "st_jobs s' = upd_where (\<lambda>i. j_id i = k) (\<lambda>_. j') (st_jobs s)"
    and dev: "j_device j' = w_device w"
    and seq: "j_settle_seq j' = (case w_device w of None \<Rightarrow> j_settle_seq j | Some d \<Rightarrow> Some (settle_last d s + 1))"
    and wseq: "w_seq w = (case w_device w of None \<Rightarrow> None | Some d \<Rightarrow> Some (settle_last d s + 1))"
  obtain lasts: "\<And>d'. settle_last d' s' = (if w_device w = Some d' then settle_last d' s + 1 else settle_last d' s)"
    by (rule terminalize_written [OF assms(1,4)]) blast
  have "j_settle_seq j = None"
    using assms(2,3) j by (auto simp: settle_seqs_ok_def ownership_def)
  then have "settle_seqs_ok s'"
    using fin j' seq dev lasts
    by (intro settle_seqs_replaced [OF assms(2) jobs j'(1)]) (auto simp: job_live_iff split: option.splits)
  moreover have "\<forall>d. w_device w = Some d \<longrightarrow> (\<exists>n. w_seq w = Some n \<and>
       (\<forall>i \<in> set (st_jobs s). \<forall>m. j_device i = Some d \<and> j_settle_seq i = Some m \<longrightarrow> m < n))"
    using wseq assms(2) unfolding settle_seqs_ok_def by force
  ultimately show ?thesis ..
qed

theorem settle_sequence_orders_writes_witness:
  "settle_seqs_ok (fst (projr (terminalize sample_env 50 sample_store 7 JFailed JRunning (Some 2) None None None None))) \<and>
   w_seq (the (snd (projr (terminalize sample_env 50 sample_store 7 JFailed JRunning (Some 2) None None None None)))) = Some 5"
proof -
  let ?a = "terminalize sample_env 50 sample_store 7 JFailed JRunning (Some 2) None None None None"
  have pre: "ids_ok sample_store" "settle_seqs_ok sample_store" "job_live JRunning" and a: "\<not> isl ?a"
    and w: "snd (projr ?a) \<noteq> None" and n: "w_seq (the (snd (projr ?a))) = Some 5"
    by (code_simp, simp add: settle_seqs_ok_def sample_store_def sample_job_def, code_simp, code_simp, code_simp, code_simp)
  have "?a = Inr (fst (projr ?a), Some (the (snd (projr ?a))))"
    using Inr_projr [OF a] w by (metis option.collapse prod.collapse)
  from settle_sequence_orders_writes [OF pre this] n show ?thesis by simp
qed

lemma terminal_values_snapshot:
  assumes "snapshot_needed g" and "job_terminal (j_status j)"
  shows "g_car_job (terminal_values outcome err now (Some j) g) = Some (j_id j)"
    "g_car_status (terminal_values outcome err now (Some j) g) = Some (j_status j)"
    "g_car_result (terminal_values outcome err now (Some j) g) = j_result j"
    "g_car_error (terminal_values outcome err now (Some j) g) = j_error j"
  using assms by (simp_all add: terminal_values_def Let_def)

text \<open>
  C24. A landed terminal write records its own outcome on every generation the job carries: each
  takes the verdict (settled for success, the given override otherwise), and a generation that
  held no terminal evidence keeps exactly the job's terminal status, result and error as its
  durable carrier evidence.  Generations of other jobs are untouched.
\<close>

theorem terminal_write_settles_carried:
  assumes "ids_ok s" and "terminalize E now s k status expect ra result err sd go = Inr (s', Some w)"
    and "g \<in> set (st_gens s)"
  shows "\<exists>g' \<in> set (st_gens s'). gen_identity g' = gen_identity g \<and> g_job g' = g_job g \<and>
    (if g_job g = Some k
     then g_status g' = gen_verdict go status \<and>
       (snapshot_needed g \<longrightarrow> g_car_job g' = Some k \<and> g_car_status g' = Some status \<and>
          Some (g_car_result g', g_car_error g') = map_option (\<lambda>j. (j_result j, j_error j)) (job_by_id s' k))
     else g' = g)"
proof (rule terminalize_written [OF assms(1,2)])
  fix j r'
  let ?jt = "terminal_vals r' err sd (j\<lparr>j_status := status\<rparr>)"
  let ?tv = "terminal_values (gen_verdict go status) err now (Some ?jt)"
  assume j: "List.find (ownership k expect ra) (st_jobs s) = Some j"
    and jobs: "st_jobs s' = upd_where (\<lambda>i. j_id i = k) (\<lambda>_. settled_row s ?jt) (st_jobs s)"
    and gens: "st_gens s' = upd_where (\<lambda>g. g_job g = Some k) ?tv (st_gens s)"
    and fin: "job_terminal status"
  have own: "j_id j = k" "job_by_id s k = Some j"
    using j assms(1) by (auto simp: ids_ok_def dest: find_ownership ownership_id)
  have row: "job_by_id s' k = Some (settled_row s ?jt)"
    unfolding jobs by (rule row_by_replaced [OF own(2)]) (simp add: row_simps own)
  show ?thesis
  proof (cases "g_job g = Some k")
    case True
    then have "?tv g \<in> set (st_gens s')" using assms(3) by (auto simp: gens table_simps)
    then show ?thesis
      using row own fin True
      by (intro bexI [of _ "?tv g"])
        (simp_all add: terminal_ident.key_kept row_simps terminal_values_snapshot)
  next
    case False
    then have "g \<in> set (st_gens s')" using assms(3) by (force simp: gens table_simps)
    then show ?thesis using False by auto
  qed
qed

theorem terminal_write_settles_carried_witness:
  "\<exists>g' \<in> set (st_gens (fst (projr (terminalize sample_env 50 sample_store 7 JSucceeded JRunning (Some 2)
      None None None None)))). g_id g' = 11 \<and> g_status g' = GSettled \<and> g_car_status g' = Some JSucceeded"
proof -
  let ?a = "terminalize sample_env 50 sample_store 7 JSucceeded JRunning (Some 2) None None None None"
  let ?g = "sample_gen 11 1 2 GRunning (Some 7) [(''vlan'', 6), (''ntp'', 4)] (Some 5)"
  have ids: "ids_ok sample_store" and a: "\<not> isl ?a" and w: "snd (projr ?a) \<noteq> None"
    and g: "?g \<in> set (st_gens sample_store)" "g_job ?g = Some 7" "g_id ?g = 11" "snapshot_needed ?g" by code_simp+
  have "?a = Inr (fst (projr ?a), Some (the (snd (projr ?a))))"
    using Inr_projr [OF a] w by (metis option.collapse prod.collapse)
  from terminal_write_settles_carried [OF ids this g(1)] show ?thesis
    using g(2-4) by (auto simp: gen_verdict_def gen_identity_def)
qed



end
