(* ===== verification/Execution_Attempts.thy ===== *)
theory Execution_Attempts
  imports Terminal_Writer
begin

text \<open>
  Execution attempts (\<open>store/execution_attempt_store.py\<close> and the transactions of
  \<open>core/execution.py\<close> over them): freezing the authorities and the membership before a send,
  checkpointing classified responses, staging one outcome per logical row, and disposing of an
  attempt in one terminal transaction.

  Restoring and stamping the apply bookkeeping of intent rows touches tables outside this store;
  of that step the development keeps the completeness check that guards it.  Stored origins and
  memberships are the decoded values.
\<close>

section \<open>Ownership\<close>

definition device_claim_of :: "store \<Rightarrow> int \<Rightarrow> claim option" where
  "device_claim_of s k = Option.bind (Option.bind (job_by_id s k) j_device) (\<lambda>d. row_by c_device d (st_claims s))"

definition claim_mismatch :: "int \<Rightarrow> string option \<Rightarrow> claim option \<Rightarrow> bool" where
  "claim_mismatch k tok cl = (case tok of
       None \<Rightarrow> cl \<noteq> None
     | Some t \<Rightarrow> (case cl of None \<Rightarrow> True | Some c \<Rightarrow> c_token c \<noteq> t \<or> c_job c \<noteq> Some k))"

definition lock_run ::
  "store \<Rightarrow> int \<Rightarrow> int \<Rightarrow> string option \<Rightarrow> int \<Rightarrow> exn + job \<times> generation list" where
  "lock_run s k ra tok gid =
     (let gens = job_generations s k in
      case List.find (ownership k JRunning (Some ra)) (st_jobs s) of
        None \<Rightarrow> Inl AttemptOwnershipLost
      | Some j \<Rightarrow>
          if claim_mismatch k tok (device_claim_of s k) \<or> gens = [] \<or> g_id (last gens) \<noteq> gid \<or>
             list_ex (\<lambda>g. Some (g_device g) \<noteq> j_device j) gens \<or> \<not> device_writing (j_type j)
          then Inl AttemptOwnershipLost
          else Inr (j, gens))"

section \<open>The operation plane of a document\<close>

definition section_execution :: "jdict \<Rightarrow> string \<Rightarrow> exn + jdict" where
  "section_execution doc sec = (case dget doc sec of
       Some (JObj body) \<Rightarrow> (case dget body ''_execution'' of Some (JObj ex) \<Rightarrow> Inr ex
         | _ \<Rightarrow> Inl (ValueError ''document section has no execution metadata''))
     | _ \<Rightarrow> Inl (ValueError ''document section has no execution metadata''))"

definition section_operation :: "jdict \<Rightarrow> string \<Rightarrow> exn + jdict" where
  "section_operation doc sec = bindE (section_execution doc sec) (\<lambda>ex.
     case dget ex ''operation'' of None \<Rightarrow> Inr [] | Some JNull \<Rightarrow> Inr [] | Some (JObj opn) \<Rightarrow> Inr opn
     | Some _ \<Rightarrow> Inl (ValueError ''document section has an invalid operation plane''))"

definition operation_ids :: "jdict \<Rightarrow> json list" where
  "operation_ids opn = (case dget opn ''tombstone_ids'' of Some (JList xs) \<Rightarrow> xs | _ \<Rightarrow> [])"

fun document_tombstones :: "string list \<Rightarrow> jdict \<Rightarrow> string list \<Rightarrow> exn + json list" where
  "document_tombstones sections doc [] = Inr []"
| "document_tombstones sections doc (sec # secs) =
     (if sec \<notin> set sections then document_tombstones sections doc secs
      else bindE (section_operation doc sec) (\<lambda>opn.
           bindE (document_tombstones sections doc secs) (\<lambda>rest. Inr (operation_ids opn @ rest))))"

definition concrete_id :: "json \<Rightarrow> int option" where
  "concrete_id j = (case j of JInt i \<Rightarrow> if i > 0 then Some i else None | _ \<Rightarrow> None)"

section \<open>Preparation\<close>

definition removal_tombstone_ids :: "env \<Rightarrow> job \<Rightarrow> generation \<Rightarrow> exn + int list" where
  "removal_tombstone_ids E j g =
     (if j_type j \<noteq> JTRemoval then Inr []
      else bindE (document_tombstones (e_sections E) (g_document g) (map fst (g_document g))) (\<lambda>ids.
        if list_ex (\<lambda>i. concrete_id i = None) ids
        then Inl (ValueError ''Removal authority requires concrete tombstone identities'')
        else Inr (sort (remdups (map (\<lambda>i. the (concrete_id i)) ids)))))"

definition tombstones_owned :: "store \<Rightarrow> int \<Rightarrow> int option \<Rightarrow> int list \<Rightarrow> bool" where
  "tombstones_owned s k dev ids = list_all (\<lambda>i. exists_where
     (\<lambda>t. t_id t = i \<and> Some (t_device t) = dev \<and> t_job t = Some k) (st_tombs s)) ids"

definition merged_revisions :: "generation list \<Rightarrow> (string \<times> int) list" where
  "merged_revisions gens = foldl (\<lambda>d g. dmerge d (g_revisions g)) [] gens"

definition prepare_execution_attempt ::
  "env \<Rightarrow> store \<Rightarrow> int \<Rightarrow> int \<Rightarrow> string \<Rightarrow> int \<Rightarrow> origin_index \<Rightarrow> logical_row list \<Rightarrow> exn + store \<times> attempt" where
  "prepare_execution_attempt E s k ra tok gid origins logicals =
     bindE (lock_run s k ra (Some tok) gid) (\<lambda>(j, gens).
     bindE (validate_logical_membership gens logicals) (\<lambda>_.
     bindE (removal_tombstone_ids E j (last gens)) (\<lambda>ids.
       if ids \<noteq> [] \<and> \<not> tombstones_owned s k (j_device j) ids then Inl AttemptOwnershipLost
       else if ra \<le> 0 \<or> exists_where (\<lambda>a. a_run_attempt a = ra \<and> (a_job a = Some k \<or> a_job_corr a = k)) (st_attempts s)
       then Inl (IntegrityViolation ''uq_execution_attempt_job_run'')
       else
         let g = last gens;
             a = \<lparr>a_id = st_next_attempt s, a_device = g_device g, a_gen = g_id g, a_job = Some k, a_job_corr = k,
                  a_run_attempt = ra, a_operation = j_type j, a_digest = g_digest g, a_token = tok,
                  a_revisions = merged_revisions gens, a_authorities = generation_authorities gens,
                  a_manual = g_apply_attempt g, a_tombstones = ids, a_membership = logicals,
                  a_carriers = first_occurrences (map l_carrier logicals), a_origins = origins,
                  a_phase = PhPrepared, a_response_phase = None, a_classification = [], a_delivery = None,
                  a_commit_ack = False\<rparr>
         in Inr (s\<lparr>st_attempts := st_attempts s @ [a], st_next_attempt := st_next_attempt s + 1\<rparr>, a))))"

section \<open>Response checkpoints\<close>

definition upd_attempt :: "int \<Rightarrow> (attempt \<Rightarrow> attempt) \<Rightarrow> store \<Rightarrow> store" where
  "upd_attempt i f s = s\<lparr>st_attempts := upd_where (\<lambda>a. a_id a = i) f (st_attempts s)\<rparr>"

definition owned_attempt :: "store \<Rightarrow> int \<Rightarrow> int \<Rightarrow> int \<Rightarrow> string \<Rightarrow> exn + attempt" where
  "owned_attempt s i k ra tok = (case row_by a_id i (st_attempts s) of
       None \<Rightarrow> Inl AttemptOwnershipLost
     | Some a \<Rightarrow> bindE (lock_run s k ra (Some tok) (a_gen a)) (\<lambda>(j, gens).
         if a_job a \<noteq> Some (j_id j) \<or> a_run_attempt a \<noteq> ra \<or> a_token a \<noteq> tok \<or> a_digest a \<noteq> g_digest (last gens) \<or>
            a_authorities a \<noteq> generation_authorities gens \<or> a_phase a = PhTerminal
         then Inl AttemptOwnershipLost
         else Inr a))"

datatype classification = Definite "refusal list" | Fault | Unavail | Ordinary

definition checkpoint_of ::
  "env \<Rightarrow> classification option \<Rightarrow> sender_phase \<Rightarrow> bool \<Rightarrow> exn + checkpoint" where
  "checkpoint_of E cls ph acked = (case cls of
       Some (Definite rs) \<Rightarrow>
         if rs = [] then Inl (ValueError ''A refusal checkpoint requires codec catalog records'')
         else if list_ex (\<lambda>r. \<not> e_codec_ok E r) rs
         then Inl (ValueError ''Refusal evidence must use the codec catalog'')
         else Inr (CkRefused rs)
     | Some Fault \<Rightarrow> Inr CkProtocolFault
     | Some Unavail \<Rightarrow> Inr CkUnavailable
     | Some Ordinary \<Rightarrow> Inr CkRejected
     | None \<Rightarrow> if ph = RpPostCommitVerification then Inr CkVerified
         else if ph = RpCommit \<and> acked then Inr CkAcknowledged
         else Inl (ValueError ''A response checkpoint requires safe classification''))"

definition record_classified_response ::
  "env \<Rightarrow> store \<Rightarrow> int \<Rightarrow> int \<Rightarrow> int \<Rightarrow> string \<Rightarrow> classification option \<Rightarrow> sender_phase \<Rightarrow> bool \<Rightarrow> exn + store" where
  "record_classified_response E s i k ra tok cls ph acked =
     bindE (owned_attempt s i k ra tok) (\<lambda>a.
     bindE (checkpoint_of E cls ph acked) (\<lambda>ck.
       if dhas (a_classification a) ph then Inl (ValueError ''A recorded response checkpoint is immutable'')
       else if acked \<and> ck \<noteq> CkAcknowledged
       then Inl (ValueError ''Commit acknowledgement requires a successful commit response'')
       else if ph = RpPostCommitVerification \<and> \<not> a_commit_ack a
       then Inl (ValueError ''Verification requires a recorded commit acknowledgement'')
       else Inr (upd_attempt i (\<lambda>a. a\<lparr>a_classification := dset (a_classification a) ph ck,
              a_response_phase := Some ph, a_commit_ack := (a_commit_ack a \<or> acked), a_phase := PhResponseRecorded\<rparr>) s)))"

section \<open>Outcomes\<close>

definition refusal_site_owned :: "attempt \<Rightarrow> logical_row \<Rightarrow> refusal \<Rightarrow> bool" where
  "refusal_site_owned a l r =
     list_ex (\<lambda>(key, b). key = refusal_key r \<and> l \<in> set (b_logicals b)) (x_bindings (a_origins a))"

definition stage_outcome ::
  "env \<Rightarrow> attempt \<Rightarrow> store \<Rightarrow> logical_row \<Rightarrow> disposition \<Rightarrow> refusal list \<Rightarrow> exn + store" where
  "stage_outcome E a s l d refs =
     (if l \<notin> set (a_membership a) then Inl (ValueError ''Row outcome is outside attempted logical membership'')
      else if list_ex (\<lambda>r. \<not> e_codec_ok E r) refs
      then Inl (ValueError ''Refusal evidence must use the codec catalog'')
      else if list_ex (\<lambda>r. \<not> refusal_site_owned a l r) refs
      then Inl (ValueError ''Refusal site does not belong to this logical outcome'')
      else if exists_where (\<lambda>q. q_attempt q = a_id a \<and> logical_identity (q_logical q) = logical_identity l) (st_outcomes s)
      then Inl (IntegrityViolation ''uq_row_outcome_logical_identity'')
      else if (d = DRefused) \<noteq> (refs \<noteq> []) then Inl (IntegrityViolation ''ck_row_outcome_refusals'')
      else Inr (s\<lparr>st_outcomes := st_outcomes s @ [\<lparr>q_attempt = a_id a, q_logical = l, q_disposition = d, q_refusals = refs\<rparr>]\<rparr>))"

definition attempt_outcomes :: "store \<Rightarrow> int \<Rightarrow> row_outcome list" where
  "attempt_outcomes s i = filter (\<lambda>q. q_attempt q = i) (st_outcomes s)"

text \<open>\<open>_restore_attempt_bookkeeping\<close> refuses an incomplete outcome set before it restores anything.\<close>

definition outcomes_complete :: "store \<Rightarrow> attempt \<Rightarrow> bool" where
  "outcomes_complete s a = (set (map (logical_identity \<circ> q_logical) (attempt_outcomes s (a_id a))) =
     set (map logical_identity (a_membership a)))"

definition stage_all ::
  "env \<Rightarrow> attempt \<Rightarrow> (logical_row \<Rightarrow> disposition \<times> refusal list) \<Rightarrow> store \<Rightarrow> exn + store" where
  "stage_all E a f s = foldE (\<lambda>s l. case f l of (d, refs) \<Rightarrow> stage_outcome E a s l d refs) s (a_membership a)"

definition staged_outcomes ::
  "attempt \<Rightarrow> (logical_row \<Rightarrow> disposition \<times> refusal list) \<Rightarrow> outcome list" where
  "staged_outcomes a f = map (\<lambda>l. (l, f l)) (a_membership a)"

section \<open>Disposition\<close>

datatype exit_reason = XCancelled | XTimeout | XRunnerFailed | XRemovalFailed | XDisposed | XOrphaned | XClaimExpired

definition reason_text :: "exit_reason \<Rightarrow> string" where
  "reason_text x = (case x of XCancelled \<Rightarrow> ''cancelled'' | XTimeout \<Rightarrow> ''timeout'' | XRunnerFailed \<Rightarrow> ''runner_failed''
     | XRemovalFailed \<Rightarrow> ''removal_failed'' | XDisposed \<Rightarrow> ''disposed'' | XOrphaned \<Rightarrow> ''orphaned''
     | XClaimExpired \<Rightarrow> ''claim_expired'')"

definition exit_message :: "exit_reason \<Rightarrow> string" where
  "exit_message x = (case x of XCancelled \<Rightarrow> ''Execution cancelled'' | XTimeout \<Rightarrow> ''Execution budget expired''
     | XRunnerFailed \<Rightarrow> ''Execution runner failed'' | XRemovalFailed \<Rightarrow> ''Removal runner failed''
     | XDisposed \<Rightarrow> ''Execution ownership disposed'' | XOrphaned \<Rightarrow> ''Execution interrupted by restart''
     | XClaimExpired \<Rightarrow> ''Execution claim expired'')"

datatype evidence_kind = KAttributionFailed | KRefused | KPostCommitUnavailable | KRejected | KUnavailable

definition kind_text :: "evidence_kind \<Rightarrow> string" where
  "kind_text k = (case k of KAttributionFailed \<Rightarrow> ''attribution_failed'' | KRefused \<Rightarrow> ''refused''
     | KPostCommitUnavailable \<Rightarrow> ''post_commit_unavailable'' | KRejected \<Rightarrow> ''rejected'' | KUnavailable \<Rightarrow> ''unavailable'')"

text \<open>The causes of a logical row: the refusals attributed to a row with its public record.\<close>

definition causes_of :: "attributed list \<Rightarrow> logical_row \<Rightarrow> refusal list" where
  "causes_of sites l = concat (map (\<lambda>(r, _, ls).
     concat (map (\<lambda>m. if logical_public m = logical_public l then [r] else []) ls)) sites)"

definition phase_text :: "sender_phase \<Rightarrow> string" where
  "phase_text ph = (case ph of RpPreCommitDryRun \<Rightarrow> ''pre_commit_dry_run'' | RpCommit \<Rightarrow> ''commit''
     | RpPostCommitVerification \<Rightarrow> ''post_commit_verification'')"

definition attributed_records :: "origin_index \<Rightarrow> sender_phase \<Rightarrow> attributed list \<Rightarrow> json list" where
  "attributed_records ix ph sites = map (\<lambda>(r, _, ls). case refusal_record r of
       JObj fs \<Rightarrow> JObj (fs @ [(''logical_rows'', JList (map (\<lambda>l. JObj (logical_public l)) ls)),
         (''provenance'', case dget (x_bindings ix) (refusal_key r) of None \<Rightarrow> JNull | Some b \<Rightarrow> j_of_provenance (b_provenance b)),
         (''sender_phase'', JStr (phase_text ph))])
     | j \<Rightarrow> j) sites"

definition disposition_evidence :: "attempt \<Rightarrow> evidence_kind \<times> attributed list \<times> json list" where
  "disposition_evidence a =
     (let ph = (if dhas (a_classification a) RpCommit then RpCommit else RpPreCommitDryRun) in
      case (a_commit_ack a, dget (a_classification a) ph) of
        (False, Some (CkRefused rs)) \<Rightarrow>
          (case resolve_refusals rs (a_origins a) of
             Inl _ \<Rightarrow> (KAttributionFailed, [], [])
           | Inr sites \<Rightarrow> (KRefused, sites, attributed_records (a_origins a) ph sites))
      | (True, _) \<Rightarrow>
          (case dget (a_classification a) RpPostCommitVerification of
             Some (CkRefused rs) \<Rightarrow>
               (case resolve_refusals rs (a_origins a) of
                  Inl _ \<Rightarrow> (KAttributionFailed, [], [])
                | Inr sites \<Rightarrow> (KPostCommitUnavailable, [], attributed_records (a_origins a) RpPostCommitVerification sites))
           | _ \<Rightarrow> (KPostCommitUnavailable, [], []))
      | (False, Some CkRejected) \<Rightarrow> (KRejected, [], [])
      | (False, _) \<Rightarrow> (KUnavailable, [], []))"

definition conclusive :: "evidence_kind \<Rightarrow> bool" where
  "conclusive k = (k = KRefused \<or> k = KRejected)"

definition row_verdict :: "evidence_kind \<Rightarrow> attributed list \<Rightarrow> logical_row \<Rightarrow> disposition \<times> refusal list" where
  "row_verdict k sites l =
     (let causes = causes_of sites l in
      (if causes \<noteq> [] then DRefused else if conclusive k then DNotApplied else DUnavailable, causes))"

definition disposal_error :: "evidence_kind \<Rightarrow> exit_reason \<Rightarrow> jdict option \<Rightarrow> jdict" where
  "disposal_error k reason terr =
     (if k = KAttributionFailed
      then [(''code'', JStr ''attribution_failed''), (''message'', JStr ''Refusal attribution failed''), (''detail'', JObj [])]
      else case terr of Some (e # es) \<Rightarrow> e # es
      | _ \<Rightarrow> [(''code'', JStr (kind_text k)), (''message'', JStr (exit_message reason)), (''detail'', JObj [])])"

datatype disposal = NoAttempt | AlreadyTerminal | Settled

definition note_delivery :: "evidence_kind \<Rightarrow> exit_reason \<Rightarrow> attempt \<Rightarrow> attempt" where
  "note_delivery k reason a =
     (if (k = KUnavailable \<or> k = KAttributionFailed) \<and> a_delivery a = None
      then a\<lparr>a_delivery := Some (reason_text reason), a_phase := PhResponseRecorded\<rparr> else a)"

definition settle_attempt ::
  "env \<Rightarrow> int \<Rightarrow> store \<Rightarrow> int \<Rightarrow> int \<Rightarrow> generation list \<Rightarrow> attempt \<Rightarrow> exit_reason \<Rightarrow> jdict option \<Rightarrow> exn + store \<times> disposal" where
  "settle_attempt E now s k ra gens a reason terr =
     (case disposition_evidence a of (kind, sites, records) \<Rightarrow>
        let verdict = row_verdict kind sites;
            outs = staged_outcomes a verdict;
            err = disposal_error kind reason terr
        in bindE (stage_all E a verdict (upd_attempt (a_id a) (note_delivery kind reason) s)) (\<lambda>s1.
           if \<not> outcomes_complete s1 a
           then Inl (ValueError ''Restoration requires the complete staged logical outcome set'')
           else bindE (outcome_result E (a_carriers a) outs records (a_commit_ack a)) (\<lambda>result.
                bindE (terminalize E now s1 k JFailed JRunning (Some ra)
                         (Some (with_routes (e_routes E (last gens) outs (Some err)) result)) (Some err) None
                         (Some (if conclusive kind then GFailed else GOutcomeUnknown))) (\<lambda>(s2, w).
                case w of None \<Rightarrow> Inl AttemptOwnershipLost
                | Some _ \<Rightarrow> Inr (upd_attempt (a_id a) (\<lambda>a. a\<lparr>a_phase := PhTerminal\<rparr>) s2, Settled)))))"

definition dispose_execution_attempt ::
  "env \<Rightarrow> int \<Rightarrow> store \<Rightarrow> int \<Rightarrow> int \<Rightarrow> string option \<Rightarrow> exit_reason \<Rightarrow> jdict option \<Rightarrow> exn + store \<times> disposal" where
  "dispose_execution_attempt E now s k ra tok reason terr =
     (case List.find (\<lambda>a. a_job_corr a = k \<and> a_run_attempt a = ra) (st_attempts s) of
        None \<Rightarrow> Inr (s, NoAttempt)
      | Some a \<Rightarrow>
          if a_phase a = PhTerminal then Inr (s, AlreadyTerminal)
          else bindE (lock_run s k ra tok (a_gen a)) (\<lambda>(j, gens).
            if a_job a \<noteq> Some k \<or> (case tok of None \<Rightarrow> False | Some t \<Rightarrow> a_token a \<noteq> t) \<or>
               a_digest a \<noteq> g_digest (last gens) \<or> a_authorities a \<noteq> generation_authorities gens
            then Inl AttemptOwnershipLost
            else settle_attempt E now s k ra gens a reason terr))"

definition complete_execution_result ::
  "env \<Rightarrow> store \<Rightarrow> int \<Rightarrow> int \<Rightarrow> string \<Rightarrow> ((string \<times> row_ref \<times> int option) \<times> disposition) list \<Rightarrow> exn + store \<times> jdict" where
  "complete_execution_result E s k ra tok dispositions =
     (case List.find (\<lambda>a. a_job a = Some k \<and> a_run_attempt a = ra) (st_attempts s) of
        None \<Rightarrow> Inl (ValueError ''Terminal execution requires its prepared attempt'')
      | Some a0 \<Rightarrow> bindE (owned_attempt s (a_id a0) k ra tok) (\<lambda>a.
          let verdict = (\<lambda>l. (case dget dispositions (logical_identity l) of None \<Rightarrow> DUnavailable | Some d \<Rightarrow> d, []))
          in if list_ex (\<lambda>l. fst (verdict l) = DRefused) (a_membership a)
             then Inl (ValueError ''Completion requires a certified logical disposition'')
             else bindE (stage_all E a verdict s) (\<lambda>s1.
               if \<not> outcomes_complete s1 a
               then Inl (ValueError ''Restoration requires the complete staged logical outcome set'')
               else bindE (outcome_result E (a_carriers a) (staged_outcomes a verdict) [] (a_commit_ack a)) (\<lambda>result.
                 Inr (upd_attempt (a_id a) (\<lambda>a. a\<lparr>a_phase := PhTerminal\<rparr>) s1, result)))))"

section \<open>Transactions over attempts\<close>

text \<open>\<open>bound\<close> are the origins after \<open>bind_historical_origins\<close>, which reads certified history.\<close>

definition prepare_send ::
  "env \<Rightarrow> store \<Rightarrow> generation \<Rightarrow> origin_index \<Rightarrow> logical_row list \<Rightarrow> registration \<Rightarrow> exn + store \<times> attempt" where
  "prepare_send E s g bound logicals reg =
     (if \<not> registered reg then Inl (RuntimeError ''Execution requires a REGISTERED claim'')
      else case (g_job g, r_attempt reg, r_token reg) of
        (Some k, Some ra, Some tok) \<Rightarrow>
          bindE (lock_claim reg s) (\<lambda>_.
            case prepare_execution_attempt E s k ra tok (g_id g) bound logicals of
              Inl AttemptOwnershipLost \<Rightarrow> Inl ClaimLost
            | r \<Rightarrow> r)
      | (None, _, _) \<Rightarrow> Inl (ValueError ''Execution requires its job correlation'')
      | _ \<Rightarrow> Inl ClaimLost)"

definition dispose_run ::
  "env \<Rightarrow> int \<Rightarrow> store \<Rightarrow> int \<Rightarrow> registration option \<Rightarrow> exit_reason \<Rightarrow> jdict option \<Rightarrow> exn + store \<times> bool" where
  "dispose_run E now s k reg reason terr =
     bindE (case reg of None \<Rightarrow> Inr () | Some r \<Rightarrow> lock_claim r s) (\<lambda>_.
       let ra = (case reg of None \<Rightarrow> map_option j_run_attempt (job_by_id s k) | Some r \<Rightarrow> r_attempt r);
           tok = (case reg of None \<Rightarrow> None | Some r \<Rightarrow> r_token r)
       in case ra of None \<Rightarrow> Inr (s, False)
          | Some n \<Rightarrow> (case dispose_execution_attempt E now s k n tok reason terr of
                Inl AttemptOwnershipLost \<Rightarrow> Inl ClaimLost
              | Inl e \<Rightarrow> Inl e
              | Inr (s1, d) \<Rightarrow> Inr (s1, d \<noteq> NoAttempt)))"

definition settle_unsent ::
  "env \<Rightarrow> int \<Rightarrow> store \<Rightarrow> int \<Rightarrow> int \<Rightarrow> string \<Rightarrow> int \<Rightarrow> origin_index \<Rightarrow> logical_row list \<Rightarrow> registration \<Rightarrow> jdict \<Rightarrow> exn + store" where
  "settle_unsent E now s k ra tok gid origins logicals reg err =
     bindE (lock_claim reg s) (\<lambda>_.
     bindE (prepare_execution_attempt E s k ra tok gid origins logicals) (\<lambda>(s1, a).
     bindE (record_classified_response E s1 (a_id a) k ra tok (Some Ordinary) RpPreCommitDryRun False) (\<lambda>s2.
     bindE (dispose_execution_attempt E now s2 k ra (Some tok) XDisposed (Some err)) (\<lambda>(s3, _). Inr s3))))"

section \<open>Effects\<close>

lemma upd_attempt_frame [simp]:
  "st_devices (upd_attempt i f s) = st_devices s" "st_jobs (upd_attempt i f s) = st_jobs s"
  "st_claims (upd_attempt i f s) = st_claims s" "st_settle (upd_attempt i f s) = st_settle s"
  "st_gencnt (upd_attempt i f s) = st_gencnt s" "st_streams (upd_attempt i f s) = st_streams s"
  "st_gens (upd_attempt i f s) = st_gens s" "st_tombs (upd_attempt i f s) = st_tombs s"
  "st_outcomes (upd_attempt i f s) = st_outcomes s" "st_next_job (upd_attempt i f s) = st_next_job s"
  "st_attempts (upd_attempt i f s) = upd_where (\<lambda>a. a_id a = i) f (st_attempts s)"
  by (simp_all add: upd_attempt_def)

lemma stage_outcome_Inr:
  "stage_outcome E a s l d refs = Inr s' \<Longrightarrow>
   s' = s\<lparr>st_outcomes := st_outcomes s @ [\<lparr>q_attempt = a_id a, q_logical = l, q_disposition = d, q_refusals = refs\<rparr>]\<rparr>"
  by (auto simp: stage_outcome_def split: if_splits)

lemma stage_fold_Inr:
  "foldE (\<lambda>s l. case f l of (d, refs) \<Rightarrow> stage_outcome E a s l d refs) s ls = Inr s' \<Longrightarrow>
   s' = s\<lparr>st_outcomes := st_outcomes s @ map (\<lambda>l. \<lparr>q_attempt = a_id a, q_logical = l,
      q_disposition = fst (f l), q_refusals = snd (f l)\<rparr>) ls\<rparr>"
proof (induction ls arbitrary: s)
  case (Cons l ls)
  then obtain s1 where "stage_outcome E a s l (fst (f l)) (snd (f l)) = Inr s1"
    and "foldE (\<lambda>s l. case f l of (d, refs) \<Rightarrow> stage_outcome E a s l d refs) s1 ls = Inr s'"
    by (auto simp: bindE_eq_Inr split: prod.splits)
  then show ?case using Cons.IH [of s1] stage_outcome_Inr by fastforce
qed simp

lemma stage_all_Inr:
  "stage_all E a f s = Inr s' \<Longrightarrow>
   s' = s\<lparr>st_outcomes := st_outcomes s @ map (\<lambda>l. \<lparr>q_attempt = a_id a, q_logical = l,
      q_disposition = fst (f l), q_refusals = snd (f l)\<rparr>) (a_membership a)\<rparr>"
  unfolding stage_all_def by (rule stage_fold_Inr)

lemma settle_attempt_effect:
  assumes "settle_attempt E now s k ra gens a reason terr = Inr (s', d)"
  obtains kind sites records s1 s2 result w where
    "disposition_evidence a = (kind, sites, records)" "d = Settled"
    "s1 = (upd_attempt (a_id a) (note_delivery kind reason) s)\<lparr>st_outcomes := st_outcomes s @
       map (\<lambda>l. \<lparr>q_attempt = a_id a, q_logical = l, q_disposition = fst (row_verdict kind sites l),
          q_refusals = snd (row_verdict kind sites l)\<rparr>) (a_membership a)\<rparr>"
    "terminalize E now s1 k JFailed JRunning (Some ra) (Some result) (Some (disposal_error kind reason terr)) None
       (Some (if conclusive kind then GFailed else GOutcomeUnknown)) = Inr (s2, Some w)"
    "s' = upd_attempt (a_id a) (\<lambda>a. a\<lparr>a_phase := PhTerminal\<rparr>) s2"
proof -
  obtain kind sites records where ev: "disposition_evidence a = (kind, sites, records)" by (metis prod_cases3)
  from assms ev obtain s1 result s2 w where
    st: "stage_all E a (row_verdict kind sites) (upd_attempt (a_id a) (note_delivery kind reason) s) = Inr s1"
    and run: "terminalize E now s1 k JFailed JRunning (Some ra) (Some result) (Some (disposal_error kind reason terr)) None
       (Some (if conclusive kind then GFailed else GOutcomeUnknown)) = Inr (s2, Some w)"
    and res: "d = Settled" "s' = upd_attempt (a_id a) (\<lambda>a. a\<lparr>a_phase := PhTerminal\<rparr>) s2"
    by (auto simp: settle_attempt_def Let_def bindE_eq_Inr split: if_splits option.splits)
  show thesis
    using that [OF ev res(1) _ run res(2)] stage_all_Inr [OF st] by simp
qed

lemma dispose_cases:
  assumes "dispose_execution_attempt E now s k ra tok reason terr = Inr (s', d)"
  obtains (none) "s' = s" "d = NoAttempt"
      "List.find (\<lambda>a. a_job_corr a = k \<and> a_run_attempt a = ra) (st_attempts s) = None"
  | (terminal) a where "s' = s" "d = AlreadyTerminal" "a_phase a = PhTerminal"
      "List.find (\<lambda>a. a_job_corr a = k \<and> a_run_attempt a = ra) (st_attempts s) = Some a"
  | (settled) a j gens where "List.find (\<lambda>a. a_job_corr a = k \<and> a_run_attempt a = ra) (st_attempts s) = Some a"
      "a_phase a \<noteq> PhTerminal" "lock_run s k ra tok (a_gen a) = Inr (j, gens)"
      "settle_attempt E now s k ra gens a reason terr = Inr (s', d)"
  using assms
  by (auto simp: dispose_execution_attempt_def bindE_eq_Inr split: option.splits if_splits)

lemma lock_run_Inr:
  assumes "lock_run s k ra tok gid = Inr (j, gens)"
  shows "List.find (ownership k JRunning (Some ra)) (st_jobs s) = Some j" "gens = job_generations s k"
    "\<not> claim_mismatch k tok (device_claim_of s k)" "gens \<noteq> []" "device_writing (j_type j)" "g_id (last gens) = gid"
  using assms by (auto simp: lock_run_def Let_def split: option.splits if_splits)

lemma lock_run_stale:
  "claim_mismatch k tok (device_claim_of s k) \<Longrightarrow> lock_run s k ra tok gid = Inl AttemptOwnershipLost"
  by (auto simp: lock_run_def Let_def split: option.splits)

lemma terminalize_attempts:
  assumes "terminalize E now s k status expect ra result err sd go = Inr (s', w)" and "ids_ok s"
  shows "st_attempts s' = st_attempts s" "st_outcomes s' = st_outcomes s" "st_claims s' = st_claims s"
    "st_devices s' = st_devices s" "st_tombs s' = st_tombs s" "st_gencnt s' = st_gencnt s"
    "st_next_job s' = st_next_job s" "st_next_gen s' = st_next_gen s"
proof -
  have "st_attempts s' = st_attempts s \<and> st_outcomes s' = st_outcomes s \<and> st_claims s' = st_claims s \<and>
      st_devices s' = st_devices s \<and> st_tombs s' = st_tombs s \<and> st_gencnt s' = st_gencnt s \<and>
      st_next_job s' = st_next_job s \<and> st_next_gen s' = st_next_gen s"
  proof (cases w)
    case None
    then show ?thesis using assms(1) by (auto elim: terminalize_cases)
  next
    case (Some w')
    obtain f: "s' = s\<lparr>st_jobs := st_jobs s', st_gens := st_gens s', st_streams := st_streams s', st_settle := st_settle s'\<rparr>"
      by (rule terminalize_written [OF assms(2) assms(1) [unfolded Some]]) blast
    show ?thesis by (subst (1 2 3 4 5 6 7 8) f) simp
  qed
  then show "st_attempts s' = st_attempts s" "st_outcomes s' = st_outcomes s" "st_claims s' = st_claims s"
    "st_devices s' = st_devices s" "st_tombs s' = st_tombs s" "st_gencnt s' = st_gencnt s"
    "st_next_job s' = st_next_job s" "st_next_gen s' = st_next_gen s" by blast+
qed

lemma find_upd_where:
  assumes "List.find p t = Some r" and "\<And>r. p (f r) = p r"
  shows "List.find p (upd_where q f t) = Some (if q r then f r else r)"
  using assms(1) by (induction t) (auto simp: assms(2) split: if_splits)

lemma terminalize_job_status:
  assumes "ids_ok s" and "terminalize E now s k status expect ra result err sd go = Inr (s', Some w)"
  shows "map_option j_status (job_by_id s' k) = Some status"
proof (rule terminalize_rows [OF assms])
  fix j j' assume j: "j \<in> set (st_jobs s)" "ownership k expect ra j" and j': "j_id j' = k" "j_status j' = status"
    and jobs: "st_jobs s' = upd_where (\<lambda>i. j_id i = k) (\<lambda>_. j') (st_jobs s)"
  have "row_by j_id k (st_jobs s) = Some j"
    using assms(1) j ownership_id [OF j(2)] by (simp add: ids_ok_def row_by_eq_Some_iff)
  from row_by_replaced [OF this j'(1)] show "map_option j_status (job_by_id s' k) = Some status"
    unfolding jobs using j' by simp
qed

lemma terminalize_gen_status:
  assumes "ids_ok s" and "terminalize E now s k status expect ra result err sd go = Inr (s', Some w)"
    and "g \<in> set (st_gens s')" and "g_job g = Some k"
  shows "g_status g = gen_verdict go status"
  by (rule terminalize_written [OF assms(1,2)])
    (use assms(3,4) in \<open>auto simp: row_simps elim!: in_upd_whereE split: if_splits\<close>)

definition run_attempt_of :: "store \<Rightarrow> int \<Rightarrow> int \<Rightarrow> attempt option" where
  "run_attempt_of s k ra = List.find (\<lambda>a. a_job_corr a = k \<and> a_run_attempt a = ra) (st_attempts s)"

lemma settle_attempt_outcome:
  assumes ids: "ids_ok s" and a: "run_attempt_of s k ra = Some a"
    and run: "settle_attempt E now s k ra gens a reason terr = Inr (s', d)"
  shows "map_option a_phase (run_attempt_of s' k ra) = Some PhTerminal \<and>
    map_option j_status (job_by_id s' k) = Some JFailed \<and>
    (\<forall>g \<in> set (st_gens s'). g_job g = Some k \<longrightarrow>
       g_status g = (if conclusive (fst (disposition_evidence a)) then GFailed else GOutcomeUnknown))"
proof (rule settle_attempt_effect [OF run])
  fix kind sites records s1 s2 result w
  assume ev: "disposition_evidence a = (kind, sites, records)"
    and s1: "s1 = (upd_attempt (a_id a) (note_delivery kind reason) s)\<lparr>st_outcomes := st_outcomes s @
       map (\<lambda>l. \<lparr>q_attempt = a_id a, q_logical = l, q_disposition = fst (row_verdict kind sites l),
          q_refusals = snd (row_verdict kind sites l)\<rparr>) (a_membership a)\<rparr>"
    and w: "terminalize E now s1 k JFailed JRunning (Some ra) (Some result) (Some (disposal_error kind reason terr)) None
       (Some (if conclusive kind then GFailed else GOutcomeUnknown)) = Inr (s2, Some w)"
    and s': "s' = upd_attempt (a_id a) (\<lambda>a. a\<lparr>a_phase := PhTerminal\<rparr>) s2"
  have ids1: "ids_ok s1" using ids by (simp add: ids_ok_def s1)
  let ?p = "\<lambda>a. a_job_corr a = k \<and> a_run_attempt a = ra"
  have kept: "?p (note_delivery kind reason x) = ?p x" "a_id (note_delivery kind reason x) = a_id x" for x
    by (simp_all add: note_delivery_def)
  have "List.find ?p (st_attempts s1) = Some (note_delivery kind reason a)"
    using find_upd_where [OF a [unfolded run_attempt_of_def] kept(1)] by (simp add: s1)
  then have "List.find ?p (st_attempts s2) = Some (note_delivery kind reason a)"
    using terminalize_attempts(1) [OF w ids1] by simp
  then have "List.find ?p (st_attempts s') = Some ((note_delivery kind reason a)\<lparr>a_phase := PhTerminal\<rparr>)"
    using find_upd_where [of ?p "st_attempts s2" "note_delivery kind reason a" "\<lambda>a. a\<lparr>a_phase := PhTerminal\<rparr>"] kept(2)
    by (simp add: s')
  moreover have "map_option j_status (job_by_id s' k) = Some JFailed"
    using terminalize_job_status [OF ids1 w] by (simp add: s')
  moreover have "g_status g = (if conclusive kind then GFailed else GOutcomeUnknown)"
    if "g \<in> set (st_gens s')" "g_job g = Some k" for g
    using terminalize_gen_status [OF ids1 w] that by (simp add: s' gen_verdict_def)
  ultimately show ?thesis by (simp add: run_attempt_of_def ev)
qed

lemma conclusive_evidence:
  assumes "conclusive (fst (disposition_evidence a))"
  shows "\<not> a_commit_ack a" "\<exists>ph ck. dget (a_classification a) ph = Some ck \<and> ph \<noteq> RpPostCommitVerification \<and>
      (ck = CkRejected \<or> (\<exists>rs. ck = CkRefused rs))"
proof -
  let ?ph = "if dhas (a_classification a) RpCommit then RpCommit else RpPreCommitDryRun"
  show ack: "\<not> a_commit_ack a"
    using assms by (auto simp: disposition_evidence_def Let_def conclusive_def
        split: option.splits checkpoint.splits sum.splits)
  have "\<exists>ck. dget (a_classification a) ?ph = Some ck \<and> (ck = CkRejected \<or> (\<exists>rs. ck = CkRefused rs))"
  proof (cases "dget (a_classification a) ?ph")
    case None
    then show ?thesis using assms ack by (simp add: disposition_evidence_def Let_def conclusive_def)
  next
    case (Some ck)
    then show ?thesis using assms ack by (cases ck) (simp_all add: disposition_evidence_def Let_def conclusive_def)
  qed
  then show "\<exists>ph ck. dget (a_classification a) ph = Some ck \<and> ph \<noteq> RpPostCommitVerification \<and>
      (ck = CkRejected \<or> (\<exists>rs. ck = CkRefused rs))"
    by (intro exI [of _ ?ph]) auto
qed

section \<open>Properties\<close>


definition sample_attempt :: attempt where
  "sample_attempt = \<lparr>a_id = 1, a_device = 1, a_gen = 11, a_job = Some 7, a_job_corr = 7, a_run_attempt = 2,
     a_operation = JTApply, a_digest = ''d'', a_token = ''tok'', a_revisions = [(''vlan'', 6), (''ntp'', 4)],
     a_authorities = [(11, ''d'', [(''vlan'', 6), (''ntp'', 4)], [], Some 5)], a_manual = None, a_tombstones = [],
     a_membership = [sample_logical], a_carriers = [sample_owner], a_origins = sample_index,
     a_phase = PhPrepared, a_response_phase = None, a_classification = [], a_delivery = None, a_commit_ack = False\<rparr>"

definition sample_attempt_store :: store where
  "sample_attempt_store = sample_store\<lparr>st_attempts := [sample_attempt]\<rparr>"






end
