(* ===== verification/Claim_Recovery.thy ===== *)
theory Claim_Recovery
  imports Execution_Attempts
begin

text \<open>
  The claim-bearing transactions of \<open>core/claim.py\<close> that end a run: the failure write with
  release, the disposition of a cancelled run with release, and the revocation of stale claims.
  Each is one transaction; any exception before COMMIT leaves the store as it was.
\<close>

section \<open>Operations\<close>

definition simple_error :: "string \<Rightarrow> string \<Rightarrow> jdict" where
  "simple_error code msg = [(''code'', JStr code), (''message'', JStr msg), (''detail'', JObj [])]"

definition end_transaction :: "commit_fate \<Rightarrow> store \<Rightarrow> exn + store \<Rightarrow> store \<times> claim_outcome" where
  "end_transaction fate s body = (case body of Inl _ \<Rightarrow> (s, AbortKnown) | Inr s' \<Rightarrow> commit_outcome fate s s')"

definition mark_failed_body ::
  "env \<Rightarrow> int \<Rightarrow> int \<Rightarrow> string \<Rightarrow> string \<Rightarrow> registration \<Rightarrow> store \<Rightarrow> exn + store" where
  "mark_failed_body E now k code msg reg s =
     bindE (lock_claim reg s) (\<lambda>_.
     bindE (dispose_run E now s k (Some reg) XRunnerFailed None) (\<lambda>(s1, handled).
     bindE (if handled then Inr s1
            else bindE (terminalize_running E now id s1 k JFailed (Some (simple_error code msg)) (r_attempt reg))
                   (\<lambda>(s2, _). Inr s2)) (\<lambda>s3. Inr (delete_own_claim reg s3))))"

definition mark_failed_and_release ::
  "env \<Rightarrow> int \<Rightarrow> commit_fate \<Rightarrow> int \<Rightarrow> string \<Rightarrow> string \<Rightarrow> registration \<Rightarrow> store \<Rightarrow> store \<times> claim_outcome" where
  "mark_failed_and_release E now fate k code msg reg s =
     end_transaction fate s (mark_failed_body E now k code msg reg s)"

definition dispose_cancelled_body ::
  "env \<Rightarrow> int \<Rightarrow> (store \<Rightarrow> store) \<Rightarrow> int \<Rightarrow> job_type \<Rightarrow> registration \<Rightarrow> exit_reason \<Rightarrow> store \<Rightarrow> exn + store" where
  "dispose_cancelled_body E now mid k ty reg reason s =
     bindE (lock_claim reg s) (\<lambda>_.
     bindE (dispose_run E now s k (Some reg) reason None) (\<lambda>(s1, handled).
       let status = (if \<not> handled then disposition_for ty else JFailed);
           err = (if status = JFailed then Some (simple_error ''cancelled'' ''Worker cancelled the run'') else None)
       in bindE (if handled then Inr s1
                 else bindE (terminalize_running E now mid s1 k status err (r_attempt reg)) (\<lambda>(s2, _). Inr s2))
            (\<lambda>s3. Inr (delete_own_claim reg s3))))"

definition dispose_cancelled ::
  "env \<Rightarrow> int \<Rightarrow> (store \<Rightarrow> store) \<Rightarrow> commit_fate \<Rightarrow> int \<Rightarrow> job_type \<Rightarrow> registration \<Rightarrow> exit_reason \<Rightarrow> store
   \<Rightarrow> store \<times> claim_outcome" where
  "dispose_cancelled E now mid fate k ty reg reason s =
     end_transaction fate s (dispose_cancelled_body E now mid k ty reg reason s)"

subsection \<open>Revocation of stale claims\<close>

definition stale_claim :: "int \<Rightarrow> int \<Rightarrow> claim \<Rightarrow> bool" where
  "stale_claim now cutoff c = (c_heartbeat_at c < now - cutoff)"

text \<open>The job of a revoked claim: its attempt is disposed in a savepoint, else the job is re-dispositioned.\<close>

definition redisposition_job ::
  "env \<Rightarrow> int \<Rightarrow> (store \<Rightarrow> store) \<Rightarrow> store \<Rightarrow> int \<Rightarrow> string \<Rightarrow> exn + store" where
  "redisposition_job E now mid s k tok = (case job_by_id s k of
       None \<Rightarrow> Inr s
     | Some j \<Rightarrow>
         (case dispose_execution_attempt E now s k (j_run_attempt j) (Some tok) XClaimExpired None of
            Inl AttemptOwnershipLost \<Rightarrow> bindE (fail_lost_attempt E now s k (j_run_attempt j)) (\<lambda>(s1, _). Inr s1)
          | Inl e \<Rightarrow> Inl e
          | Inr (s1, NoAttempt) \<Rightarrow>
              bindE (terminalize_running E now mid s1 k (disposition_for (j_type j))
                       (if disposition_for (j_type j) = JFailed
                        then Some (simple_error ''orphaned'' ''Claim revoked after heartbeat loss'') else None)
                       (Some (j_run_attempt j))) (\<lambda>(s2, _). Inr s2)
          | Inr (s1, _) \<Rightarrow> Inr s1))"

definition revoke_one :: "env \<Rightarrow> int \<Rightarrow> (store \<Rightarrow> store) \<Rightarrow> store \<Rightarrow> claim \<Rightarrow> exn + store" where
  "revoke_one E now mid s c =
     bindE (case c_job c of None \<Rightarrow> Inr s | Some k \<Rightarrow> redisposition_job E now mid s k (c_token c)) (\<lambda>s1.
       Inr (del_claims (\<lambda>x. c_device x = c_device c \<and> c_token x = c_token c) s1))"

definition revoke_stale_claims ::
  "env \<Rightarrow> int \<Rightarrow> (store \<Rightarrow> store) \<Rightarrow> int \<Rightarrow> store \<Rightarrow> exn + store \<times> claim list" where
  "revoke_stale_claims E now mid cutoff s =
     (let rows = filter (stale_claim now cutoff) (st_claims s)
      in bindE (foldE (revoke_one E now mid) s rows) (\<lambda>s1. Inr (s1, rows)))"

section \<open>A re-dispositioned run is over\<close>

definition run_live :: "store \<Rightarrow> int \<Rightarrow> int option \<Rightarrow> bool" where
  "run_live s k ra = (\<exists>j \<in> set (st_jobs s). ownership k JRunning ra j)"

lemma finish_running_ends:
  assumes "ids_ok s" and "finish_running E now s k status err superseded ra = Inr (s', r)"
  shows "\<not> run_live s' k ra" and "st_claims s' = st_claims s" and "ids_ok s'"
proof -
  obtain w where run: "terminalize E now s k status JRunning ra None err None
      (if superseded then Some GAbandoned else if status = JFailed then Some GOutcomeUnknown else None) = Inr (s', w)"
    using assms(2) by (auto simp: finish_running_def bindE_eq_Inr)
  show "st_claims s' = st_claims s" by (rule terminalize_attempts(3) [OF run assms(1)])
  have "\<not> run_live s' k ra \<and> ids_ok s'"
  proof (cases w)
    case None
    then show ?thesis using run assms(1) by (auto elim!: terminalize_cases simp: run_live_def find_None_iff)
  next
    case (Some w')
    have ids': "ids_ok s'" by (rule terminalize_ids_ok [OF assms(1) run [unfolded Some]])
    have st: "map_option j_status (job_by_id s' k) = Some status"
      by (rule terminalize_job_status [OF assms(1) run [unfolded Some]])
    have "job_terminal status" using run by (auto simp: terminalize_def split: if_splits)
    then have "status \<noteq> JRunning" by (auto simp: job_terminal_def)
    then have "\<not> run_live s' k ra"
      using st ids' by (auto simp: run_live_def ownership_def ids_ok_def row_by_eq_Some_iff dest: distinct_key_eq)
    then show ?thesis using ids' by simp
  qed
  then show "\<not> run_live s' k ra" "ids_ok s'" by simp_all
qed

lemma requeued_job_ids:
  "ids_ok s \<Longrightarrow> ids_ok (requeue_job_generations k (upd_jobs (ownership k JRunning ra) (\<lambda>j. requeue_vals err (j\<lparr>j_status := JQueued\<rparr>)) s))"
proof -
  assume "ids_ok s"
  moreover have "map j_id (upd_where (ownership k JRunning ra) (\<lambda>j. requeue_vals err (j\<lparr>j_status := JQueued\<rparr>)) (st_jobs s)) = map j_id (st_jobs s)"
    by (rule map_upd_where) (simp add: requeue_vals_def)
  moreover have "st_jobs (requeue_job_generations k t) = st_jobs t" for t
    by (simp add: requeue_job_generations_def)
  ultimately show ?thesis by (simp add: ids_ok_def)
qed

lemma terminalize_running_ends:
  assumes "ids_ok s" and "ids_ok (mid s)" and "st_claims (mid s) = st_claims s"
    and "terminalize_running E now mid s k status err ra = Inr (s', r)"
  shows "\<not> run_live s' k ra \<and> st_claims s' = st_claims s \<and> ids_ok s'"
proof -
  show ?thesis
    using assms(4)
  proof (cases rule: terminalize_running_cases)
    case direct
    then show ?thesis by (simp add: finish_running_ends [OF assms(1)])
  next
    case raced
    then show ?thesis using assms(3) by (simp add: finish_running_ends [OF assms(2)])
  next
    case missed
    then show ?thesis using assms(2,3) by (auto simp: run_live_def find_None_iff)
  next
    case requeued
    have "\<not> run_live s' k ra"
      by (auto simp: run_live_def requeued(5) requeue_job_generations_def elim!: in_upd_whereE split: if_splits)
        (auto simp: ownership_def requeue_vals_def)
    then show ?thesis
      using requeued_job_ids [OF assms(2)] assms(3) by (simp add: requeued(5) requeue_job_generations_def)
  qed
qed

section \<open>Transactions keep the claim table\<close>

lemma dispose_frame:
  assumes ids: "ids_ok s" and run: "dispose_execution_attempt E now s k ra tok reason terr = Inr (s', d)"
  shows "ids_ok s'" and "st_claims s' = st_claims s"
    and "(case run_attempt_of s k ra of None \<Rightarrow> d = NoAttempt \<and> s' = s
          | Some a \<Rightarrow> if a_phase a = PhTerminal then d = AlreadyTerminal \<and> s' = s
              else d = Settled \<and> \<not> run_live s' k (Some ra))"
proof -
  have "ids_ok s' \<and> st_claims s' = st_claims s \<and>
     (case run_attempt_of s k ra of None \<Rightarrow> d = NoAttempt \<and> s' = s
          | Some a \<Rightarrow> if a_phase a = PhTerminal then d = AlreadyTerminal \<and> s' = s
              else d = Settled \<and> \<not> run_live s' k (Some ra))"
    using run
  proof (cases rule: dispose_cases)
    case (settled a j gens)
    show ?thesis
    proof (rule settle_attempt_effect [OF settled(4)])
      fix kind sites records s1 s2 result w
      assume d: "d = Settled" and s1: "s1 = (upd_attempt (a_id a) (note_delivery kind reason) s)\<lparr>st_outcomes := st_outcomes s @
          map (\<lambda>l. \<lparr>q_attempt = a_id a, q_logical = l, q_disposition = fst (row_verdict kind sites l),
             q_refusals = snd (row_verdict kind sites l)\<rparr>) (a_membership a)\<rparr>"
        and w: "terminalize E now s1 k JFailed JRunning (Some ra) (Some result) (Some (disposal_error kind reason terr)) None
          (Some (if conclusive kind then GFailed else GOutcomeUnknown)) = Inr (s2, Some w)"
        and s': "s' = upd_attempt (a_id a) (\<lambda>a. a\<lparr>a_phase := PhTerminal\<rparr>) s2"
      have ids1: "ids_ok s1" using ids by (simp add: ids_ok_def s1)
      have ids2: "ids_ok s2" by (rule terminalize_ids_ok [OF ids1 w])
      have "map_option j_status (job_by_id s2 k) = Some JFailed" by (rule terminalize_job_status [OF ids1 w])
      then have "\<not> run_live s' k (Some ra)"
        using ids2 by (auto simp: s' run_live_def ownership_def ids_ok_def row_by_eq_Some_iff dest: distinct_key_eq)
      then show ?thesis
        using ids2 settled(1,2) d terminalize_attempts(3) [OF w ids1]
        by (simp add: s' s1 ids_ok_def run_attempt_of_def)
    qed
  qed (simp_all add: ids run_attempt_of_def)
  then show "ids_ok s'" "st_claims s' = st_claims s"
    "(case run_attempt_of s k ra of None \<Rightarrow> d = NoAttempt \<and> s' = s
          | Some a \<Rightarrow> if a_phase a = PhTerminal then d = AlreadyTerminal \<and> s' = s
              else d = Settled \<and> \<not> run_live s' k (Some ra))" by blast+
qed

text \<open>What other transactions may do in the middle of ours: anything that keeps keys and the claims we lock.\<close>

definition benign :: "(store \<Rightarrow> store) \<Rightarrow> bool" where
  "benign mid = (\<forall>s. ids_ok s \<longrightarrow> ids_ok (mid s) \<and> st_claims (mid s) = st_claims s)"

lemma benign_id [simp]: "benign id"
  by (simp add: benign_def)

lemma terminalize_running_benign:
  "benign mid \<Longrightarrow> ids_ok s \<Longrightarrow> terminalize_running E now mid s k status err ra = Inr (s', r) \<Longrightarrow>
   \<not> run_live s' k ra \<and> st_claims s' = st_claims s \<and> ids_ok s'"
  by (rule terminalize_running_ends) (simp_all add: benign_def)

lemma redisposition_job_frame:
  assumes mid: "benign mid" and ids: "ids_ok s" and run: "redisposition_job E now mid s k tok = Inr s'"
  shows "ids_ok s' \<and> st_claims s' = st_claims s"
proof (cases "job_by_id s k")
  case None
  then show ?thesis using ids run by (simp add: redisposition_job_def)
next
  case (Some j)
  show ?thesis
  proof (cases "dispose_execution_attempt E now s k (j_run_attempt j) (Some tok) XClaimExpired None")
    case (Inl e)
    show ?thesis
    proof (cases "e = AttemptOwnershipLost")
      case True
      then show ?thesis
        using run Some Inl terminalize_running_benign [OF benign_id ids]
        by (auto simp: redisposition_job_def fail_lost_attempt_def bindE_eq_Inr)
    next
      case False
      then show ?thesis using run Some Inl by (cases e) (simp_all add: redisposition_job_def)
    qed
  next
    case (Inr x)
    obtain s1 d where x: "x = (s1, d)" by (cases x)
    note fr = dispose_frame [OF ids Inr [unfolded x]]
    show ?thesis
      using run Some Inr x fr(1,2) terminalize_running_benign [OF mid fr(1)]
      by (cases d) (auto simp: redisposition_job_def bindE_eq_Inr)
  qed
qed

lemma revoke_one_frame:
  assumes "benign mid" and "ids_ok s" and "revoke_one E now mid s c = Inr s'"
  shows "ids_ok s' \<and> st_claims s' = del_where (\<lambda>x. c_device x = c_device c \<and> c_token x = c_token c) (st_claims s)"
proof -
  obtain s1 where s1: "(case c_job c of None \<Rightarrow> Inr s | Some k \<Rightarrow> redisposition_job E now mid s k (c_token c)) = Inr s1"
    and s': "s' = del_claims (\<lambda>x. c_device x = c_device c \<and> c_token x = c_token c) s1"
    using assms(3) by (auto simp: revoke_one_def bindE_eq_Inr)
  have "ids_ok s1 \<and> st_claims s1 = st_claims s"
    using s1 assms(2) redisposition_job_frame [OF assms(1,2)] by (auto split: option.splits)
  then show ?thesis by (simp add: s' ids_ok_def)
qed

lemma revoke_fold_claims:
  assumes "benign mid"
  shows "ids_ok s \<Longrightarrow> foldE (revoke_one E now mid) s rows = Inr s' \<Longrightarrow>
    ids_ok s' \<and> st_claims s' =
      filter (\<lambda>x. \<forall>c \<in> set rows. \<not> (c_device x = c_device c \<and> c_token x = c_token c)) (st_claims s)"
proof (induction rows arbitrary: s)
  case (Cons c rows)
  then obtain s1 where s1: "revoke_one E now mid s c = Inr s1" and rest: "foldE (revoke_one E now mid) s1 rows = Inr s'"
    by (auto simp: bindE_eq_Inr)
  note fr = revoke_one_frame [OF assms Cons.prems(1) s1]
  have "filter (\<lambda>x. \<forall>c \<in> set rows. \<not> (c_device x = c_device c \<and> c_token x = c_token c))
      (del_where (\<lambda>x. c_device x = c_device c \<and> c_token x = c_token c) (st_claims s)) =
    filter (\<lambda>x. \<forall>c \<in> set (c # rows). \<not> (c_device x = c_device c \<and> c_token x = c_token c)) (st_claims s)"
    unfolding del_where_def filter_filter by (rule filter_cong) auto
  then show ?case using Cons.IH [OF _ rest] fr by simp
qed simp

section \<open>Properties\<close>

text \<open>
  C30. Revocation takes exactly the stale claims.  Whatever benign transactions interleave, the
  claims left are those whose heartbeat is not older than the cutoff, none is reissued, and with
  the cutoff the service uses a claim survives every reaper pass within the whole lifecycle of a
  run (execution budget, drain, cleanup and reaper margin) after its last heartbeat.
\<close>

theorem revocation_takes_exactly_stale:
  assumes "benign mid" and "ids_ok s" and "claims_ok s"
    and "revoke_stale_claims E now mid cutoff s = Inr (s', revoked)"
  shows "st_claims s' = filter (\<lambda>c. \<not> stale_claim now cutoff c) (st_claims s) \<and>
    revoked = filter (stale_claim now cutoff) (st_claims s) \<and>
    (cutoff = CLAIM_STALE_AFTER \<longrightarrow> (\<forall>c \<in> set (st_claims s).
       now \<le> c_heartbeat_at c + (JOB_EXECUTION_BUDGET + JOB_CANCEL_DRAIN + JOB_CLEANUP_BOUND + REAPER_MARGIN)
         \<longrightarrow> c \<in> set (st_claims s')))"
proof -
  let ?rows = "filter (stale_claim now cutoff) (st_claims s)"
  have rev: "revoked = ?rows" and run: "foldE (revoke_one E now mid) s ?rows = Inr s'"
    using assms(4) by (auto simp: revoke_stale_claims_def Let_def bindE_eq_Inr)
  have cl: "st_claims s' = filter (\<lambda>x. \<forall>c \<in> set ?rows. \<not> (c_device x = c_device c \<and> c_token x = c_token c)) (st_claims s)"
    using revoke_fold_claims [OF assms(1,2) run] by simp
  have "\<dots> = filter (\<lambda>c. \<not> stale_claim now cutoff c) (st_claims s)"
    using assms(3) by (intro filter_cong) (auto simp: claims_ok_def dest: distinct_key_eq)
  then show ?thesis
    using cl rev by (auto simp: stale_claim_def timing_defs)
qed

theorem revocation_takes_exactly_stale_witness:
  "st_claims (fst (projr (revoke_stale_claims sample_env 2000 id CLAIM_STALE_AFTER sample_store))) = [] \<and>
   st_claims (fst (projr (revoke_stale_claims sample_env 1700 id CLAIM_STALE_AFTER sample_store))) = st_claims sample_store"
proof -
  let ?a = "revoke_stale_claims sample_env 2000 id CLAIM_STALE_AFTER sample_store"
  let ?b = "revoke_stale_claims sample_env 1700 id CLAIM_STALE_AFTER sample_store"
  have ids: "ids_ok sample_store" "claims_ok sample_store" and a: "\<not> isl ?a" and b: "\<not> isl ?b"
    and fa: "filter (\<lambda>c. \<not> stale_claim 2000 CLAIM_STALE_AFTER c) (st_claims sample_store) = []"
    and fb: "filter (\<lambda>c. \<not> stale_claim 1700 CLAIM_STALE_AFTER c) (st_claims sample_store) = st_claims sample_store"
    by code_simp+
  have ea: "?a = Inr (fst (projr ?a), snd (projr ?a))" using Inr_projr [OF a] by simp
  have eb: "?b = Inr (fst (projr ?b), snd (projr ?b))" using Inr_projr [OF b] by simp
  show ?thesis
    using revocation_takes_exactly_stale [OF benign_id ids ea] revocation_takes_exactly_stale [OF benign_id ids eb] fa fb
    by metis
qed

text \<open>
  C31. Ending a run and giving its claim back is one step.  The failure write and the cancellation
  disposition either abort and change nothing, or commit a store in which the claim is gone and
  the run is no longer running; no outcome leaves a released claim beside a running job.
\<close>

theorem run_end_and_release_atomic:
  assumes "ids_ok s" and "benign mid" and "r_device reg = Some d" and "r_token reg = Some tok" and "r_attempt reg = Some ra"
    and "\<forall>a. run_attempt_of s k ra = Some a \<longrightarrow> a_phase a \<noteq> PhTerminal"
    and "(s', out) = mark_failed_and_release E now Acked k code msg reg s \<or>
         (s', out) = dispose_cancelled E now mid Acked k ty reg reason s"
  shows "(out = AbortKnown \<and> s' = s) \<or>
    (out = CommitAcknowledged \<and> \<not> holds_claim s' reg \<and> \<not> run_live s' k (Some ra))"
proof -
  have reg: "registered reg" using assms(4) by (simp add: registered_def)
  have gone: "\<not> holds_claim (delete_own_claim reg t) reg" for t
    using assms(3,4) reg
    by (auto simp: holds_claim_def delete_own_claim_def claim_owned_def reg_owns_def table_simps)
  have live: "run_live (delete_own_claim reg t) k x = run_live t k x" for t x
    by (simp add: run_live_def delete_own_claim_def)
  have disposed: "ids_ok s1 \<and> (handled \<longrightarrow> \<not> run_live s1 k (Some ra))"
    if "dispose_run E now s k (Some reg) rs None = Inr (s1, handled)" for s1 handled rs
  proof -
    from that obtain dd where dd: "dispose_execution_attempt E now s k ra (Some tok) rs None = Inr (s1, dd)" "handled = (dd \<noteq> NoAttempt)"
      using assms(4,5) by (auto simp: dispose_run_def bindE_eq_Inr Let_def split: sum.splits exn.splits)
    show ?thesis
      using dispose_frame(1,3) [OF assms(1) dd(1)] dd(2) assms(6) by (auto split: option.splits if_splits)
  qed
  have over: "\<not> run_live s3 k (Some ra)"
    if "dispose_run E now s k (Some reg) rs None = Inr (s1, handled)"
      "(if handled then Inr s1 else bindE (terminalize_running E now m s1 k st er (r_attempt reg)) (\<lambda>(s2, _). Inr s2)) = Inr s3"
      "benign m" for s1 handled rs m st er s3
    using disposed [OF that(1)] that(2) assms(5) terminalize_running_benign [OF that(3), of s1]
    by (auto simp: bindE_eq_Inr split: if_splits)
  have "mark_failed_body E now k code msg reg s = Inr t \<Longrightarrow> \<not> holds_claim t reg \<and> \<not> run_live t k (Some ra)" for t
    using over [OF _ _ benign_id] gone live by (auto simp: mark_failed_body_def bindE_eq_Inr)
  moreover have "dispose_cancelled_body E now mid k ty reg reason s = Inr t \<Longrightarrow> \<not> holds_claim t reg \<and> \<not> run_live t k (Some ra)" for t
    using over [OF _ _ assms(2)] gone live by (auto simp: dispose_cancelled_body_def Let_def bindE_eq_Inr)
  ultimately show ?thesis
    using assms(7)
    by (auto simp: mark_failed_and_release_def dispose_cancelled_def end_transaction_def commit_outcome_def
        commit_state_def split: sum.splits)
qed

theorem run_end_and_release_atomic_witness:
  "snd (mark_failed_and_release sample_env 50 Acked 7 ''c'' ''m''
      \<lparr>r_device = Some 1, r_token = Some ''tok'', r_attempt = Some 2\<rparr> sample_store) = CommitAcknowledged \<and>
   \<not> run_live (fst (mark_failed_and_release sample_env 50 Acked 7 ''c'' ''m''
      \<lparr>r_device = Some 1, r_token = Some ''tok'', r_attempt = Some 2\<rparr> sample_store)) 7 (Some 2)"
proof -
  let ?reg = "\<lparr>r_device = Some 1, r_token = Some ''tok'', r_attempt = Some 2\<rparr>"
  let ?m = "mark_failed_and_release sample_env 50 Acked 7 ''c'' ''m'' ?reg sample_store"
  have ids: "ids_ok sample_store" and none: "run_attempt_of sample_store 7 2 = None"
    and out: "snd ?m = CommitAcknowledged" by code_simp+
  have "(fst ?m, snd ?m) = mark_failed_and_release sample_env 50 Acked 7 ''c'' ''m'' ?reg sample_store \<or>
    (fst ?m, snd ?m) = dispose_cancelled sample_env 50 id Acked 7 JTSync ?reg XCancelled sample_store" by simp
  from run_end_and_release_atomic [OF ids benign_id, where reg = ?reg and d = 1 and tok = "''tok''" and ra = 2 and k = 7, OF _ _ _ _ this]
  have "snd ?m = AbortKnown \<and> fst ?m = sample_store \<or>
    snd ?m = CommitAcknowledged \<and> \<not> holds_claim (fst ?m) ?reg \<and> \<not> run_live (fst ?m) 7 (Some 2)"
    using none by simp
  then show ?thesis using out by auto
qed

end
