(* ===== verification/Job_Admission.thy ===== *)
theory Job_Admission
  imports Claim_Recovery
begin

text \<open>
  \<open>core/jobs.py\<close>: the queries on the job queue, admission of coalescible, dedicated and provision
  jobs, and the runner wrappers that turn the end of a run into one terminal write.  Within one
  admission, \<open>mid n\<close> is what other transactions commit between the insert that lost and the
  lookup of the winner, when \<open>n\<close> more rounds are left.
\<close>

section \<open>Queries\<close>

definition get_queued_job_of_type :: "store \<Rightarrow> int \<Rightarrow> job_type \<Rightarrow> job option" where
  "get_queued_job_of_type s d ty = first_by (\<lambda>j. (j_created_at j, j_id j))
     (filter (\<lambda>j. j_device j = Some d \<and> j_type j = ty \<and> j_status j = JQueued) (st_jobs s))"

definition has_any_active_job :: "store \<Rightarrow> int \<Rightarrow> bool" where
  "has_any_active_job s d = exists_where (\<lambda>j. j_device j = Some d \<and> job_live (j_status j)) (st_jobs s)"

definition get_head_queued_job :: "store \<Rightarrow> int \<Rightarrow> job option" where
  "get_head_queued_job s d = first_by (\<lambda>j. (j_created_at j, j_id j))
     (filter (\<lambda>j. j_device j = Some d \<and> j_status j = JQueued) (st_jobs s))"

definition lock_queued_winner :: "store \<Rightarrow> int \<Rightarrow> job_type \<Rightarrow> job option" where
  "lock_queued_winner s d ty = first_by (\<lambda>j. (j_created_at j, j_id j))
     (filter (\<lambda>j. in_queued_slot j d ty) (st_jobs s))"

section \<open>Admission\<close>

definition ADMISSION_RETRIES :: nat where "ADMISSION_RETRIES = 3"

definition new_job ::
  "int \<Rightarrow> int \<Rightarrow> job_type \<Rightarrow> int option \<Rightarrow> bool \<Rightarrow> jdict option \<Rightarrow> string option \<Rightarrow> job" where
  "new_job now k ty d coal ctx pid = \<lparr>j_id = k, j_type = ty, j_status = JQueued, j_coalescible = coal,
     j_device = d, j_result = None, j_error = None, j_context = ctx, j_created_at = now,
     j_started_at = None, j_heartbeat_at = None, j_run_attempt = 0, j_settle_seq = None,
     j_provision_attempt = pid\<rparr>"

definition add_job :: "job \<Rightarrow> store \<Rightarrow> store" where
  "add_job j s = s\<lparr>st_jobs := st_jobs s @ [j], st_next_job := st_next_job s + 1\<rparr>"

text \<open>The foreign key on \<open>devices\<close> refuses a job for a device that is gone.\<close>

definition insert_device_job ::
  "int \<Rightarrow> int \<Rightarrow> job_type \<Rightarrow> bool \<Rightarrow> jdict option \<Rightarrow> store \<Rightarrow> exn + store \<times> job" where
  "insert_device_job now d ty coal ctx s =
     (if d \<notin> set (st_devices s) then Inl (IntegrityViolation ''jobs_device_id_fkey'')
      else let j = new_job now (st_next_job s) ty (Some d) coal ctx None in Inr (add_job j s, j))"

fun admit_rounds ::
  "nat \<Rightarrow> int \<Rightarrow> (nat \<Rightarrow> store \<Rightarrow> store) \<Rightarrow> int \<Rightarrow> job_type \<Rightarrow> jdict option \<Rightarrow> store
   \<Rightarrow> exn + store \<times> job option \<times> job option" where
  "admit_rounds 0 now mid d ty ctx s = Inr (s, None, None)"
| "admit_rounds (Suc n) now mid d ty ctx s =
     (if exists_where (\<lambda>j. in_queued_slot j d ty) (st_jobs s) then
        let s1 = mid n s in
        (case lock_queued_winner s1 d ty of
           Some w \<Rightarrow> Inr (s1, None, Some w)
         | None \<Rightarrow> admit_rounds n now mid d ty ctx s1)
      else bindE (insert_device_job now d ty True ctx s) (\<lambda>(s1, j). Inr (s1, Some j, None)))"

definition admit_coalescible_job ::
  "int \<Rightarrow> (nat \<Rightarrow> store \<Rightarrow> store) \<Rightarrow> int \<Rightarrow> job_type \<Rightarrow> jdict option \<Rightarrow> store
   \<Rightarrow> exn + store \<times> job option \<times> job option" where
  "admit_coalescible_job now mid d ty ctx s =
     (if ty = JTRemoval \<or> ty = JTProvision then Inl (ValueError ''jobs are not coalescible'')
      else admit_rounds ADMISSION_RETRIES now mid d ty ctx s)"

definition create_dedicated_job ::
  "int \<Rightarrow> int \<Rightarrow> job_type \<Rightarrow> jdict option \<Rightarrow> store \<Rightarrow> exn + store \<times> job" where
  "create_dedicated_job now d ty ctx s =
     (if ty \<noteq> JTApply \<and> ty \<noteq> JTRemoval then Inl (ValueError ''dedicated jobs must be apply or removal'')
      else insert_device_job now d ty False ctx s)"

definition create_followup_sync :: "int \<Rightarrow> int \<Rightarrow> int \<Rightarrow> store \<Rightarrow> exn + store \<times> job" where
  "create_followup_sync now d k s =
     insert_device_job now d JTSync False (Some [(''followup_of_job_id'', JInt k)]) s"

text \<open>Every job type has a registered runner, so the first guard of \<open>enqueue_job\<close> never fires.\<close>

definition enqueue_job ::
  "int \<Rightarrow> (nat \<Rightarrow> store \<Rightarrow> store) \<Rightarrow> int \<Rightarrow> job_type \<Rightarrow> jdict option \<Rightarrow> store \<Rightarrow> exn + store \<times> job \<times> bool" where
  "enqueue_job now mid d ty ctx s =
     bindE (admit_coalescible_job now mid d ty ctx s) (\<lambda>(s1, created, winner).
       case winner of Some w \<Rightarrow> Inr (s1, w, False)
       | None \<Rightarrow> (case created of
           None \<Rightarrow> Inl (RuntimeError ''could not admit a job'')
         | Some j \<Rightarrow> Inr (s1, j, True)))"

section \<open>Provision admission\<close>

record provision_params =
  p_nso_instance :: string
  p_device_name :: string
  p_address :: string
  p_ned_id :: string
  p_authgroup :: string
  p_netbox_device_id :: "int option"
  p_ned_type :: "string option"
  p_port :: "int option"
  p_admin_state :: string
  p_do_sync :: bool
  p_oob_ip :: "string option"

definition jopt :: "('a \<Rightarrow> json) \<Rightarrow> 'a option \<Rightarrow> json" where
  "jopt f x = (case x of None \<Rightarrow> JNull | Some v \<Rightarrow> f v)"

definition params_dump :: "provision_params \<Rightarrow> jdict" where
  "params_dump p = [(''nso_instance'', JStr (p_nso_instance p)), (''device_name'', JStr (p_device_name p)),
     (''address'', JStr (p_address p)), (''ned_id'', JStr (p_ned_id p)), (''authgroup'', JStr (p_authgroup p)),
     (''netbox_device_id'', jopt JInt (p_netbox_device_id p)), (''ned_type'', jopt JStr (p_ned_type p)),
     (''port'', jopt JInt (p_port p)), (''admin_state'', JStr (p_admin_state p)),
     (''do_sync'', JBool (p_do_sync p)), (''oob_ip'', jopt JStr (p_oob_ip p))]"

definition context_text :: "jdict option \<Rightarrow> string \<Rightarrow> string option" where
  "context_text ctx key = (case ctx of None \<Rightarrow> None | Some c \<Rightarrow>
     (case dget c key of Some (JStr x) \<Rightarrow> Some x | _ \<Rightarrow> None))"

definition active_pair :: "string \<Rightarrow> string \<Rightarrow> job \<Rightarrow> bool" where
  "active_pair inst name j = (j_type j = JTProvision \<and> job_live (j_status j) \<and>
     context_text (j_context j) ''nso_instance'' = Some inst \<and>
     context_text (j_context j) ''device_name'' = Some name)"

definition get_active_provision_job :: "store \<Rightarrow> string \<Rightarrow> string \<Rightarrow> job option" where
  "get_active_provision_job s inst name = first_by (\<lambda>j. (j_created_at j, j_id j))
     (filter (active_pair inst name) (st_jobs s))"

definition get_provision_attempt_job :: "store \<Rightarrow> string \<Rightarrow> job option" where
  "get_provision_attempt_job s pid = row_by j_provision_attempt (Some pid) (st_jobs s)"

fun provision_rounds ::
  "nat \<Rightarrow> int \<Rightarrow> (nat \<Rightarrow> store \<Rightarrow> store) \<Rightarrow> string \<Rightarrow> provision_params \<Rightarrow> store
   \<Rightarrow> exn + store \<times> job \<times> bool" where
  "provision_rounds 0 now mid pid p s = Inl (RuntimeError ''could not admit a provision job'')"
| "provision_rounds (Suc n) now mid pid p s =
     (if exists_where (\<lambda>j. j_provision_attempt j = Some pid \<or> active_pair (p_nso_instance p) (p_device_name p) j) (st_jobs s) then
        let s1 = mid n s in
        (case get_provision_attempt_job s1 pid of
           Some j \<Rightarrow> if j_context j \<noteq> Some (params_dump p)
              then Inl (ProvisionAttemptConflict ''provision_attempt_mismatch'' (j_id j))
              else Inr (s1, j, False)
         | None \<Rightarrow>
             (case get_active_provision_job s1 (p_nso_instance p) (p_device_name p) of
                Some j \<Rightarrow> if j_provision_attempt j = Some pid then
                    (if j_context j \<noteq> Some (params_dump p)
                     then Inl (ProvisionAttemptConflict ''provision_attempt_mismatch'' (j_id j))
                     else Inr (s1, j, False))
                  else Inl (ProvisionAttemptConflict ''provision_active'' (j_id j))
              | None \<Rightarrow> provision_rounds n now mid pid p s1))
      else let j = new_job now (st_next_job s) JTProvision None False (Some (params_dump p)) (Some pid)
           in Inr (add_job j s, j, True))"

definition enqueue_provision_job ::
  "int \<Rightarrow> (nat \<Rightarrow> store \<Rightarrow> store) \<Rightarrow> string \<Rightarrow> provision_params \<Rightarrow> store \<Rightarrow> exn + store \<times> job \<times> bool" where
  "enqueue_provision_job now mid pid p s = provision_rounds ADMISSION_RETRIES now mid pid p s"

section \<open>The end of a run\<close>

text \<open>
  What a runner raises: a deliberate \<open>JobError\<close> with its code, message and detail, or any
  other exception, of which only the type name is persisted.
\<close>

datatype raised = RJobError string string jdict | RCrash string

definition internal_error :: "string \<Rightarrow> string \<Rightarrow> jdict option \<Rightarrow> jdict" where
  "internal_error tname code detail = [(''code'', JStr code),
     (''message'', JStr (''internal error ('' @ tname @ ''); see the server log'')),
     (''detail'', JObj (case detail of None \<Rightarrow> [] | Some d \<Rightarrow> d))]"

definition error_envelope :: "raised \<Rightarrow> string \<Rightarrow> jdict option \<Rightarrow> jdict" where
  "error_envelope x code detail = (case x of
       RJobError c m d \<Rightarrow> [(''code'', JStr c), (''message'', JStr m),
         (''detail'', JObj (dmerge (case detail of None \<Rightarrow> [] | Some d0 \<Rightarrow> d0) d))]
     | RCrash tname \<Rightarrow> internal_error tname code detail)"

datatype run_end = Returned jdict | TimedOut | LostClaim | LostOutcome | DeviceBusy | Raised raised

definition mark_job_failed ::
  "env \<Rightarrow> int \<Rightarrow> int \<Rightarrow> jdict \<Rightarrow> registration option \<Rightarrow> store \<Rightarrow> exn + store" where
  "mark_job_failed E now k err reg s =
     (if (case reg of None \<Rightarrow> False | Some r \<Rightarrow> isl (lock_claim r s)) then Inr s
      else bindE (terminalize E now s k JFailed JRunning (Option.bind reg r_attempt) None (Some err) None None)
             (\<lambda>(s1, _). Inr s1))"

text \<open>
  A wrapper's exit: the store it leaves committed and the exception it lets through.
  \<open>committed\<close> is the store when the runner returned or raised, \<open>session\<close> the same with the
  uncommitted writes of the runner's session.
\<close>

definition fail_run ::
  "env \<Rightarrow> int \<Rightarrow> int \<Rightarrow> jdict \<Rightarrow> registration option \<Rightarrow> store \<Rightarrow> store \<times> exn option" where
  "fail_run E now k err reg s = (case mark_job_failed E now k err reg s of
     Inl e \<Rightarrow> (s, Some e) | Inr s1 \<Rightarrow> (s1, None))"

definition timeout_error :: "string \<Rightarrow> jdict" where
  "timeout_error msg = simple_error ''timeout'' msg"

definition succeed_run ::
  "env \<Rightarrow> int \<Rightarrow> int \<Rightarrow> registration option \<Rightarrow> jdict \<Rightarrow> int option option \<Rightarrow> store \<Rightarrow> store \<Rightarrow> store \<times> exn option" where
  "succeed_run E now k reg result set_device committed session =
     (case terminalize E now session k JSucceeded JRunning (Option.bind reg r_attempt) (Some result) None set_device None of
        Inr (s1, Some _) \<Rightarrow> (s1, None)
      | Inr (_, None) \<Rightarrow> (committed, None)
      | Inl ClaimLost \<Rightarrow> (committed, Some ClaimLost)
      | Inl BookkeepingOutcomeUnknown \<Rightarrow> (committed, Some BookkeepingOutcomeUnknown)
      | Inl _ \<Rightarrow> fail_run E now k (error_envelope (RCrash ''ValueError'') ''internal'' None) reg committed)"

definition run_with_db ::
  "env \<Rightarrow> int \<Rightarrow> int \<Rightarrow> string \<Rightarrow> registration option \<Rightarrow> (store \<Rightarrow> store \<times> store \<times> run_end) \<Rightarrow> store
   \<Rightarrow> store \<times> exn option" where
  "run_with_db E now k timeout_msg reg runner s =
     (if job_by_id s k = None then (s, None)
      else case runner s of (committed, session, e) \<Rightarrow>
        (case e of
           Returned r \<Rightarrow> succeed_run E now k reg r None committed session
         | TimedOut \<Rightarrow> fail_run E now k (timeout_error timeout_msg) reg committed
         | LostClaim \<Rightarrow> (committed, Some ClaimLost)
         | LostOutcome \<Rightarrow> (committed, Some BookkeepingOutcomeUnknown)
         | DeviceBusy \<Rightarrow> fail_run E now k (error_envelope (RCrash ''ClaimUnavailableError'') ''internal'' None) reg committed
         | Raised x \<Rightarrow> fail_run E now k (error_envelope x ''internal'' None) reg committed))"

text \<open>
  A provision starts without a claim and may register one mid-run: \<open>reg\<close> is the registration
  when the runner returned or raised.  Its terminal write takes the claim's row lock and
  attaches the device the run created.
\<close>

definition provisioned_device :: "jdict \<Rightarrow> int option option" where
  "provisioned_device r = (case dget r ''device_id'' of Some (JInt d) \<Rightarrow> Some (Some d) | _ \<Rightarrow> None)"

definition device_busy_error :: jdict where
  "device_busy_error = [(''code'', JStr ''device_busy''),
     (''message'', JStr ''The device is busy - another operation holds it''),
     (''detail'', JObj [(''reason'', JStr ''claim_unavailable''), (''retryable'', JBool True)])]"

definition run_provision ::
  "env \<Rightarrow> int \<Rightarrow> int \<Rightarrow> registration option \<Rightarrow> (store \<Rightarrow> store \<times> store \<times> run_end) \<Rightarrow> store \<Rightarrow> store \<times> exn option" where
  "run_provision E now k reg runner s =
     (if job_by_id s k = None then (s, None)
      else case runner s of (committed, session, e) \<Rightarrow>
        (case e of
           Returned r \<Rightarrow>
             if (case reg of None \<Rightarrow> False | Some x \<Rightarrow> isl (lock_claim x session)) then (committed, Some ClaimLost)
             else succeed_run E now k reg r (provisioned_device r) committed session
         | DeviceBusy \<Rightarrow> fail_run E now k device_busy_error reg committed
         | TimedOut \<Rightarrow> fail_run E now k (timeout_error ''Provision exceeded 600s timeout'') reg committed
         | LostClaim \<Rightarrow> (committed, Some ClaimLost)
         | LostOutcome \<Rightarrow> (committed, Some BookkeepingOutcomeUnknown)
         | Raised x \<Rightarrow> fail_run E now k (error_envelope x ''internal'' None) reg committed))"

section \<open>Queue order and the unique slot\<close>

lemma lock_queued_winner_None: "lock_queued_winner s d ty = None \<longleftrightarrow> (\<forall>j \<in> set (st_jobs s). \<not> in_queued_slot j d ty)"
  by (simp add: lock_queued_winner_def filter_empty_conv)

lemma lock_queued_winner_SomeD:
  "lock_queued_winner s d ty = Some w \<Longrightarrow> w \<in> set (st_jobs s) \<and> in_queued_slot w d ty"
  unfolding lock_queued_winner_def by (drule first_by_SomeD(1)) simp

lemma in_queued_slot_new_job [simp]:
  "in_queued_slot (new_job now k ty (Some d) coal ctx pid) d' ty' \<longleftrightarrow> coal \<and> d' = d \<and> ty' = ty"
  by (auto simp: in_queued_slot_def new_job_def)

lemma new_job_cols [simp]:
  "j_id (new_job now k ty d coal ctx pid) = k" "j_context (new_job now k ty d coal ctx pid) = ctx"
  "j_type (new_job now k ty d coal ctx pid) = ty" "j_device (new_job now k ty d coal ctx pid) = d"
  "j_status (new_job now k ty d coal ctx pid) = JQueued" "j_coalescible (new_job now k ty d coal ctx pid) = coal"
  "j_settle_seq (new_job now k ty d coal ctx pid) = None" "j_provision_attempt (new_job now k ty d coal ctx pid) = pid"
  by (simp_all add: new_job_def)

lemma add_job_frame [simp]:
  "st_devices (add_job j s) = st_devices s" "st_claims (add_job j s) = st_claims s"
  "st_settle (add_job j s) = st_settle s" "st_gencnt (add_job j s) = st_gencnt s"
  "st_streams (add_job j s) = st_streams s" "st_gens (add_job j s) = st_gens s"
  "st_tombs (add_job j s) = st_tombs s" "st_attempts (add_job j s) = st_attempts s"
  "st_outcomes (add_job j s) = st_outcomes s" "st_next_gen (add_job j s) = st_next_gen s"
  "st_jobs (add_job j s) = st_jobs s @ [j]" "st_next_job (add_job j s) = st_next_job s + 1"
  by (simp_all add: add_job_def)

lemma queued_unique_add:
  assumes "queued_unique s" and "\<And>d ty. in_queued_slot j d ty \<Longrightarrow> \<forall>i \<in> set (st_jobs s). \<not> in_queued_slot i d ty"
  shows "queued_unique (add_job j s)"
  using assms unfolding queued_unique_def by (simp add: Ball_def) blast

lemma admit_rounds_one:
  assumes "\<And>n t. queued_unique t \<Longrightarrow> queued_unique (mid n t)"
  shows "queued_unique s \<Longrightarrow> admit_rounds n now mid d ty ctx s = Inr (s', created, winner) \<Longrightarrow>
    queued_unique s' \<and> (case created of
        Some j \<Rightarrow> winner = None \<and> filter (\<lambda>i. in_queued_slot i d ty) (st_jobs s') = [j] \<and> j_context j = ctx
      | None \<Rightarrow> (case winner of None \<Rightarrow> True | Some w \<Rightarrow> w \<in> set (st_jobs s') \<and> in_queued_slot w d ty))"
proof (induction n arbitrary: s)
  case (Suc n)
  show ?case
  proof (cases "\<exists>j \<in> set (st_jobs s). in_queued_slot j d ty")
    case True
    then show ?thesis
      using Suc.prems Suc.IH [of "mid n s"] assms lock_queued_winner_SomeD [of "mid n s" d ty]
      by (auto simp: table_simps Let_def split: option.splits)
  next
    case False
    then have "filter (\<lambda>i. in_queued_slot i d ty) (st_jobs s) = []" by (simp add: filter_empty_conv)
    then show ?thesis
      using Suc.prems False queued_unique_add [of s "new_job now (st_next_job s) ty (Some d) True ctx None"]
      by (auto simp: table_simps bindE_eq_Inr insert_device_job_def Let_def split: if_splits)
  qed
qed simp

lemma admit_rounds_alone:
  assumes "admit_rounds (Suc n) now mid d ty ctx s = Inr (s', created, winner)" and "mid n = id"
  shows "(created = None) = (winner \<noteq> None) \<and> s' = (case created of None \<Rightarrow> s | Some j \<Rightarrow> add_job j s)"
proof (cases "lock_queued_winner s d ty")
  case None
  then show ?thesis
    using assms lock_queued_winner_None [of s d ty]
    by (auto simp: table_simps bindE_eq_Inr insert_device_job_def Let_def split: if_splits)
next
  case (Some w)
  then show ?thesis
    using assms lock_queued_winner_SomeD [OF Some]
    by (force simp: table_simps bindE_eq_Inr Let_def Some split: if_splits)
qed

section \<open>Provision attempts\<close>

lemma jopt_inj [simp]: "jopt JInt a = jopt JInt b \<longleftrightarrow> a = b" "jopt JStr x = jopt JStr y \<longleftrightarrow> x = y"
  by (cases a; cases b; simp add: jopt_def) (cases x; cases y; simp add: jopt_def)

lemma params_dump_inj: "params_dump p = params_dump q \<longleftrightarrow> p = q"
proof
  assume "params_dump p = params_dump q"
  then show "p = q"
    by (intro provision_params.equality) (auto simp: params_dump_def)
qed simp

lemma params_dump_pair [simp]:
  "context_text (Some (params_dump p)) ''nso_instance'' = Some (p_nso_instance p)"
  "context_text (Some (params_dump p)) ''device_name'' = Some (p_device_name p)"
  by (simp_all add: context_text_def params_dump_def)

text \<open>The two unique indexes a provision is admitted against.\<close>

definition provision_ok :: "store \<Rightarrow> bool" where
  "provision_ok s \<longleftrightarrow>
     (\<forall>i \<in> set (st_jobs s). \<forall>j \<in> set (st_jobs s). \<forall>pid.
        j_provision_attempt i = Some pid \<and> j_provision_attempt j = Some pid \<longrightarrow> i = j) \<and>
     (\<forall>i \<in> set (st_jobs s). \<forall>j \<in> set (st_jobs s). \<forall>inst name.
        active_pair inst name i \<and> active_pair inst name j \<longrightarrow> i = j)"

lemma provision_attempt_job_iff:
  assumes "provision_ok s" and "j \<in> set (st_jobs s)" and "j_provision_attempt j = Some pid"
  shows "get_provision_attempt_job s pid = Some j"
proof -
  have "get_provision_attempt_job s pid \<noteq> None"
    using assms(2) imageI [OF assms(2), of j_provision_attempt]
    by (simp add: get_provision_attempt_job_def row_by_None_iff assms(3))
  then obtain i where i: "row_by j_provision_attempt (Some pid) (st_jobs s) = Some i"
    by (auto simp: get_provision_attempt_job_def)
  then have "i = j" using assms row_by_SomeD [OF i] by (auto simp: provision_ok_def)
  then show ?thesis using i by (simp add: get_provision_attempt_job_def)
qed

lemma provision_ok_add:
  assumes "provision_ok s" and "\<forall>i \<in> set (st_jobs s). j_provision_attempt i \<noteq> Some pid \<and>
      \<not> active_pair (p_nso_instance p) (p_device_name p) i"
  shows "provision_ok (add_job (new_job now k JTProvision None False (Some (params_dump p)) (Some pid)) s)"
proof -
  let ?j = "new_job now k JTProvision None False (Some (params_dump p)) (Some pid)"
  have pair: "active_pair inst name ?j \<longleftrightarrow> inst = p_nso_instance p \<and> name = p_device_name p" for inst name
    by (auto simp: active_pair_def new_job_def job_live_def)
  have pid: "j_provision_attempt ?j = Some pid" by (simp add: new_job_def)
  show ?thesis
    using assms unfolding provision_ok_def by (auto simp: pair pid)
qed

lemma provision_rounds_effect:
  assumes "\<And>n t. provision_ok t \<Longrightarrow> provision_ok (mid n t)"
  shows "provision_ok s \<Longrightarrow> provision_rounds n now mid pid p s = Inr (s', j, created) \<Longrightarrow>
    provision_ok s' \<and> j \<in> set (st_jobs s') \<and> j_provision_attempt j = Some pid \<and> j_context j = Some (params_dump p)"
proof (induction n arbitrary: s)
  case (Suc n)
  show ?case
  proof (cases "\<exists>j \<in> set (st_jobs s). j_provision_attempt j = Some pid \<or> active_pair (p_nso_instance p) (p_device_name p) j")
    case False
    then show ?thesis
      using Suc.prems provision_ok_add [of s pid p now "st_next_job s"]
      by (auto simp: table_simps Let_def)
  next
    case True
    have ok: "provision_ok (mid n s)" by (rule assms [OF Suc.prems(1)])
    have at: "get_provision_attempt_job (mid n s) pid = Some x \<Longrightarrow> x \<in> set (st_jobs (mid n s)) \<and> j_provision_attempt x = Some pid" for x
      by (auto simp: get_provision_attempt_job_def dest: row_by_SomeD)
    have act: "get_active_provision_job (mid n s) (p_nso_instance p) (p_device_name p) = Some x \<Longrightarrow> x \<in> set (st_jobs (mid n s))" for x
      unfolding get_active_provision_job_def by (drule first_by_SomeD(1)) simp
    show ?thesis
      using Suc.prems True Suc.IH [OF ok] ok at act
      by (auto simp: table_simps Let_def split: option.splits if_splits)
  qed
qed simp

section \<open>Who may end a run\<close>

lemma terminalize_unowned:
  assumes "List.find (ownership k expect ra) (st_jobs s) = None" and "job_terminal status"
  shows "terminalize E now s k status expect ra result err sd go = Inr (s, None)"
  using assms cas_job_status_None [of s k status expect ra]
  by (auto simp: terminalize_def terminal_result_def bindE_def)

lemma fail_run_unowned:
  "List.find (ownership k JRunning (Option.bind reg r_attempt)) (st_jobs s) = None \<Longrightarrow>
   fail_run E now k err reg s = (s, None)"
  by (simp add: fail_run_def mark_job_failed_def terminalize_unowned job_terminal_def)

lemma terminalize_not_live:
  assumes "ids_ok s" and "terminalize E now s k status JRunning ra result err sd go = Inr (s', w)"
  shows "\<not> run_live s' k ra"
  using assms(2)
proof (cases rule: terminalize_cases)
  case refused
  then show ?thesis
    by (cases ra) (auto simp: run_live_def ownership_def find_None_iff)
next
  case (written r' s1 dev s2 n)
  have "map_option j_status (job_by_id s' k) = Some status" "ids_ok s'"
    using terminalize_job_status [OF assms(1)] terminalize_ids_ok [OF assms(1)] assms(2) written(5) by auto
  then show ?thesis
    using written(6)
    by (auto simp: run_live_def ownership_def ids_ok_def row_by_eq_Some_iff job_terminal_def dest: distinct_key_eq)
qed

section \<open>Properties\<close>



text \<open>
  The provision attempt id is an idempotency key.  The job handed out carries the attempt and
  exactly the given parameters; no two jobs ever share an attempt, nor does a node have two
  active provisions.  Repeating the admission, whatever state the job is in, returns the same job
  and inserts nothing; the same attempt with other parameters is refused with that job named.
\<close>

theorem provision_admission_idempotent:
  assumes "provision_ok s" and "\<And>n t. provision_ok t \<Longrightarrow> provision_ok (mid n t)"
    and "enqueue_provision_job now mid pid p s = Inr (s', j, created)"
  shows "provision_ok s' \<and> j \<in> set (st_jobs s') \<and> j_provision_attempt j = Some pid \<and>
    j_context j = Some (params_dump p) \<and>
    enqueue_provision_job now' (\<lambda>_. id) pid q s' =
      (if q = p then Inr (s', j, False) else Inl (ProvisionAttemptConflict ''provision_attempt_mismatch'' (j_id j)))"
proof -
  have eff: "provision_ok s' \<and> j \<in> set (st_jobs s') \<and> j_provision_attempt j = Some pid \<and>
      j_context j = Some (params_dump p)"
    using provision_rounds_effect [OF assms(2,1) assms(3) [unfolded enqueue_provision_job_def]] .
  then have "get_provision_attempt_job s' pid = Some j" using provision_attempt_job_iff by blast
  then have "provision_rounds (Suc (Suc (Suc 0))) now' (\<lambda>_. id) pid q s' =
      (if q = p then Inr (s', j, False) else Inl (ProvisionAttemptConflict ''provision_attempt_mismatch'' (j_id j)))"
    using eff by (auto simp: table_simps Let_def params_dump_inj)
  then show ?thesis using eff by (simp add: enqueue_provision_job_def ADMISSION_RETRIES_def numeral_eq_Suc)
qed

definition sample_params :: provision_params where
  "sample_params = \<lparr>p_nso_instance = ''i'', p_device_name = ''r1'', p_address = ''10.0.0.1'', p_ned_id = ''n'',
     p_authgroup = ''g'', p_netbox_device_id = Some 4, p_ned_type = None, p_port = Some 22, p_admin_state = ''unlocked'',
     p_do_sync = True, p_oob_ip = None\<rparr>"

theorem provision_admission_idempotent_witness:
  "case enqueue_provision_job 60 (\<lambda>_. id) ''pa'' sample_params sample_store of
     Inr (s', j, True) \<Rightarrow> enqueue_provision_job 70 (\<lambda>_. id) ''pa'' sample_params s' = Inr (s', j, False) | _ \<Rightarrow> False"
proof -
  let ?j = "new_job 60 9 JTProvision None False (Some (params_dump sample_params)) (Some ''pa'')"
  have ok: "provision_ok sample_store"
    by (simp add: provision_ok_def sample_store_def sample_job_def active_pair_def)
  have run: "enqueue_provision_job 60 (\<lambda>_. id) ''pa'' sample_params sample_store = Inr (add_job ?j sample_store, ?j, True)"
    by code_simp
  from provision_admission_idempotent [OF ok _ run, of 70 sample_params] show ?thesis by (simp add: run)
qed

lemma find_run_live: "List.find (ownership k JRunning ra) (st_jobs t) = None \<longleftrightarrow> \<not> run_live t k ra"
  by (auto simp: find_None_iff run_live_def)

definition claim_held :: "registration option \<Rightarrow> store \<Rightarrow> bool" where
  "claim_held reg s = (case reg of None \<Rightarrow> True | Some r \<Rightarrow> \<not> isl (lock_claim r s))"

lemma fail_run_over:
  assumes "ids_ok s" and "claim_held reg s" and "fail_run E now k err reg s = (s', None)"
  shows "\<not> run_live s' k (Option.bind reg r_attempt)"
proof (cases "terminalize E now s k JFailed JRunning (Option.bind reg r_attempt) None (Some err) None None")
  case (Inl e)
  then show ?thesis
    using assms(2,3) by (auto simp: fail_run_def mark_job_failed_def claim_held_def split: option.splits if_splits)
next
  case (Inr x)
  then obtain w where "x = (s', w)"
    using assms(2,3) by (cases x) (auto simp: fail_run_def mark_job_failed_def claim_held_def split: option.splits if_splits)
  then show ?thesis using terminalize_not_live [OF assms(1)] Inr by blast
qed

lemma succeed_run_over:
  assumes "ids_ok c" and "ids_ok sess" and "claim_held reg c" and "succeed_run E now k reg r sd c sess = (s', None)"
  shows "\<not> run_live s' k (Option.bind reg r_attempt) \<or> (s' = c \<and> \<not> run_live sess k (Option.bind reg r_attempt))"
proof (cases "terminalize E now sess k JSucceeded JRunning (Option.bind reg r_attempt) (Some r) None sd None")
  case (Inl e)
  then show ?thesis
    using assms(4) fail_run_over [OF assms(1,3)] by (cases e) (auto simp: succeed_run_def)
next
  case (Inr x)
  obtain t w where x: "x = (t, w)" by (cases x)
  have "\<not> run_live t k (Option.bind reg r_attempt)" using terminalize_not_live [OF assms(2)] Inr x by blast
  moreover have "w = None \<Longrightarrow> t = sess" using Inr x by (auto elim!: terminalize_cases)
  ultimately show ?thesis using assms(4) Inr x by (cases w) (auto simp: succeed_run_def)
qed

text \<open>
  A run that lost its job discards its writes.  When the run of \<open>reg\<close> no longer owns a running
  job, neither runner wrapper commits any uncommitted write of the run, however it ended.  When
  the claim is held and the wrapper raises nothing, the run is over afterwards, unless it had
  lost the job and everything it had not committed was discarded.
\<close>

theorem lost_run_discards_writes:
  assumes "runner s = (committed, session, e)" and "job_by_id s k = Some j" and "ids_ok committed" and "ids_ok session"
    and "ra = Option.bind reg r_attempt"
  shows "(\<not> run_live committed k ra \<and> \<not> run_live session k ra \<longrightarrow>
      fst (run_with_db E now k msg reg runner s) = committed \<and> fst (run_provision E now k reg runner s) = committed) \<and>
    (claim_held reg committed \<longrightarrow>
      (\<forall>out \<in> {run_with_db E now k msg reg runner s, run_provision E now k reg runner s}. snd out = None \<longrightarrow>
         \<not> run_live (fst out) k ra \<or> (fst out = committed \<and> \<not> run_live session k ra)))"
proof (intro conjI impI)
  assume "\<not> run_live committed k ra \<and> \<not> run_live session k ra"
  then show "fst (run_with_db E now k msg reg runner s) = committed" "fst (run_provision E now k reg runner s) = committed"
    using assms(1,2,5)
    by (cases e; simp add: run_with_db_def run_provision_def succeed_run_def fail_run_unowned find_run_live
        terminalize_unowned job_terminal_def)+
next
  assume held: "claim_held reg committed"
  have eta: "out = (fst out, None)" if "snd out = None" for out :: "store \<times> exn option"
    using that by (cases out) simp
  note over = fail_run_over [OF assms(3) held eta] succeed_run_over [OF assms(3,4) held eta]
  show "\<forall>out \<in> {run_with_db E now k msg reg runner s, run_provision E now k reg runner s}. snd out = None \<longrightarrow>
      \<not> run_live (fst out) k ra \<or> (fst out = committed \<and> \<not> run_live session k ra)"
    using assms(1,2,5) over
    by (cases e) (auto simp: run_with_db_def run_provision_def split: option.splits if_splits)
qed

theorem lost_run_discards_writes_witness:
  "let reg = Some \<lparr>r_device = Some 1, r_token = Some ''tok'', r_attempt = Some 1\<rparr>;
       dirty = sample_store\<lparr>st_streams := []\<rparr>
   in fst (run_with_db sample_env 60 7 ''t'' reg (\<lambda>s. (s, dirty, Returned [])) sample_store) = sample_store"
proof -
  let ?reg = "Some \<lparr>r_device = Some 1, r_token = Some ''tok'', r_attempt = Some 1\<rparr>"
  let ?dirty = "sample_store\<lparr>st_streams := []\<rparr>"
  have job: "job_by_id sample_store 7 = Some (sample_job 7 JTApply JRunning (Some 1) 2)"
    and ids: "ids_ok sample_store" "ids_ok ?dirty" and ra: "Some 1 = Option.bind ?reg r_attempt" by code_simp+
  have live: "\<not> run_live sample_store 7 (Some 1)" "\<not> run_live ?dirty 7 (Some 1)"
    by (simp_all add: run_live_def ownership_def sample_store_def sample_job_def)
  from lost_run_discards_writes [where runner = "\<lambda>s. (s, ?dirty, Returned [])" and s = sample_store
      and reg = ?reg and E = sample_env and now = 60 and msg = "''t''", OF _ job ids ra] live
  show ?thesis by simp
qed

end
