(* ===== verification/AS_Numbers.thy ===== *)
theory AS_Numbers
  imports Prelude
begin

text \<open>
  AS numbers and NED names: \<open>domain/asn.py\<close> (parsing of asplain and asdot notation, canonical
  identities of rows that name an AS, refusal of rows whose spellings collide) and the NED
  helpers of \<open>nso/neds.py\<close> it relies on.  A raised exception is a value of \<open>asn_error\<close>.
\<close>

section \<open>Strings\<close>

text \<open>\<open>s.split(c)\<close> and \<open>s.split(c, n)\<close>.\<close>

fun split_on :: "char \<Rightarrow> string \<Rightarrow> string list" where
  "split_on c [] = [[]]"
| "split_on c (x # xs) = (if x = c then [] # split_on c xs
     else (case split_on c xs of [] \<Rightarrow> [[x]] | y # ys \<Rightarrow> (x # y) # ys))"

fun split_max :: "char \<Rightarrow> nat \<Rightarrow> string \<Rightarrow> string list" where
  "split_max c n [] = [[]]"
| "split_max c 0 s = [s]"
| "split_max c (Suc n) (x # xs) = (if x = c then [] # split_max c n xs
     else (case split_max c (Suc n) xs of [] \<Rightarrow> [[x]] | y # ys \<Rightarrow> (x # y) # ys))"

definition digit_char :: "int \<Rightarrow> char" where
  "digit_char n = ''0123456789'' ! nat n"

definition digit_val :: "char \<Rightarrow> int" where
  "digit_val c = of_char c - 48"

definition is_digit :: "char \<Rightarrow> bool" where
  "is_digit c = (c \<in> set ''0123456789'')"

text \<open>\<open>str(n)\<close> of a number that is not negative, and \<open>int(s)\<close> of ASCII digits.\<close>

function dec :: "int \<Rightarrow> string" where
  "dec n = (if n < 10 then [digit_char n] else dec (n div 10) @ [digit_char (n mod 10)])"
  by auto
termination by (relation "measure nat") auto

declare dec.simps [simp del]

definition dec_value :: "string \<Rightarrow> int" where
  "dec_value s = foldl (\<lambda>n c. 10 * n + digit_val c) 0 s"

section \<open>Parsing\<close>

definition canonical_part :: "string \<Rightarrow> bool" where
  "canonical_part p = (p \<noteq> [] \<and> list_all is_digit p \<and> (p = ''0'' \<or> hd p \<noteq> CHR ''0''))"

definition parse_asn_text :: "string \<Rightarrow> int option" where
  "parse_asn_text s =
     (let parts = split_on CHR ''.'' s in
      if (length parts = 1 \<or> length parts = 2) \<and> list_all canonical_part parts then
        let limit = (if length parts = 1 then 4294967295 else 65535);
            values = map dec_value parts
        in if list_all (\<lambda>v. v \<le> limit) values
           then Some (if length values = 1 then values ! 0 else values ! 0 * 65536 + values ! 1)
           else None
      else None)"

definition parse_asn :: "json \<Rightarrow> int option" where
  "parse_asn v = (case v of
       JStr s \<Rightarrow> parse_asn_text s
     | JInt i \<Rightarrow> parse_asn_text (if i < 0 then CHR ''-'' # dec (- i) else dec i)
     | _ \<Rightarrow> None)"

section \<open>NED names\<close>

definition NED_FAMILY_MAP :: "(string \<times> string) list" where
  "NED_FAMILY_MAP = [(''cisco-ios-cli'', ''ios''), (''cisco-iosxr-cli'', ''iosxr''), (''cisco-nx-cli'', ''nxos''),
     (''juniper-junos-nc'', ''junos''), (''juniper-junos-evo-nc'', ''junos''), (''timos-nc'', ''timos'')]"

definition starts_with :: "string \<Rightarrow> string \<Rightarrow> bool" where
  "starts_with p s = (take (length p) s = p)"

definition ned_family :: "string \<Rightarrow> string option" where
  "ned_family ned = map_option snd (List.find (\<lambda>(p, _). starts_with p ned) NED_FAMILY_MAP)"

definition lower_char :: "char \<Rightarrow> char" where
  "lower_char c = (let n = (of_char c :: nat) in if 65 \<le> n \<and> n \<le> 90 then char_of (n + 32) else c)"

definition NED_PROTO_TO_TRANSPORT :: "(string \<times> string) list" where
  "NED_PROTO_TO_TRANSPORT = [(''cli'', ''cli''), (''nc'', ''netconf''), (''netconf'', ''netconf''),
     (''gen'', ''generic''), (''generic'', ''generic''), (''snmp'', ''snmp'')]"

text \<open>A split string is never empty, so the source's guard on the segments never fires.\<close>

definition ned_transport :: "string \<Rightarrow> string option" where
  "ned_transport ned =
     (let segs = split_on CHR ''-'' (last (split_on CHR '':'' ned));
          seg = (if list_ex is_digit (last segs) \<and> 2 \<le> length segs then last (butlast segs) else last segs)
      in dget NED_PROTO_TO_TRANSPORT (map lower_char seg))"

definition resolve_device_type :: "string \<Rightarrow> string option \<Rightarrow> string option" where
  "resolve_device_type ned requested = (case ned_transport ned of
       None \<Rightarrow> Some (case requested of None \<Rightarrow> ''cli'' | Some r \<Rightarrow> if r = [] then ''cli'' else r)
     | Some derived \<Rightarrow> (case requested of None \<Rightarrow> Some derived
         | Some r \<Rightarrow> if r \<noteq> derived then None else Some derived))"

section \<open>Rows that name an AS\<close>

text \<open>
  \<open>AsnRuleViolation\<close> carries table, row id, field, value and the other row's id;
  \<open>BgpSourceAsRequired\<close> the NED; \<open>AsnTypeError\<close> is the crash on a reference that is no string.
\<close>

datatype asn_error =
    AsnRuleViolation string json string json "json option"
  | BgpSourceAsRequired "string option"
  | AsnTypeError

definition row_get :: "jdict \<Rightarrow> string \<Rightarrow> json" where
  "row_get row k = (case dget row k of None \<Rightarrow> JNull | Some v \<Rightarrow> v)"

definition row_get_or :: "jdict \<Rightarrow> string \<Rightarrow> json \<Rightarrow> json" where
  "row_get_or row k d = (case dget row k of None \<Rightarrow> d | Some v \<Rightarrow> v)"

definition checked_asn :: "json \<Rightarrow> string \<Rightarrow> json \<Rightarrow> string \<Rightarrow> asn_error + int" where
  "checked_asn v table row_id field = (case parse_asn v of
     Some n \<Rightarrow> Inr n | None \<Rightarrow> Inl (AsnRuleViolation table row_id field v None))"

definition checked_intent_source_ref :: "string \<Rightarrow> string option \<Rightarrow> asn_error + string" where
  "checked_intent_source_ref v ned =
     (if v = [] then
        (if ned_family (case ned of None \<Rightarrow> [] | Some n \<Rightarrow> n) \<in> {Some ''junos'', Some ''timos''} then Inr []
         else Inl (BgpSourceAsRequired ned))
      else bindE (checked_asn (JStr v) ''redistribution_intent'' JNull ''source_ref'') (\<lambda>n. Inr (dec n)))"

definition redistribution_source_identity :: "string \<Rightarrow> string \<Rightarrow> string option" where
  "redistribution_source_identity protocol ref =
     (if protocol = ''bgp'' \<and> ref \<noteq> [] then map_option dec (parse_asn_text ref) else Some ref)"

definition checked_device_source_ref :: "json \<Rightarrow> string \<Rightarrow> json \<Rightarrow> string \<Rightarrow> asn_error + string" where
  "checked_device_source_ref v table row_id field =
     (if v = JStr [] then Inr [] else bindE (checked_asn v table row_id field) (\<lambda>n. Inr (dec n)))"

definition check_peer_field :: "string \<Rightarrow> jdict \<Rightarrow> string \<Rightarrow> asn_error + unit" where
  "check_peer_field table row field =
     (if row_get row field = JNull then Inr ()
      else bindE (checked_asn (row_get row field) table (row_get row ''id'') field) (\<lambda>_. Inr ()))"

definition destination_identity :: "string \<Rightarrow> jdict \<Rightarrow> asn_error + json" where
  "destination_identity table row =
     (let dest = row_get_or row ''dest_ref'' (JStr []) in
      if row_get row ''dest_protocol'' \<noteq> JStr ''bgp'' then Inr dest
      else case dest of
        JStr d \<Rightarrow>
          let parts = split_max (if table = ''redistribution_intent'' then CHR '':'' else CHR ''/'') 2 d in
          if length parts \<noteq> 3 \<and> (table = ''redistribution_intent'' \<or> length parts \<noteq> 2)
          then Inl (AsnRuleViolation table (row_get row ''id'') ''dest_ref'' dest None)
          else bindE (checked_asn (JStr (hd parts)) table (row_get row ''id'') ''dest_ref'')
                 (\<lambda>n. Inr (JList (JInt n # map JStr (tl parts))))
      | _ \<Rightarrow> Inl AsnTypeError)"

definition source_identity :: "string \<Rightarrow> jdict \<Rightarrow> asn_error + json" where
  "source_identity table row =
     (let src = row_get_or row ''source_ref'' (JStr []); rid = row_get row ''id'' in
      if row_get row ''source_protocol'' \<noteq> JStr ''bgp'' then Inr src
      else if table = ''device_redistribution''
      then bindE (checked_device_source_ref src table rid ''source_ref'') (\<lambda>r. Inr (JStr r))
      else if src \<noteq> JStr [] then bindE (checked_asn src table rid ''source_ref'') (\<lambda>n. Inr (JInt n))
      else Inr src)"

definition asn_row_identity :: "string \<Rightarrow> jdict \<Rightarrow> asn_error + json list option" where
  "asn_row_identity table row =
     (if table = ''bgp_router_intent'' \<or> table = ''device_bgp_router'' then
        bindE (checked_asn (row_get row ''asn'') table (row_get row ''id'') ''asn'') (\<lambda>n. Inr (Some [JInt n]))
      else if table = ''bgp_peer_intent'' \<or> table = ''device_bgp_peer'' \<or> table = ''device_bgp_peer_group'' then
        bindE (check_peer_field table row ''remote_as'') (\<lambda>_.
        bindE (check_peer_field table row ''local_as'') (\<lambda>_. Inr None))
      else if table = ''redistribution_intent'' \<or> table = ''device_redistribution'' then
        bindE (destination_identity table row) (\<lambda>d.
        bindE (source_identity table row) (\<lambda>src.
          Inr (Some [row_get row ''dest_protocol'', d, row_get row ''source_protocol'', src])))
      else Inr None)"

text \<open>
  \<open>ned\<close> is \<open>None\<close> when the caller gives no NED context.  The intent reference check reads
  \<open>source_ref\<close> as a string.
\<close>

definition check_intent_source :: "string \<Rightarrow> string option option \<Rightarrow> jdict \<Rightarrow> asn_error + unit" where
  "check_intent_source table ned row = (case ned of None \<Rightarrow> Inr ()
     | Some n \<Rightarrow>
        if table = ''redistribution_intent'' \<and> row_get row ''source_protocol'' = JStr ''bgp'' then
          (case row_get_or row ''source_ref'' (JStr []) of
             JStr v \<Rightarrow> bindE (checked_intent_source_ref v n) (\<lambda>_. Inr ())
           | v \<Rightarrow> bindE (checked_asn v ''redistribution_intent'' JNull ''source_ref'') (\<lambda>_. Inr ()))
        else Inr ())"

definition same_spelling :: "jdict \<Rightarrow> jdict \<Rightarrow> bool" where
  "same_spelling a b = list_all (\<lambda>f. row_get a f = row_get b f) [''asn'', ''dest_ref'', ''source_ref'']"

definition collision_field :: "jdict \<Rightarrow> jdict \<Rightarrow> string" where
  "collision_field prev row = (if dhas row ''asn'' then ''asn''
     else if row_get prev ''dest_ref'' \<noteq> row_get row ''dest_ref'' then ''dest_ref'' else ''source_ref'')"

definition validate_asn_row ::
  "string \<Rightarrow> string option option \<Rightarrow> (json list \<times> jdict) list \<Rightarrow> jdict \<Rightarrow> asn_error + (json list \<times> jdict) list" where
  "validate_asn_row table ned seen row =
     bindE (asn_row_identity table row) (\<lambda>identity.
     bindE (check_intent_source table ned row) (\<lambda>_.
       case identity of None \<Rightarrow> Inr seen
       | Some i \<Rightarrow> (case dget seen i of
           None \<Rightarrow> Inr (dset seen i row)
         | Some prev \<Rightarrow> if same_spelling prev row then Inr seen
             else let f = collision_field prev row in
               Inl (AsnRuleViolation table (row_get row ''id'') f (row_get row f) (Some (row_get prev ''id''))))))"

definition validate_asn_rows :: "string \<Rightarrow> string option option \<Rightarrow> jdict list \<Rightarrow> asn_error + unit" where
  "validate_asn_rows table ned rows = bindE (foldE (validate_asn_row table ned) [] rows) (\<lambda>_. Inr ())"

section \<open>Decimal numerals\<close>

lemma digit_char_props [simp]:
  assumes "0 \<le> n" and "n < 10"
  shows "is_digit (digit_char n)" "digit_val (digit_char n) = n" "digit_char n = CHR ''0'' \<longleftrightarrow> n = 0"
    "digit_char n \<noteq> CHR ''.''"
proof -
  have "n \<in> {0,1,2,3,4,5,6,7,8,9}" using assms by simp presburger
  then show "is_digit (digit_char n)" "digit_val (digit_char n) = n" "digit_char n = CHR ''0'' \<longleftrightarrow> n = 0"
    "digit_char n \<noteq> CHR ''.''"
    by (auto simp: is_digit_def digit_char_def digit_val_def)
qed

lemma digit_char_val:
  assumes "is_digit c"
  shows "0 \<le> digit_val c" "digit_val c < 10" "digit_char (digit_val c) = c" "c \<noteq> CHR ''.''"
  using assms by (auto simp: is_digit_def digit_char_def digit_val_def)

lemma dec_value_snoc [simp]: "dec_value (s @ [c]) = 10 * dec_value s + digit_val c"
  by (simp add: dec_value_def)

lemma dec_value_Nil [simp]: "dec_value [] = 0"
  by (simp add: dec_value_def)

lemma dec_ne [simp]: "dec n \<noteq> []"
  by (subst dec.simps) simp

lemma dec_value_dec [simp]: "0 \<le> n \<Longrightarrow> dec_value (dec n) = n"
proof (induction n rule: dec.induct)
  case (1 n)
  then show ?case
    by (subst dec.simps) (auto simp: dec_value_def)
qed

lemma dec_digits: "0 \<le> n \<Longrightarrow> list_all is_digit (dec n)"
proof (induction n rule: dec.induct)
  case (1 n)
  then show ?case by (subst dec.simps) auto
qed

lemma dec_hd: "0 < n \<Longrightarrow> hd (dec n) \<noteq> CHR ''0''"
proof (induction n rule: dec.induct)
  case (1 n)
  show ?case
  proof (cases "n < 10")
    case True
    then show ?thesis using 1 by (subst dec.simps) simp
  next
    case False
    then have "hd (dec n) = hd (dec (n div 10))" by (subst dec.simps) (simp add: hd_append)
    then show ?thesis using 1 False by simp
  qed
qed

lemma dec_canonical: "0 \<le> n \<Longrightarrow> canonical_part (dec n)"
proof (cases "n = 0")
  case True
  have "dec 0 = ''0''" by (subst dec.simps) (simp add: digit_char_def)
  then show ?thesis using True by (simp add: canonical_part_def is_digit_def)
next
  case False
  moreover assume "0 \<le> n"
  ultimately show ?thesis by (simp add: canonical_part_def dec_digits dec_hd)
qed

lemma dec_value_nonneg: "list_all is_digit p \<Longrightarrow> 0 \<le> dec_value p"
  by (induction p rule: rev_induct) (auto dest: digit_char_val(1))

lemma canonical_dec: "canonical_part p \<Longrightarrow> p = dec (dec_value p)"
proof (induction p rule: rev_induct)
  case Nil
  then show ?case by (simp add: canonical_part_def)
next
  case (snoc c p)
  have c: "is_digit c" using snoc.prems by (simp add: canonical_part_def)
  show ?case
  proof (cases "p = []")
    case True
    then show ?thesis using digit_char_val [OF c] by (subst dec.simps) (simp add: dec_value_def)
  next
    case False
    have can: "canonical_part p"
      using snoc.prems False by (auto simp: canonical_part_def hd_append)
    have "hd p \<noteq> CHR ''0''"
      using snoc.prems False by (auto simp: canonical_part_def hd_append)
    then have "p \<noteq> dec 0" by (subst dec.simps) (auto simp: digit_char_def)
    then have "dec_value p \<noteq> 0" using snoc.IH [OF can] by metis
    moreover have "0 \<le> dec_value p" using can by (intro dec_value_nonneg) (simp add: canonical_part_def)
    ultimately have "\<not> 10 * dec_value p + digit_val c < 10" "(10 * dec_value p + digit_val c) div 10 = dec_value p"
      "(10 * dec_value p + digit_val c) mod 10 = digit_val c"
      using digit_char_val(1,2) [OF c] by auto
    then show ?thesis
      using snoc.IH [OF can] digit_char_val(3) [OF c] by (subst dec.simps) simp
  qed
qed

lemma split_on_ne [simp]: "split_on c s \<noteq> []"
  by (induction s) (auto split: list.splits)

lemma split_on_none: "c \<notin> set s \<Longrightarrow> split_on c s = [s]"
  by (induction s) auto

lemma split_on_append: "c \<notin> set a \<Longrightarrow> split_on c (a @ c # b) = a # split_on c b"
  by (induction a) auto

lemma split_on_one: "split_on c s = [p] \<Longrightarrow> s = p"
  by (induction s arbitrary: p) (auto split: if_splits list.splits)

lemma split_on_two: "split_on c s = [p, q] \<Longrightarrow> s = p @ c # q"
  by (induction s arbitrary: p) (auto split: if_splits list.splits dest: split_on_one)

lemma digits_no_dot: "list_all is_digit s \<Longrightarrow> CHR ''.'' \<notin> set s"
  by (auto simp: list_all_iff dest: digit_char_val(4))

section \<open>Validated rows\<close>

lemma same_spelling_refl [simp]: "same_spelling a a"
  by (simp add: same_spelling_def)

lemma same_spelling_trans: "same_spelling a b \<Longrightarrow> same_spelling a c \<Longrightarrow> same_spelling b c"
  by (simp add: same_spelling_def)

text \<open>What the fold keeps: \<open>seen\<close> holds, for every identity met, a row spelled like all of them.\<close>

lemma validate_fold:
  "foldE (validate_asn_row table ned) seen rows = Inr seen' \<Longrightarrow>
   (\<forall>i r. dget seen i = Some r \<longrightarrow> dget seen' i = Some r) \<and>
   (\<forall>r \<in> set rows. \<forall>i. asn_row_identity table r = Inr (Some i) \<longrightarrow>
      (\<exists>p. dget seen' i = Some p \<and> same_spelling p r))"
proof (induction rows arbitrary: seen)
  case (Cons row rows)
  obtain s1 where s1: "validate_asn_row table ned seen row = Inr s1"
    and rest: "foldE (validate_asn_row table ned) s1 rows = Inr seen'"
    using Cons.prems by (auto simp: bindE_eq_Inr)
  obtain oi where oi: "asn_row_identity table row = Inr oi"
    using s1 by (auto simp: validate_asn_row_def bindE_eq_Inr)
  have step: "(\<forall>i r. dget seen i = Some r \<longrightarrow> dget s1 i = Some r) \<and>
      (\<forall>i. oi = Some i \<longrightarrow> (\<exists>p. dget s1 i = Some p \<and> same_spelling p row))"
    using s1 oi by (auto simp: validate_asn_row_def bindE_eq_Inr Let_def split: option.splits if_splits)
  show ?case
  proof (intro conjI allI ballI impI)
    fix i r
    assume "dget seen i = Some r"
    then show "dget seen' i = Some r" using Cons.IH [OF rest] step by blast
  next
    fix r i
    assume r: "r \<in> set (row # rows)" and i: "asn_row_identity table r = Inr (Some i)"
    show "\<exists>p. dget seen' i = Some p \<and> same_spelling p r"
    proof (cases "r = row")
      case True
      then show ?thesis using Cons.IH [OF rest] step oi i by auto
    next
      case False
      then show ?thesis using Cons.IH [OF rest] r i by auto
    qed
  qed
qed simp

section \<open>Properties\<close>

text \<open>
  C40. An AS number has exactly two spellings.  The parser accepts a text as the number \<open>n\<close> if and
  only if \<open>n\<close> fits 32 bits and the text is its plain decimal form or its asdot form, high half,
  dot, low half, both without leading zeros.
\<close>

theorem as_number_has_two_spellings:
  "parse_asn_text s = Some n \<longleftrightarrow> 0 \<le> n \<and> n < 2 ^ 32 \<and> (s = dec n \<or> s = dec (n div 65536) @ CHR ''.'' # dec (n mod 65536))"
proof
  assume L: "parse_asn_text s = Some n"
  then consider (one) p where "split_on CHR ''.'' s = [p]" "canonical_part p" "dec_value p = n" "n \<le> 4294967295"
    | (two) p q where "split_on CHR ''.'' s = [p, q]" "canonical_part p" "canonical_part q"
        "n = dec_value p * 65536 + dec_value q" "dec_value p \<le> 65535" "dec_value q \<le> 65535"
    by (auto simp: parse_asn_text_def Let_def length_Suc_conv numeral_2_eq_2 split: if_splits)
  then show "0 \<le> n \<and> n < 2 ^ 32 \<and> (s = dec n \<or> s = dec (n div 65536) @ CHR ''.'' # dec (n mod 65536))"
  proof cases
    case one
    have "0 \<le> n" using one(2,3) dec_value_nonneg [of p] by (simp add: canonical_part_def)
    then show ?thesis using one split_on_one [OF one(1)] canonical_dec [OF one(2)] by simp
  next
    case two
    have nn: "0 \<le> dec_value p" "0 \<le> dec_value q"
      using two(2,3) by (auto intro!: dec_value_nonneg simp: canonical_part_def)
    have "n div 65536 = dec_value p" "n mod 65536 = dec_value q" using two nn by simp_all
    then show ?thesis
      using two nn split_on_two [OF two(1)] canonical_dec [OF two(2)] canonical_dec [OF two(3)] by simp
  qed
next
  assume R: "0 \<le> n \<and> n < 2 ^ 32 \<and> (s = dec n \<or> s = dec (n div 65536) @ CHR ''.'' # dec (n mod 65536))"
  have nodot: "0 \<le> m \<Longrightarrow> CHR ''.'' \<notin> set (dec m)" for m by (rule digits_no_dot [OF dec_digits])
  have "0 \<le> n div 65536" "n div 65536 \<le> 65535" "0 \<le> n mod 65536" "n mod 65536 \<le> 65535"
    using R zdiv_mono1 [of n 4294967295 65536] pos_mod_bound [of 65536 n] by (auto simp: pos_imp_zdiv_nonneg_iff)
  moreover have "n div 65536 * 65536 + n mod 65536 = n" by simp
  ultimately
  show "parse_asn_text s = Some n"
    using R nodot by (auto simp: parse_asn_text_def split_on_none split_on_append dec_canonical)
qed

text \<open>
  Accepted rows agree on the spelling of every AS.  When the validation of a table accepts its
  rows, any two of them with the same canonical identity spell it the same way, so no AS is
  stored twice under different notations.
\<close>

theorem accepted_rows_agree_on_spelling:
  assumes "validate_asn_rows table ned rows = Inr ()" and "a \<in> set rows" and "b \<in> set rows"
    and "asn_row_identity table a = Inr (Some i)" and "asn_row_identity table b = Inr (Some i)"
  shows "same_spelling a b"
proof -
  obtain seen where "foldE (validate_asn_row table ned) [] rows = Inr seen"
    using assms(1) by (auto simp: validate_asn_rows_def bindE_eq_Inr)
  from validate_fold [OF this] assms(2-5)
  obtain p q where "dget seen i = Some p" "same_spelling p a" "dget seen i = Some q" "same_spelling q b" by blast
  then show ?thesis by (auto intro: same_spelling_trans)
qed

definition sample_router :: "int \<Rightarrow> json \<Rightarrow> jdict" where
  "sample_router k v = [(''id'', JInt k), (''asn'', v)]"

theorem accepted_rows_agree_on_spelling_witness:
  "same_spelling (sample_router 1 (JStr ''64512.1'')) (sample_router 2 (JStr ''64512.1'')) \<and>
   isl (validate_asn_rows ''bgp_router_intent'' None [sample_router 1 (JStr ''0.5''), sample_router 2 (JStr ''5'')])"
proof -
  let ?rows = "[sample_router 1 (JStr ''64512.1''), sample_router 2 (JStr ''64512.1'')]"
  have "validate_asn_rows ''bgp_router_intent'' None ?rows = Inr ()"
    "asn_row_identity ''bgp_router_intent'' (sample_router 1 (JStr ''64512.1'')) = Inr (Some [JInt 4227858433])"
    "asn_row_identity ''bgp_router_intent'' (sample_router 2 (JStr ''64512.1'')) = Inr (Some [JInt 4227858433])"
    "isl (validate_asn_rows ''bgp_router_intent'' None [sample_router 1 (JStr ''0.5''), sample_router 2 (JStr ''5'')])"
    by code_simp+
  with accepted_rows_agree_on_spelling [of "''bgp_router_intent''" None ?rows] show ?thesis by simp
qed

end
