(* ===== verification/Section_Registry.thy ===== *)
theory Section_Registry
  imports AS_Numbers
begin

text \<open>
  The write-side vocabulary: the section registry of \<open>core/projection.py\<close> (which intent tables,
  container, reader family, guard lists and counters a document section has), the streams that
  own its tables, the endpoint registry of \<open>core/intent_protocol.py\<close>, and the checks both run
  on each other at startup.

  A table carries the identity \<open>_identity_fields\<close> derives from its unique constraint and the
  foreign-key column \<open>_fk_column\<close> finds.  The encoders and verification dispositions of a
  section are functions on documents and are not part of an entry here.  A raised
  \<open>RuntimeError\<close> or \<open>ValueError\<close> is \<open>None\<close>.
\<close>

record table_spec =
  ts_table :: string
  ts_parent :: "(string \<times> string) option"
  ts_discriminator :: "(string \<times> string) option"
  ts_identity :: "string list"
  ts_lifecycle :: bool

record guard_list =
  gl_label :: string
  gl_path :: "string list"
  gl_keys :: "string list"
  gl_parent_key :: "string option"
  gl_scalar :: bool
  gl_presence :: bool

record section_entry =
  sec_tables :: "table_spec list"
  sec_container :: string
  sec_read_family :: string
  sec_guard_lists :: "guard_list list"
  sec_capability_scopes :: "string list"
  sec_result_keys :: "string list"
  sec_residue_labels :: "string list"

definition root_table :: "string \<Rightarrow> string list \<Rightarrow> table_spec" where
  "root_table t ident = \<lparr>ts_table = t, ts_parent = None, ts_discriminator = None, ts_identity = ident,
     ts_lifecycle = False\<rparr>"

definition child_table :: "string \<Rightarrow> string \<Rightarrow> string \<Rightarrow> string list \<Rightarrow> table_spec" where
  "child_table t parent fk ident = (root_table t ident)\<lparr>ts_parent := Some (parent, fk)\<rparr>"

definition redistribution_table :: "string \<Rightarrow> table_spec" where
  "redistribution_table proto = (root_table ''redistribution_intent''
     [''dest_protocol'', ''dest_ref'', ''source_protocol'', ''source_ref''])\<lparr>ts_discriminator := Some (''dest_protocol'', proto)\<rparr>"

definition guard :: "string \<Rightarrow> string list \<Rightarrow> string list \<Rightarrow> guard_list" where
  "guard label path keys = \<lparr>gl_label = label, gl_path = path, gl_keys = keys, gl_parent_key = None,
     gl_scalar = False, gl_presence = False\<rparr>"

definition section_of :: "table_spec list \<Rightarrow> string \<Rightarrow> string \<Rightarrow> guard_list list \<Rightarrow> section_entry" where
  "section_of tables container family guards = \<lparr>sec_tables = tables, sec_container = container,
     sec_read_family = family, sec_guard_lists = guards, sec_capability_scopes = [], sec_result_keys = [],
     sec_residue_labels = []\<rparr>"

section \<open>The registry\<close>

definition snmp_section :: section_entry where
  "snmp_section = section_of
     [root_table ''snmp_community_intent'' [''label''], root_table ''snmp_v3_user_intent'' [''username''],
      root_table ''snmp_host_intent'' [''address''], root_table ''snmp_system_info_intent'' []]
     ''snmp'' ''snmp''
     [guard ''community'' [''community''] [''name''], guard ''v3-user'' [''v3-user''] [''username''],
      guard ''host'' [''host''] [''address'']]"

definition static_route_section :: section_entry where
  "static_route_section = section_of
     [root_table ''static_route_intent'' [''vrf'', ''prefix'', ''next_hop''],
      (root_table ''static_route_tombstone''
         [''route_id'', ''vrf'', ''prefix'', ''next_hop'', ''marking'', ''created_at''])\<lparr>ts_lifecycle := True\<rparr>]
     ''static-route'' ''static_route'' [guard ''route'' [''route''] [''vrf'', ''prefix'', ''next-hop'']]"

definition isis_section :: section_entry where
  "isis_section = section_of
     [root_table ''isis_process_intent'' [''process_tag''], root_table ''isis_interface_intent'' [''interface_name'', ''af''],
      root_table ''isis_level_intent'' [''process_tag'', ''level''],
      root_table ''isis_flex_algo_intent'' [''process_tag'', ''algo_id''], redistribution_table ''isis'']
     ''isis'' ''isis''
     [guard ''interface-config'' [''interface-config''] [''interface-name'', ''af''],
      guard ''process-config'' [''process-config''] [''process-tag'']]"

definition bgp_section :: section_entry where
  "bgp_section = section_of
     [root_table ''bgp_router_intent'' [''asn''],
      child_table ''bgp_scope_intent'' ''bgp_router_intent'' ''router_id'' [''vrf''],
      child_table ''bgp_af_intent'' ''bgp_scope_intent'' ''scope_id'' [''af''],
      child_table ''bgp_peer_intent'' ''bgp_scope_intent'' ''scope_id'' [''peer_address''],
      child_table ''bgp_peer_af_intent'' ''bgp_peer_intent'' ''peer_id'' [''af''], redistribution_table ''bgp'']
     ''bgp'' ''bgp''
     [guard ''router'' [''router''] [''asn''], guard ''peer'' [''router'', ''scope'', ''peer''] [''peer-address'']]"

definition ospf_section :: section_entry where
  "ospf_section = section_of
     [root_table ''ospf_instance_intent'' [''process_id''], root_table ''ospf_interface_intent'' [''interface_name''],
      redistribution_table ''ospf'']
     ''ospf'' ''ospf''
     [guard ''interface-config'' [''interface-config''] [''interface-name''],
      guard ''process-config'' [''process-config''] [''process-id'']]"

definition switchport_section :: section_entry where
  "switchport_section = section_of
     [root_table ''switchport_intent'' [''interface_name''],
      child_table ''switchport_tagged_vlan_intent'' ''switchport_intent'' ''switchport_id'' [''vlan_id'']]
     ''switchport'' ''switchport''
     [guard ''switchport_intent'' [''interface''] [''interface-name''],
      (guard ''switchport_tagged_vlan_intent'' [''interface'', ''tagged-vlan''] [])
        \<lparr>gl_parent_key := Some ''interface-name'', gl_scalar := True\<rparr>]"

definition lag_section :: section_entry where
  "lag_section = section_of
     [root_table ''lag_bundle_intent'' [''name''],
      child_table ''lag_member_intent'' ''lag_bundle_intent'' ''lag_bundle_id'' [''interface_name'']]
     ''lag'' ''lag_config''
     [guard ''lag_bundle_intent'' [''bundle''] [''name''],
      (guard ''lag_member_intent'' [''bundle'', ''member''] [''interface-name''])\<lparr>gl_parent_key := Some ''name''\<rparr>]"

definition interface_config_section :: section_entry where
  "interface_config_section = (section_of
     [child_table ''interface_intent'' ''interfaces'' ''interface_id'' [''attribute''],
      child_table ''interface_ip_intent'' ''interfaces'' ''interface_id'' [''address'', ''vrf'']]
     ''interface'' ''interface_ip''
     ([guard ''interface'' [''interface''] [''interface-name''],
       (guard ''ipv4-address'' [''interface'', ''ipv4-address''] [''address''])\<lparr>gl_parent_key := Some ''interface-name''\<rparr>,
       (guard ''ipv6-address'' [''interface'', ''ipv6-address''] [''address''])\<lparr>gl_parent_key := Some ''interface-name''\<rparr>] @
      map (\<lambda>a. (guard a [''interface'', a] [])\<lparr>gl_parent_key := Some ''interface-name'', gl_presence := True\<rparr>)
        [''description'', ''enabled'']))
     \<lparr>sec_capability_scopes := [''interface_attribute'', ''interface_ip''], sec_result_keys := [''attribute'', ''ip''],
      sec_residue_labels := [''address'']\<rparr>"

definition SECTION_REGISTRY :: "(string \<times> section_entry) list" where
  "SECTION_REGISTRY = [
     (''snmp'', snmp_section),
     (''static_route'', static_route_section),
     (''logging'', section_of [root_table ''logging_host_intent'' [''address''], root_table ''logging_levels_intent'' []]
        ''logging'' ''logging'' [guard ''host'' [''host''] [''address'']]),
     (''svi'', section_of [root_table ''svi_intent'' [''interface_name'']] ''svi'' ''svi''
        [guard ''interface'' [''interface''] [''interface-name'']]),
     (''subinterface'', section_of [root_table ''subinterface_intent'' [''interface_name'']] ''subinterface'' ''subinterface''
        [guard ''interface'' [''interface''] [''interface-name'']]),
     (''vlan'', section_of [root_table ''vlan_intent'' [''vlan_id'']] ''vlan'' ''vlan'' [guard ''vlan'' [''vlan''] [''vlan-id'']]),
     (''bfd'', section_of [root_table ''bfd_intent'' [''interface_name'']] ''bfd'' ''bfd''
        [guard ''interface'' [''interface''] [''interface-name'']]),
     (''interface_mtu'', section_of [root_table ''interface_mtu_intent'' [''interface_name'']] ''mtu'' ''interface_mtu''
        [guard ''interface'' [''interface''] [''interface-name'']]),
     (''l2_sap'', section_of [root_table ''l2_sap_intent'' [''service_name'', ''sap_id'']] ''l2-sap'' ''l2_service''
        [guard ''sap'' [''sap''] [''service-name'', ''sap-id'']]),
     (''isis'', isis_section),
     (''bgp'', bgp_section),
     (''route_policy'', section_of [root_table ''route_policy_object_intent'' [''family'', ''name'']] ''route-policy'' ''route_policy''
        [guard ''prefix-list'' [''prefix-list''] [''name''], guard ''community-list'' [''community-list''] [''name''],
         guard ''as-path'' [''as-path''] [''name''], guard ''route-map'' [''route-map''] [''name'']]),
     (''ospf'', ospf_section),
     (''switchport'', switchport_section),
     (''lag'', lag_section),
     (''interface_config'', interface_config_section)]"

definition section_registry :: "(string \<times> section_entry) list" where
  "section_registry = map (\<lambda>(s, e). (s, e\<lparr>
     sec_capability_scopes := (if sec_capability_scopes e = [] then [s] else sec_capability_scopes e),
     sec_result_keys := (if sec_result_keys e = [] then [s] else sec_result_keys e)\<rparr>)) SECTION_REGISTRY"

definition removal_authority_labels :: "section_entry \<Rightarrow> string set" where
  "removal_authority_labels e = set (sec_residue_labels e) \<union> set (map gl_label (sec_guard_lists e))"

definition spec_or_refuse :: "string \<Rightarrow> table_spec option" where
  "spec_or_refuse table = List.find (\<lambda>t. ts_table t = table) (concat (map (\<lambda>(_, e). sec_tables e) SECTION_REGISTRY))"

section \<open>Streams\<close>

record split_section =
  sp_owner :: string
  sp_streams :: "(string \<times> string list) list"

definition SPLIT_SECTION_STREAMS :: "(string \<times> split_section) list" where
  "SPLIT_SECTION_STREAMS = [
     (''interface_config'', \<lparr>sp_owner = ''interface_config'',
        sp_streams = [(''interface_config'', [''interface_intent'']), (''ip'', [''interface_ip_intent''])]\<rparr>),
     (''isis'', \<lparr>sp_owner = ''isis'',
        sp_streams = [(''isis'', [''isis_process_intent'', ''isis_interface_intent'', ''isis_level_intent'', ''redistribution_intent'']),
          (''isis_flex_algo'', [''isis_flex_algo_intent''])]\<rparr>)]"

definition STREAM_RESULT_KEYS :: "(string \<times> string) list" where
  "STREAM_RESULT_KEYS = [(''interface_config'', ''attribute''), (''ip'', ''ip'')]"

definition split_ok :: "section_entry \<Rightarrow> split_section \<Rightarrow> bool" where
  "split_ok e sp = (sort (concat (map snd (sp_streams sp))) = sort (map ts_table (sec_tables e)) \<and>
     dhas (sp_streams sp) (sp_owner sp))"

text \<open>The streams of one section, each with the tables it owns.\<close>

definition section_stream_tables :: "string \<Rightarrow> section_entry \<Rightarrow> (string \<times> table_spec list) list option" where
  "section_stream_tables s e = (case dget SPLIT_SECTION_STREAMS s of
       None \<Rightarrow> Some [(s, sec_tables e)]
     | Some sp \<Rightarrow> if \<not> split_ok e sp then None
         else Some (map (\<lambda>(stream, models). (stream, concat (map (\<lambda>m.
                filter (\<lambda>t. ts_table t = m) (sec_tables e)) models))) (sp_streams sp)))"

fun collect :: "('a list) option list \<Rightarrow> 'a list option" where
  "collect [] = Some []"
| "collect (x # xs) = (case x of None \<Rightarrow> None | Some a \<Rightarrow> map_option (append a) (collect xs))"

definition stream_tables_map :: "(string \<times> table_spec list) list option" where
  "stream_tables_map = collect (map (\<lambda>(s, e). section_stream_tables s e) SECTION_REGISTRY)"

definition stream_owner :: "(string \<times> string) list" where
  "stream_owner = concat (map (\<lambda>(s, sp). map (\<lambda>(stream, _). (stream, s)) (sp_streams sp)) SPLIT_SECTION_STREAMS)"

definition stream_section_map :: "(string \<times> string) list option" where
  "stream_section_map = map_option (map (\<lambda>(stream, _). (stream,
     case dget stream_owner stream of None \<Rightarrow> stream | Some s \<Rightarrow> s))) stream_tables_map"

section \<open>The intent protocol\<close>

definition INTENT_PUT_ENDPOINTS :: "(string \<times> string \<times> string) list" where
  "INTENT_PUT_ENDPOINTS = [
     (''/api/v1/devices/{device_id}/bfd-intent'', ''bfd'', ''bfd''),
     (''/api/v1/devices/{device_id}/bgp-intent'', ''bgp'', ''bgp''),
     (''/api/v1/devices/{device_id}/intent'', ''interface_config'', ''interface_config''),
     (''/api/v1/devices/{device_id}/interface-mtu-intent'', ''interface_mtu'', ''interface_mtu''),
     (''/api/v1/devices/{device_id}/ip-intent'', ''ip'', ''interface_config''),
     (''/api/v1/devices/{device_id}/isis-flex-algo-intent'', ''isis_flex_algo'', ''isis''),
     (''/api/v1/devices/{device_id}/isis-interface-intent'', ''isis'', ''isis''),
     (''/api/v1/devices/{device_id}/l2-sap-intent'', ''l2_sap'', ''l2_sap''),
     (''/api/v1/devices/{device_id}/logging-intent'', ''logging'', ''logging''),
     (''/api/v1/devices/{device_id}/ospf-intent'', ''ospf'', ''ospf''),
     (''/api/v1/devices/{device_id}/route-policy-intent'', ''route_policy'', ''route_policy''),
     (''/api/v1/devices/{device_id}/snmp-intent'', ''snmp'', ''snmp''),
     (''/api/v1/devices/{device_id}/static-route-intent'', ''static_route'', ''static_route''),
     (''/api/v1/devices/{device_id}/subinterface-intent'', ''subinterface'', ''subinterface''),
     (''/api/v1/devices/{device_id}/svi-intent'', ''svi'', ''svi''),
     (''/api/v1/devices/{device_id}/vlan-intent'', ''vlan'', ''vlan'')]"

definition OUT_OF_PROTOCOL_APPLY_POSTS :: "(string \<times> string) list" where
  "OUT_OF_PROTOCOL_APPLY_POSTS = [(''/api/v1/devices/{device_id}/lag-config/apply'', ''lag''),
     (''/api/v1/devices/{device_id}/switchport/apply'', ''switchport'')]"

definition OUT_OF_PROTOCOL_STREAMS :: "string list" where
  "OUT_OF_PROTOCOL_STREAMS = map snd OUT_OF_PROTOCOL_APPLY_POSTS"

definition INTENT_STREAMS :: "string list" where
  "INTENT_STREAMS = map (\<lambda>(_, stream, _). stream) INTENT_PUT_ENDPOINTS"

definition CLAIM_LESS_SECTIONS :: "string list" where
  "CLAIM_LESS_SECTIONS = [''switchport'', ''lag'']"

definition intent_endpoint :: "string \<Rightarrow> (string \<times> string) option" where
  "intent_endpoint path = dget INTENT_PUT_ENDPOINTS path"

definition ENGINE_FAMILY_KEYS :: "string list" where
  "ENGINE_FAMILY_KEYS = [''lag'', ''logging'', ''snmp'', ''bgp'', ''svi'', ''subinterface'', ''interface_ip'', ''isis'',
     ''vlan'', ''switchport'', ''bfd'', ''l2_service'', ''static_route'', ''interface_mtu'', ''lag_config'', ''ospf'', ''route_policy'']"

section \<open>Startup validation\<close>

definition same_set :: "string list \<Rightarrow> string list \<Rightarrow> bool" where
  "same_set a b = (list_all (\<lambda>x. x \<in> set b) a \<and> list_all (\<lambda>x. x \<in> set a) b)"

definition stream_result_key_of :: "string \<Rightarrow> string \<Rightarrow> string option" where
  "stream_result_key_of stream sec = (case dget section_registry sec of None \<Rightarrow> None
     | Some e \<Rightarrow>
         let keys = sec_result_keys e;
             key = (if length keys = 1 then Some (hd keys) else dget STREAM_RESULT_KEYS stream)
         in (case key of None \<Rightarrow> None | Some k \<Rightarrow> if k \<in> set keys then Some k else None))"

definition validate_section_registry :: "(string \<times> string) list \<Rightarrow> string list \<Rightarrow> bool" where
  "validate_section_registry ssec out_of_protocol =
     (list_all (\<lambda>(_, e). sec_container e \<noteq> [] \<and> sec_capability_scopes e \<noteq> [] \<and> sec_result_keys e \<noteq> [] \<and>
        sec_read_family e \<in> set ENGINE_FAMILY_KEYS) section_registry \<and>
      distinct (map (\<lambda>(_, e). sec_container e) section_registry) \<and>
      list_all (\<lambda>(stream, sec). stream_result_key_of stream sec \<noteq> None) ssec \<and>
      same_set out_of_protocol CLAIM_LESS_SECTIONS)"

definition projection_sections :: "string list option" where
  "projection_sections =
     (if list_all (\<lambda>(_, _, promotes). dhas SECTION_REGISTRY promotes) INTENT_PUT_ENDPOINTS
      then Some (map fst SECTION_REGISTRY) else None)"

definition projection_streams :: "string list option" where
  "projection_streams =
     (case (projection_sections, stream_tables_map, stream_section_map) of
        (Some _, Some tables, Some ssec) \<Rightarrow>
          let streams = map fst tables;
              endpoints = map (\<lambda>(_, stream, promotes). (stream, promotes)) INTENT_PUT_ENDPOINTS;
              split_streams = concat (map (\<lambda>(_, sp). map fst (sp_streams sp)) SPLIT_SECTION_STREAMS)
          in if same_set streams (map fst endpoints @ OUT_OF_PROTOCOL_STREAMS) \<and>
                list_all (\<lambda>s. s \<notin> set OUT_OF_PROTOCOL_STREAMS) (map fst endpoints) \<and>
                list_all (\<lambda>s. dhas SECTION_REGISTRY s \<and> s \<notin> set split_streams) OUT_OF_PROTOCOL_STREAMS \<and>
                list_all (\<lambda>(s, sec). case dget endpoints s of None \<Rightarrow> True | Some p \<Rightarrow> p = sec) ssec \<and>
                validate_section_registry ssec OUT_OF_PROTOCOL_STREAMS
             then Some streams else None
      | _ \<Rightarrow> None)"

definition stream_section :: "string \<Rightarrow> string option" where
  "stream_section stream = (case (projection_streams, stream_section_map) of
     (Some ss, Some m) \<Rightarrow> if stream \<in> set ss then dget m stream else None | _ \<Rightarrow> None)"

definition stream_tables :: "string \<Rightarrow> string list option" where
  "stream_tables stream = (case (projection_streams, stream_tables_map) of
     (Some ss, Some m) \<Rightarrow> if stream \<in> set ss then map_option (map ts_table) (dget m stream) else None | _ \<Rightarrow> None)"

definition stream_result_key :: "string \<Rightarrow> string option" where
  "stream_result_key stream = Option.bind (stream_section stream) (stream_result_key_of stream)"

definition section_streams :: "string \<Rightarrow> string list option" where
  "section_streams sec = (case (projection_sections, stream_section_map) of
     (Some ss, Some m) \<Rightarrow> if sec \<in> set ss then Some (sort (map fst (filter (\<lambda>(_, s). s = sec) m))) else None
   | _ \<Rightarrow> None)"

section \<open>The computed registries\<close>

definition STREAMS :: "string list" where
  "STREAMS = [''snmp'', ''static_route'', ''logging'', ''svi'', ''subinterface'', ''vlan'', ''bfd'', ''interface_mtu'',
     ''l2_sap'', ''isis'', ''isis_flex_algo'', ''bgp'', ''route_policy'', ''ospf'', ''switchport'', ''lag'',
     ''interface_config'', ''ip'']"

definition STREAM_SECTIONS :: "(string \<times> string) list" where
  "STREAM_SECTIONS = map (\<lambda>s. (s, if s = ''ip'' then ''interface_config'' else if s = ''isis_flex_algo'' then ''isis'' else s)) STREAMS"

lemma projection_streams_eq: "projection_streams = Some STREAMS"
  by code_simp

lemma stream_section_map_eq: "stream_section_map = Some STREAM_SECTIONS"
  by code_simp

lemma projection_sections_eq: "projection_sections = Some (map fst SECTION_REGISTRY)"
  by code_simp

lemma stream_tables_map_Some: "stream_tables_map \<noteq> None"
  by code_simp

lemma stream_section_eq: "stream_section s = (if s \<in> set STREAMS then dget STREAM_SECTIONS s else None)"
  by (simp add: stream_section_def projection_streams_eq stream_section_map_eq)

lemma stream_tables_eq:
  "stream_tables s = (if s \<in> set STREAMS then map_option (map ts_table) (dget (the stream_tables_map) s) else None)"
proof -
  obtain m where m: "stream_tables_map = Some m" using stream_tables_map_Some by auto
  show ?thesis unfolding stream_tables_def projection_streams_eq m by simp
qed

lemma section_streams_eq:
  "section_streams sec = (if dhas SECTION_REGISTRY sec then Some (sort (map fst (filter (\<lambda>(_, s). s = sec) STREAM_SECTIONS))) else None)"
  by (simp add: section_streams_def projection_sections_eq stream_section_map_eq dhas_def)

lemma registries_agree_section: "stream_tables s = Some ts \<Longrightarrow> \<exists>sec. stream_section s = Some sec"
proof -
  assume "stream_tables s = Some ts"
  then have "s \<in> set STREAMS" by (simp add: stream_tables_eq split: if_splits)
  then show ?thesis by (auto simp: stream_section_eq STREAM_SECTIONS_def dget_def map_of_map_restrict)
qed

declare stream_section_eq [code] stream_tables_eq [code] section_streams_eq [code]

section \<open>Properties\<close>

definition sections_partitioned :: bool where
  "sections_partitioned = list_all (\<lambda>(sec, e). case section_streams sec of
     None \<Rightarrow> False
   | Some ss \<Rightarrow> ss \<noteq> [] \<and> sort (concat (map (\<lambda>s. case stream_tables s of None \<Rightarrow> [] | Some ts \<Rightarrow> ts) ss)) =
       sort (map ts_table (sec_tables e))) SECTION_REGISTRY"


end
