(* ===== verification/Document_Plane.thy ===== *)
theory Document_Plane
  imports Execution_Attempts Section_Registry
begin

text \<open>
  The documents a generation stores (\<open>core/projection.py\<close> and the composition in
  \<open>core/generation.py\<close>).  A fragment is what one stream authorizes: its tables, and under
  \<open>_execution\<close> the frozen encoding context and the proof of its own rows.  A document maps a
  section to the union of its streams' tables and the composed execution plane; a generation
  adds the operation plane.

  Tables are lists of rows, a row is a dictionary.  Hydration keeps the values of a row, so a
  hydrated row is the row itself; the check that a row names only columns of its table is left
  out.
\<close>

section \<open>Fragments\<close>

abbreviation EXECUTION_KEY :: string where
  "EXECUTION_KEY \<equiv> ''_execution''"

definition jdict_of :: "json option \<Rightarrow> jdict" where
  "jdict_of j = (case j of Some (JObj d) \<Rightarrow> d | _ \<Rightarrow> [])"

definition rows_of :: "json option \<Rightarrow> jdict list" where
  "rows_of j = (case j of Some (JList xs) \<Rightarrow> map (\<lambda>x. jdict_of (Some x)) xs | _ \<Rightarrow> [])"

definition fragment_tables :: "jdict option \<Rightarrow> jdict" where
  "fragment_tables frag = filter (\<lambda>(t, _). t \<noteq> EXECUTION_KEY) (case frag of None \<Rightarrow> [] | Some d \<Rightarrow> d)"

definition fragment_context :: "jdict option \<Rightarrow> json option" where
  "fragment_context frag = (case frag of None \<Rightarrow> None
     | Some d \<Rightarrow> (case dget (jdict_of (dget d EXECUTION_KEY)) ''context'' of Some JNull \<Rightarrow> None | c \<Rightarrow> c))"

section \<open>The execution plane of a section\<close>

definition community_dialect_names :: "string list" where
  "community_dialect_names = [''identity'', ''nokia_timos'']"

definition community_dialect_for :: "string option \<Rightarrow> string" where
  "community_dialect_for ned = (case ned of
     Some n \<Rightarrow> if n \<noteq> [] \<and> starts_with ''timos-nc'' n then ''nokia_timos'' else ''identity'' | None \<Rightarrow> ''identity'')"

definition section_context :: "jdict \<Rightarrow> string \<Rightarrow> exn + jdict" where
  "section_context doc sec = bindE (section_execution doc sec) (\<lambda>ex.
     case dget ex ''context'' of
       Some (JObj ctx) \<Rightarrow>
         if \<not> same_set (map fst ctx) [''ned_id'', ''dialect'']
         then Inl (ValueError ''document section has an invalid execution context'')
         else if (case dget ctx ''ned_id'' of Some JNull \<Rightarrow> False | Some (JStr _) \<Rightarrow> False | _ \<Rightarrow> True)
         then Inl (ValueError ''document section records a non-string ned_id'')
         else if (case dget ctx ''dialect'' of Some (JStr n) \<Rightarrow> n \<notin> set community_dialect_names | _ \<Rightarrow> True)
         then Inl (ValueError ''document section names an unregistered dialect'')
         else Inr ctx
     | _ \<Rightarrow> Inl (ValueError ''document section has an invalid execution context''))"

definition section_proof :: "jdict \<Rightarrow> string \<Rightarrow> exn + jdict option" where
  "section_proof doc sec = bindE (section_execution doc sec) (\<lambda>ex.
     case dget ex ''proof'' of None \<Rightarrow> Inr None | Some JNull \<Rightarrow> Inr None | Some (JObj p) \<Rightarrow> Inr (Some p)
     | Some _ \<Rightarrow> Inl (ValueError ''document section has invalid proof metadata''))"

section \<open>Composition\<close>

text \<open>
  Field-wise merge of an interface record: a null takes the other value, two different values
  that are not null conflict.
\<close>

definition merge_field :: "jdict \<Rightarrow> string \<times> json \<Rightarrow> exn + jdict" where
  "merge_field acc kv = (case kv of (field, v) \<Rightarrow>
     let prev = row_get acc field in
     if prev = JNull then Inr (dset acc field v)
     else if v \<noteq> JNull \<and> v \<noteq> prev then Inl (ValueError ''conflicting interface values across fragments'')
     else Inr acc)"

definition merge_interface_record :: "(string \<times> jdict) list \<Rightarrow> jdict \<Rightarrow> string \<Rightarrow> exn + (string \<times> jdict) list" where
  "merge_interface_record into record key = (case dget into key of
       None \<Rightarrow> Inr (dset into key record)
     | Some existing \<Rightarrow> bindE (foldE merge_field existing record) (\<lambda>merged. Inr (dset into key merged)))"

record proof_acc =
  pa_interfaces :: "(string \<times> jdict) list option"
  pa_objects :: "(string \<times> jdict) list"
  pa_values :: "(string \<times> json) list"

definition proof_has :: "proof_acc \<Rightarrow> string \<Rightarrow> bool" where
  "proof_has acc k = (dhas (pa_objects acc) k \<or> dhas (pa_values acc) k)"

definition compose_proof_entry :: "proof_acc \<Rightarrow> string \<times> json \<Rightarrow> exn + proof_acc" where
  "compose_proof_entry acc kv = (case kv of (key, v) \<Rightarrow>
     if key = ''interfaces'' then
       bindE (foldE (\<lambda>into (ik, r). merge_interface_record into (jdict_of (Some r)) ik)
                (case pa_interfaces acc of None \<Rightarrow> [] | Some i \<Rightarrow> i) (jdict_of (Some v)))
         (\<lambda>merged. Inr (acc\<lparr>pa_interfaces := Some merged\<rparr>))
     else (case v of
         JObj d \<Rightarrow> if dhas (pa_values acc) key then Inl (RuntimeError ''proof value is not an object'')
            else Inr (acc\<lparr>pa_objects := dset (pa_objects acc) key
              (dmerge (case dget (pa_objects acc) key of None \<Rightarrow> [] | Some ob \<Rightarrow> ob) d)\<rparr>)
       | _ \<Rightarrow> if proof_has acc key then Inl (ValueError ''proof key is contributed by two fragments'')
            else Inr (acc\<lparr>pa_values := dset (pa_values acc) key v\<rparr>)))"

definition proof_record :: "proof_acc \<Rightarrow> jdict" where
  "proof_record acc =
     (case pa_interfaces acc of None \<Rightarrow> [] | Some i \<Rightarrow> [(''interfaces'', JObj (map (\<lambda>(k, r). (k, JObj r)) i))]) @
     map (\<lambda>(k, d). (k, JObj d)) (pa_objects acc) @ pa_values acc"

definition contribute ::
  "string \<Rightarrow> (string \<times> jdict) list \<times> proof_acc \<Rightarrow> string \<times> jdict \<Rightarrow> exn + (string \<times> jdict) list \<times> proof_acc" where
  "contribute sec acc c = (case (acc, c) of ((contexts, pr), (stream, fragment)) \<Rightarrow>
     (case dget fragment EXECUTION_KEY of
        Some (JObj frozen) \<Rightarrow>
          if dhas frozen ''operation'' then Inl (ValueError ''a fragment carries an operation plane'')
          else bindE (section_context [(sec, JObj fragment)] sec) (\<lambda>ctx.
               bindE (foldE compose_proof_entry pr (jdict_of (dget frozen ''proof''))) (\<lambda>pr'.
                 Inr (dset contexts stream ctx, pr')))
      | _ \<Rightarrow> Inl (ValueError ''an unfrozen fragment is contributed'')))"

definition context_owner :: "string \<Rightarrow> string" where
  "context_owner sec = (case dget SPLIT_SECTION_STREAMS sec of None \<Rightarrow> sec | Some sp \<Rightarrow> sp_owner sp)"

definition compose_section_execution :: "string \<Rightarrow> (string \<times> jdict) list \<Rightarrow> exn + jdict" where
  "compose_section_execution sec contributions =
     bindE (foldE (contribute sec) ([], \<lparr>pa_interfaces = None, pa_objects = [], pa_values = []\<rparr>) contributions)
       (\<lambda>(contexts, pr).
          let execution = (\<lambda>ctx. (''context'', JObj ctx) #
                (if proof_record pr = [] then [] else [(''proof'', JObj (proof_record pr))])) in
          case dget contexts (context_owner sec) of
            Some ctx \<Rightarrow> Inr (execution ctx)
          | None \<Rightarrow> (case contexts of [(_, ctx)] \<Rightarrow> Inr (execution ctx)
              | _ \<Rightarrow> Inl (ValueError ''no context of the section is authoritative'')))"

text \<open>
  Fragments are taken in the order of their streams' names; a section appears where its first
  stream does.
\<close>

definition add_contribution ::
  "(string \<times> (string \<times> jdict) list) list \<Rightarrow> string \<times> jdict \<Rightarrow> exn + (string \<times> (string \<times> jdict) list) list" where
  "add_contribution acc c = (case stream_section (fst c) of
       None \<Rightarrow> Inl (ValueError ''unknown projection stream'')
     | Some sec \<Rightarrow> Inr (dset acc sec ((case dget acc sec of None \<Rightarrow> [] | Some cs \<Rightarrow> cs) @ [c])))"

definition compose_body :: "string \<Rightarrow> (string \<times> jdict) list \<Rightarrow> exn + jdict" where
  "compose_body sec contributing =
     bindE (compose_section_execution sec contributing) (\<lambda>ex.
       Inr (dset (foldl (\<lambda>body (_, frag). dmerge body (fragment_tables (Some frag))) [] contributing) EXECUTION_KEY (JObj ex)))"

definition compose_document :: "(string \<times> jdict) list \<Rightarrow> exn + jdict" where
  "compose_document fragments =
     bindE (foldE add_contribution [] (sort_key fst fragments)) (\<lambda>contributions.
       foldE (\<lambda>doc (sec, cs). bindE (compose_body sec cs) (\<lambda>body. Inr (dset doc sec (JObj body)))) [] contributions)"

section \<open>Hydration\<close>

definition hydrate_section :: "jdict \<Rightarrow> string \<Rightarrow> exn + (string \<times> jdict list) list" where
  "hydrate_section doc sec =
     (if \<not> dhas doc sec then Inl (ValueError ''document does not carry section'')
      else bindE (section_context doc sec) (\<lambda>ctx.
        let tables = fragment_tables (Some (jdict_of (dget doc sec)));
            ned = (case dget ctx ''ned_id'' of Some (JStr n) \<Rightarrow> Some n | _ \<Rightarrow> None);
            own = (case dget SECTION_REGISTRY sec of None \<Rightarrow> [] | Some e \<Rightarrow> map ts_table (sec_tables e))
        in if list_ex (\<lambda>(t, j). isl (validate_asn_rows t (Some ned) (rows_of (Some j)))) tables
           then Inl (ValueError ''AS value violates RFC 5396'')
           else if list_ex (\<lambda>(t, _). t \<notin> set own) tables
           then Inl (ValueError ''document table does not belong to section'')
           else if list_ex (\<lambda>(_, j). list_ex (\<lambda>r. row_get r ''id'' = JNull) (rows_of (Some j))) tables
           then Inl (ValueError ''document row omits the primary key'')
           else Inr (map (\<lambda>(t, j). (t, rows_of (Some j))) tables)))"

definition section_rows :: "(string \<times> jdict list) list \<Rightarrow> string \<Rightarrow> jdict list" where
  "section_rows hyd t = (case dget hyd t of None \<Rightarrow> [] | Some rs \<Rightarrow> rs)"

section \<open>Merging interface records\<close>

lemma row_get_dset [simp]: "row_get (dset d k v) k' = (if k' = k then v else row_get d k')"
  by (simp add: row_get_def)

lemma merge_fields_join:
  "distinct (map fst b) \<Longrightarrow> foldE merge_field a b = Inr m \<Longrightarrow>
   row_get m f = (if row_get a f = JNull then row_get b f else row_get a f) \<and>
   (row_get a f \<noteq> JNull \<and> row_get b f \<noteq> JNull \<longrightarrow> row_get a f = row_get b f)"
proof (induction b arbitrary: a)
  case Nil
  then show ?case by (simp add: row_get_def)
next
  case (Cons kv b)
  obtain k v where [simp]: "kv = (k, v)" by (cases kv)
  have none: "row_get b k = JNull"
    using Cons.prems(1) by (force simp: row_get_def dget_def dest: map_of_SomeD split: option.splits)
  have cons: "row_get ((k, v) # b) f = (if f = k then v else row_get b f)"
    by (simp add: row_get_def)
  obtain a' where a': "merge_field a (k, v) = Inr a'" and rest: "foldE merge_field a' b = Inr m"
    using Cons.prems(2) by (auto simp: bindE_eq_Inr)
  have "a' = (if row_get a k = JNull then dset a k v else a)" "row_get a k \<noteq> JNull \<Longrightarrow> v = JNull \<or> v = row_get a k"
    using a' by (auto simp: merge_field_def Let_def split: if_splits)
  then show ?case
    using Cons.IH [OF _ rest] Cons.prems(1) none cons by (auto split: if_splits)
qed

section \<open>Composing documents\<close>

definition owned :: "string \<times> jdict \<Rightarrow> bool" where
  "owned c = (distinct (map fst (snd c)) \<and>
     (case stream_tables (fst c) of None \<Rightarrow> False
      | Some ts \<Rightarrow> set (map fst (fragment_tables (Some (snd c)))) \<subseteq> set ts))"

definition tables_disjoint :: bool where
  "tables_disjoint = list_all (\<lambda>s. list_all (\<lambda>s'. s = s' \<or> stream_section s \<noteq> stream_section s' \<or>
     (case (stream_tables s, stream_tables s') of
        (Some ts, Some ts') \<Rightarrow> list_all (\<lambda>t. t \<notin> set ts') ts | _ \<Rightarrow> False)) STREAMS) STREAMS"

lemma tables_disjoint_holds: tables_disjoint
  by code_simp

lemma stream_tables_disjoint:
  assumes "stream_tables s = Some ts" and "stream_tables s' = Some ts'" and "stream_section s = stream_section s'"
    and "t \<in> set ts" and "t \<in> set ts'"
  shows "s = s'"
proof -
  have "s \<in> set STREAMS" "s' \<in> set STREAMS"
    using assms(1,2) by (auto simp: stream_tables_eq split: if_splits)
  then have "s = s' \<or> list_all (\<lambda>t. t \<notin> set ts') ts"
    using tables_disjoint_holds assms(1-3) unfolding tables_disjoint_def list_all_iff by fastforce
  then show ?thesis using assms(4,5) by (auto simp: list_all_iff)
qed

text \<open>The contributions of a section are its fragments, in order.\<close>

lemma add_contributions:
  "foldE add_contribution acc cs = Inr out \<Longrightarrow>
   (\<forall>c \<in> set cs. stream_section (fst c) \<noteq> None) \<and>
   (\<forall>sec. (case dget out sec of None \<Rightarrow> [] | Some x \<Rightarrow> x) =
      (case dget acc sec of None \<Rightarrow> [] | Some x \<Rightarrow> x) @ filter (\<lambda>c. stream_section (fst c) = Some sec) cs) \<and>
   (distinct (map fst acc) \<longrightarrow> distinct (map fst out))"
proof (induction cs arbitrary: acc)
  case (Cons c cs)
  obtain sec0 where sec0: "stream_section (fst c) = Some sec0"
    and rest: "foldE add_contribution (dset acc sec0 ((case dget acc sec0 of None \<Rightarrow> [] | Some x \<Rightarrow> x) @ [c])) cs = Inr out"
    using Cons.prems by (cases "stream_section (fst c)") (auto simp: add_contribution_def [of acc c])
  from Cons.IH [OF rest] show ?case using sec0 by (auto split: option.splits)
qed simp

lemma compose_sections:
  assumes "foldE (\<lambda>doc (sec, cs). bindE (compose_body sec cs) (\<lambda>body. Inr (dset doc sec (JObj body)))) doc0 contribs = Inr doc"
    and "distinct (map fst contribs)"
  shows "\<And>sec cs. (sec, cs) \<in> set contribs \<Longrightarrow> \<exists>body. compose_body sec cs = Inr body \<and> dget doc sec = Some (JObj body)"
    and "\<And>sec. sec \<notin> fst ` set contribs \<Longrightarrow> dget doc sec = dget doc0 sec"
proof -
  have "(\<forall>(sec, cs) \<in> set contribs. \<exists>body. compose_body sec cs = Inr body \<and> dget doc sec = Some (JObj body)) \<and>
    (\<forall>sec. sec \<notin> fst ` set contribs \<longrightarrow> dget doc sec = dget doc0 sec)"
    using assms
  proof (induction contribs arbitrary: doc0)
    case (Cons c contribs)
    obtain sec cs where [simp]: "c = (sec, cs)" by (cases c)
    obtain body where body: "compose_body sec cs = Inr body"
      and rest: "foldE (\<lambda>doc (sec, cs). bindE (compose_body sec cs) (\<lambda>body. Inr (dset doc sec (JObj body))))
        (dset doc0 sec (JObj body)) contribs = Inr doc"
      using Cons.prems(1) by (auto simp: bindE_eq_Inr)
    have "sec \<notin> fst ` set contribs" "distinct (map fst contribs)" using Cons.prems(2) by auto
    with Cons.IH [OF rest] body show ?case by (auto split: if_splits)
  qed simp
  then show "\<And>sec cs. (sec, cs) \<in> set contribs \<Longrightarrow> \<exists>body. compose_body sec cs = Inr body \<and> dget doc sec = Some (JObj body)"
    "\<And>sec. sec \<notin> fst ` set contribs \<Longrightarrow> dget doc sec = dget doc0 sec" by auto
qed

definition union_tables :: "jdict \<Rightarrow> (string \<times> jdict) list \<Rightarrow> jdict" where
  "union_tables b cs = foldl (\<lambda>body (_, frag). dmerge body (fragment_tables (Some frag))) b cs"

lemma dget_fragment_tables: "t \<noteq> EXECUTION_KEY \<Longrightarrow> dget (fragment_tables (Some frag)) t = dget frag t"
  by (induction frag) (auto simp: fragment_tables_def)

lemma fragment_tables_exec: "EXECUTION_KEY \<notin> fst ` set (fragment_tables frag)"
  by (auto simp: fragment_tables_def)

lemma distinct_fragment_tables: "distinct (map fst frag) \<Longrightarrow> distinct (map fst (fragment_tables (Some frag)))"
  by (simp add: fragment_tables_def distinct_map_filter)

lemma union_tables_Nil [simp]: "union_tables b [] = b"
  by (simp add: union_tables_def)

lemma union_tables_Cons: "union_tables b (c # cs) = union_tables (dmerge b (fragment_tables (Some (snd c)))) cs"
  by (simp add: union_tables_def split_beta)

lemma union_tables_skip:
  assumes "\<forall>c \<in> set cs. distinct (map fst (snd c)) \<and> dget (fragment_tables (Some (snd c))) t = None"
  shows "dget (union_tables b cs) t = dget b t"
  using assms
proof (induction cs arbitrary: b)
  case (Cons c cs)
  then show ?case
    by (simp add: union_tables_Cons dget_dmerge distinct_fragment_tables)
qed simp

lemma union_tables_lookup:
  assumes "distinct (map fst cs)" and "\<forall>c \<in> set cs. owned c"
    and "\<forall>c \<in> set cs. stream_section (fst c) = Some sec" and "(stream, frag) \<in> set cs"
    and "dget (fragment_tables (Some frag)) t = Some rows"
  shows "dget (union_tables b cs) t = Some rows"
  using assms
proof (induction cs arbitrary: b)
  case (Cons c cs)
  have d: "distinct (map fst (snd c))" using Cons.prems(2) by (simp add: owned_def)
  show ?case
  proof (cases "(stream, frag) = c")
    case False
    then show ?thesis using Cons by (auto simp: union_tables_Cons)
  next
    case True
    have "dget (fragment_tables (Some (snd c'))) t = None" if c': "c' \<in> set cs" for c'
    proof (rule ccontr)
      assume "dget (fragment_tables (Some (snd c'))) t \<noteq> None"
      then have "t \<in> fst ` set (fragment_tables (Some (snd c')))" "t \<in> fst ` set (fragment_tables (Some frag))"
        using Cons.prems(5) by (auto simp: dget_def dest!: map_of_SomeD intro: rev_image_eqI)
      moreover obtain ts ts' where "stream_tables stream = Some ts" "stream_tables (fst c') = Some ts'"
          "set (map fst (fragment_tables (Some frag))) \<subseteq> set ts" "set (map fst (fragment_tables (Some (snd c')))) \<subseteq> set ts'"
        using Cons.prems(2) c' True by (auto simp: owned_def split: option.splits)
      ultimately have "t \<in> set ts" "t \<in> set ts'" "stream_tables stream = Some ts" "stream_tables (fst c') = Some ts'"
        by auto
      moreover have "stream_section stream = stream_section (fst c')" using Cons.prems(3) c' True by auto
      ultimately have "stream = fst c'" using stream_tables_disjoint by blast
      then show False using Cons.prems(1) c' True by auto
    qed
    then show ?thesis
      using Cons.prems(2,5) True [symmetric] d
      by (simp add: union_tables_Cons union_tables_skip owned_def dget_dmerge distinct_fragment_tables)
  qed
qed simp

lemma merge_fields_ok:
  "distinct (map fst b) \<Longrightarrow>
   \<not> isl (foldE merge_field a b) \<longleftrightarrow> (\<forall>f. row_get a f \<noteq> JNull \<and> row_get b f \<noteq> JNull \<longrightarrow> row_get a f = row_get b f)"
proof (induction b arbitrary: a)
  case Nil
  then show ?case by (simp add: row_get_def)
next
  case (Cons kv b)
  obtain k v where [simp]: "kv = (k, v)" by (cases kv)
  have none: "row_get b k = JNull"
    using Cons.prems by (force simp: row_get_def dget_def dest: map_of_SomeD split: option.splits)
  have cons: "row_get ((k, v) # b) f = (if f = k then v else row_get b f)" for f
    by (simp add: row_get_def)
  have IH: "\<not> isl (foldE merge_field a' b) \<longleftrightarrow>
      (\<forall>f. row_get a' f \<noteq> JNull \<and> row_get b f \<noteq> JNull \<longrightarrow> row_get a' f = row_get b f)" for a'
    using Cons.IH Cons.prems by simp
  have "isl (foldE merge_field a ((k, v) # b)) = (if row_get a k = JNull then isl (foldE merge_field (dset a k v) b)
      else (v \<noteq> JNull \<and> v \<noteq> row_get a k) \<or> isl (foldE merge_field a b))"
    by (simp add: merge_field_def [of a "(k, v)"])
  then show ?case using IH [of "dset a k v"] IH [of a] none by (auto simp: cons split: if_splits)
qed

lemma compose_document_body:
  assumes "compose_document fragments = Inr doc" and "stream_section stream = Some sec" and "(stream, frag) \<in> set fragments"
  obtains cs body ex where "cs = filter (\<lambda>c. stream_section (fst c) = Some sec) (sort_key fst fragments)"
    "compose_section_execution sec cs = Inr ex" "body = dset (union_tables [] cs) EXECUTION_KEY (JObj ex)"
    "dget doc sec = Some (JObj body)"
proof -
  obtain contribs where c: "foldE add_contribution [] (sort_key fst fragments) = Inr contribs"
    and d: "foldE (\<lambda>doc (sec, cs). bindE (compose_body sec cs) (\<lambda>body. Inr (dset doc sec (JObj body)))) [] contribs = Inr doc"
    using assms(1) by (auto simp: compose_document_def bindE_eq_Inr)
  let ?cs = "filter (\<lambda>c. stream_section (fst c) = Some sec) (sort_key fst fragments)"
  have "(case dget contribs sec of None \<Rightarrow> [] | Some x \<Rightarrow> x) = ?cs" and dist: "distinct (map fst contribs)"
    using add_contributions [OF c] by simp_all
  moreover have "?cs \<noteq> []" using assms(2,3) by (auto simp: filter_empty_conv intro!: bexI)
  ultimately have "dget contribs sec = Some ?cs" by (cases "dget contribs sec") auto
  then have "(sec, ?cs) \<in> set contribs" by (auto simp: dget_def dest: map_of_SomeD)
  then obtain body where "compose_body sec ?cs = Inr body" "dget doc sec = Some (JObj body)"
    using compose_sections(1) [OF d dist] by blast
  then show ?thesis
    by (auto simp: compose_body_def bindE_eq_Inr union_tables_def intro!: that)
qed

section \<open>Properties\<close>

text \<open>
  Merging interface records is a join.  Merging succeeds in one order exactly when it succeeds
  in the other, namely when no field has two different values that are not null; the results
  agree on every field, and no value that either record has is lost.
\<close>

theorem interface_merge_is_join:
  assumes "distinct (map fst a)" and "distinct (map fst b)"
  shows "isl (foldE merge_field a b) = isl (foldE merge_field b a) \<and>
    (\<forall>m m' f. foldE merge_field a b = Inr m \<and> foldE merge_field b a = Inr m' \<longrightarrow>
       row_get m f = row_get m' f \<and>
       (row_get a f \<noteq> JNull \<longrightarrow> row_get m f = row_get a f) \<and> (row_get b f \<noteq> JNull \<longrightarrow> row_get m f = row_get b f))"
proof (intro conjI allI impI)
  show "isl (foldE merge_field a b) = isl (foldE merge_field b a)"
    using merge_fields_ok [OF assms(1), of b] merge_fields_ok [OF assms(2), of a] by metis
qed (use merge_fields_join [OF assms(2)] merge_fields_join [OF assms(1)] in \<open>metis+\<close>)

definition sample_interface :: "json \<Rightarrow> json \<Rightarrow> jdict" where
  "sample_interface binding tag = [(''id'', JInt 7), (''parent_binding'', binding), (''encap_tag'', tag)]"

theorem interface_merge_is_join_witness:
  "row_get (projr (foldE merge_field (sample_interface JNull (JInt 4)) (sample_interface (JStr ''lag1'') JNull))) ''parent_binding'' =
     JStr ''lag1''"
proof -
  let ?a = "sample_interface JNull (JInt 4)" and ?b = "sample_interface (JStr ''lag1'') JNull"
  have d: "distinct (map fst ?a)" "distinct (map fst ?b)" and ok: "\<not> isl (foldE merge_field ?a ?b)"
    and b: "row_get ?b ''parent_binding'' = JStr ''lag1''" by code_simp+
  have "\<not> isl (foldE merge_field ?b ?a)" using interface_merge_is_join [OF d] ok by simp
  with interface_merge_is_join [OF d] Inr_projr [OF ok] b show ?thesis by (metis Inr_projr json.distinct(5))
qed

text \<open>
  C33. Composition loses no stream's state.  When the fragments of distinct streams each hold only
  tables their stream owns, every table of every fragment is in its section of the composed
  document with exactly its rows: no stream overwrites a sibling's table, not even inside a
  section two streams share.
\<close>

theorem composition_keeps_every_table:
  assumes "compose_document fragments = Inr doc" and "distinct (map fst fragments)" and "\<forall>c \<in> set fragments. owned c"
    and "(stream, frag) \<in> set fragments" and "t \<noteq> EXECUTION_KEY" and "dget frag t = Some rows"
  shows "\<exists>sec body. stream_section stream = Some sec \<and> dget doc sec = Some (JObj body) \<and> dget body t = Some rows"
proof -
  obtain ts where ts: "stream_tables stream = Some ts"
    using assms(3,4) by (auto simp: owned_def split: option.splits)
  then obtain sec where sec: "stream_section stream = Some sec"
    using registries_agree_section [of stream ts] by blast
  show ?thesis
  proof (rule compose_document_body [OF assms(1) sec assms(4)])
    fix cs body ex
    assume cs: "cs = filter (\<lambda>c. stream_section (fst c) = Some sec) (sort_key fst fragments)"
      and body: "body = dset (union_tables [] cs) EXECUTION_KEY (JObj ex)" "dget doc sec = Some (JObj body)"
    have "distinct (map fst (sort_key fst fragments))"
      using assms(2) by (simp add: distinct_map)
    then have "distinct (map fst cs)" unfolding cs by (rule distinct_map_filter)
    moreover have "\<forall>c \<in> set cs. owned c" "\<forall>c \<in> set cs. stream_section (fst c) = Some sec" "(stream, frag) \<in> set cs"
      using assms(3,4) sec by (auto simp: cs)
    moreover have "dget (fragment_tables (Some frag)) t = Some rows"
      using assms(5,6) by (simp add: dget_fragment_tables)
    ultimately have "dget (union_tables [] cs) t = Some rows" by (rule union_tables_lookup)
    then show ?thesis using sec body assms(5) by auto
  qed
qed

definition sample_fragment :: "string \<Rightarrow> jdict" where
  "sample_fragment t = [(t, JList [JObj [(''id'', JInt 1)]]),
     (''_execution'', JObj [(''context'', JObj [(''ned_id'', JNull), (''dialect'', JStr ''identity'')])])]"

theorem composition_keeps_every_table_witness:
  "\<exists>sec body. stream_section ''ip'' = Some sec \<and>
     dget (projr (compose_document [(''ip'', sample_fragment ''interface_ip_intent''),
       (''interface_config'', sample_fragment ''interface_intent'')])) sec = Some (JObj body) \<and>
     dget body ''interface_ip_intent'' = Some (JList [JObj [(''id'', JInt 1)]])"
proof -
  let ?frags = "[(''ip'', sample_fragment ''interface_ip_intent''), (''interface_config'', sample_fragment ''interface_intent'')]"
  have ok: "\<not> isl (compose_document ?frags)" and own: "list_all owned ?frags"
    and look: "dget (sample_fragment ''interface_ip_intent'') ''interface_ip_intent'' = Some (JList [JObj [(''id'', JInt 1)]])"
    by code_simp+
  show ?thesis
    by (rule composition_keeps_every_table [OF Inr_projr [OF ok] _ _ _ _ look])
      (use own in \<open>simp_all add: list_all_iff\<close>)
qed

end
