(* ===== verification/Static_Route_Plan.thy ===== *)
theory Static_Route_Plan
  imports Document_Plane
begin

text \<open>
  \<open>core/static_route_plan.py\<close>: the static-route clear vocabulary, the apply and removal
  classifiers, the serialized plans and their hydration, and the renderer of one wire entry
  (\<open>static_route_entry\<close> of \<open>nso/apply.py\<close>) that defines what "set" means.

  Rows and tombstones are the serialized rows of the document, with the column types of
  \<open>store/models.py\<close>: the key columns are strings, ids are integers, \<open>deployed_key\<close> is null or an
  array and \<open>pending_clear\<close> null or an object.  A Python set of keys is the ascending list of its
  elements.
\<close>

section \<open>Keys\<close>

type_synonym triple = "string \<times> string \<times> string"

definition or_empty :: "json \<Rightarrow> string" where
  "or_empty j = (case j of JStr s \<Rightarrow> s | _ \<Rightarrow> [])"

definition triple_of :: "jdict \<Rightarrow> triple" where
  "triple_of row = (or_empty (row_get row ''vrf''), or_empty (row_get row ''prefix''), or_empty (row_get row ''next_hop''))"

text \<open>An array of another length fails to unpack.\<close>

definition as_triple :: "json \<Rightarrow> exn + triple option" where
  "as_triple v = (case v of JNull \<Rightarrow> Inr None | JList [] \<Rightarrow> Inr None
     | JList [a, b, c] \<Rightarrow> Inr (Some (or_empty a, or_empty b, or_empty c))
     | _ \<Rightarrow> Inl (ValueError ''wrong number of values to unpack''))"

definition triple_json :: "triple \<Rightarrow> json" where
  "triple_json t = (case t of (a, b, c) \<Rightarrow> JList [JStr a, JStr b, JStr c])"

definition row_id :: "jdict \<Rightarrow> int" where
  "row_id row = (case row_get row ''id'' of JInt i \<Rightarrow> i | _ \<Rightarrow> 0)"

definition key_set :: "triple list \<Rightarrow> triple list" where
  "key_set ks = sort (remdups ks)"

definition null_route_id_count :: "jdict list \<Rightarrow> nat" where
  "null_route_id_count rows = length (filter (\<lambda>r. row_get r ''route_id'' = JNull) rows)"

definition fence_open :: "jdict list \<Rightarrow> bool" where
  "fence_open rows = (null_route_id_count rows = 0)"

definition deployed_of :: "jdict \<Rightarrow> exn + triple option" where
  "deployed_of row = as_triple (row_get row ''deployed_key'')"

definition replacement_open :: "jdict \<Rightarrow> exn + bool" where
  "replacement_open row = bindE (deployed_of row) (\<lambda>d. Inr (d \<noteq> None \<and> d \<noteq> Some (triple_of row)))"

text \<open>The predecessor key a row contributes, and the keys a carrier contributes, to an authority.\<close>

definition predecessor :: "jdict \<Rightarrow> exn + triple list" where
  "predecessor row = bindE (deployed_of row) (\<lambda>d. Inr (case d of None \<Rightarrow> []
     | Some k \<Rightarrow> if k \<noteq> triple_of row then [k] else []))"

definition carrier_keys :: "jdict \<Rightarrow> exn + triple list" where
  "carrier_keys t = bindE (deployed_of t) (\<lambda>d. Inr (triple_of t # (case d of None \<Rightarrow> [] | Some k \<Rightarrow> [k])))"

section \<open>Clears\<close>

definition SR_CLEAR_FIELDS :: "string list" where
  "SR_CLEAR_FIELDS = [''interface_next_hop'', ''next_hop_vrf'', ''metric'', ''permanent'', ''tag'']"

definition clear_wire_leaf :: "string \<Rightarrow> string option" where
  "clear_wire_leaf f = dget [(''interface_next_hop'', ''interface-next-hop''), (''next_hop_vrf'', ''next-hop-vrf''),
     (''metric'', ''metric''), (''permanent'', ''permanent''), (''tag'', ''tag'')] f"

fun truthy :: "json \<Rightarrow> bool" where
  "truthy JNull = False"
| "truthy (JBool b) = b"
| "truthy (JInt i) = (i \<noteq> 0)"
| "truthy (JStr s) = (s \<noteq> [])"
| "truthy (JList xs) = (xs \<noteq> [])"
| "truthy (JObj d) = (d \<noteq> [])"

definition wire_set :: "string \<Rightarrow> json \<Rightarrow> bool" where
  "wire_set f v = (if f = ''metric'' \<or> f = ''tag'' then v \<noteq> JNull else truthy v)"

definition sr_is_cleared :: "string \<Rightarrow> json \<Rightarrow> json \<Rightarrow> bool" where
  "sr_is_cleared f before after = (wire_set f before \<and> \<not> wire_set f after)"

text \<open>The wire entry of one row.\<close>

definition required :: "jdict \<Rightarrow> string \<Rightarrow> exn + json" where
  "required row f = (case dget row f of Some v \<Rightarrow> Inr v | None \<Rightarrow> Inl (KeyError f))"

definition static_route_entry :: "jdict \<Rightarrow> exn + jdict" where
  "static_route_entry row =
     bindE (required row ''vrf'') (\<lambda>vrf. bindE (required row ''prefix'') (\<lambda>prefix.
     bindE (required row ''next_hop'') (\<lambda>next_hop. Inr (
       [(''vrf'', vrf), (''prefix'', prefix), (''next-hop'', next_hop)] @
       (if truthy (row_get row ''interface_next_hop'') then [(''interface-next-hop'', row_get row ''interface_next_hop'')] else []) @
       (if truthy (row_get row ''next_hop_vrf'') then [(''next-hop-vrf'', row_get row ''next_hop_vrf'')] else []) @
       (if row_get row ''metric'' \<noteq> JNull then [(''metric'', row_get row ''metric'')] else []) @
       (if truthy (row_get row ''permanent'') then [(''permanent'', row_get row ''permanent'')] else []) @
       (if row_get row ''tag'' \<noteq> JNull then [(''tag'', row_get row ''tag'')] else [])))))"

text \<open>
  A \<open>permanent\<close> leaf is neutral when it is false, as a boolean or as its text in any case and
  with surrounding blanks; \<open>str(value)\<close> of the other kinds is never "false".
\<close>

definition strip :: "string \<Rightarrow> string" where
  "strip s = (let sp = (\<lambda>c. (of_char c :: nat) \<in> set [9, 10, 11, 12, 13, 28, 29, 30, 31, 32, 133, 160])
     in rev (dropWhile sp (rev (dropWhile sp s))))"

definition leaf_is_neutral :: "string \<Rightarrow> jdict \<Rightarrow> exn + bool" where
  "leaf_is_neutral f entry = (case clear_wire_leaf f of None \<Rightarrow> Inl (KeyError f)
     | Some leaf \<Rightarrow>
        let v = row_get entry leaf in
        Inr (if v = JNull then True
        else if f = ''permanent'' then (case v of JBool b \<Rightarrow> \<not> b | JStr s \<Rightarrow> map lower_char (strip s) = ''false'' | _ \<Rightarrow> False)
        else if f = ''interface_next_hop'' \<or> f = ''next_hop_vrf'' then v = JStr []
        else False))"

text \<open>The carrier \<open>pending_clear\<close>: the authorized and the store-only half.\<close>

type_synonym carrier = "(string list \<times> string list) option"

definition json_names :: "json option \<Rightarrow> string list" where
  "json_names j = (case j of Some (JList xs) \<Rightarrow> map or_empty xs | _ \<Rightarrow> [])"

definition carrier_of :: "json \<Rightarrow> carrier" where
  "carrier_of j = (case j of JObj d \<Rightarrow> if d = [] then None
       else Some (json_names (dget d ''authorized''), json_names (dget d ''store_only''))
     | _ \<Rightarrow> None)"

definition pending_clear_fields :: "carrier \<Rightarrow> string set" where
  "pending_clear_fields c = (case c of None \<Rightarrow> {} | Some (a, st) \<Rightarrow> set a \<union> set st)"

definition authorized_clear_fields :: "carrier \<Rightarrow> string list" where
  "authorized_clear_fields c = (case c of None \<Rightarrow> [] | Some (a, _) \<Rightarrow> sort (remdups a))"

definition clears_suppressed :: "jdict \<Rightarrow> bool" where
  "clears_suppressed ctx = (truthy (row_get ctx ''detach'') \<or> truthy (row_get ctx ''retract_deferred''))"

definition candidate_clear_fields :: "jdict \<Rightarrow> exn + string list" where
  "candidate_clear_fields row =
     (let fields = authorized_clear_fields (carrier_of (row_get row ''pending_clear'')) in
      if fields = [] then Inr []
      else bindE (replacement_open row) (\<lambda>opened.
        Inr (if opened then [] else filter (\<lambda>f. \<not> wire_set f (row_get row f)) fields)))"

definition update_pending_clear :: "carrier \<Rightarrow> string list \<Rightarrow> string list \<Rightarrow> bool \<Rightarrow> carrier" where
  "update_pending_clear c cleared reset store_only =
     (let (a0, s0) = (case c of None \<Rightarrow> ([], []) | Some x \<Rightarrow> x);
          a1 = filter (\<lambda>f. f \<notin> set reset) a0;
          s1 = filter (\<lambda>f. f \<notin> set reset) s0;
          a2 = (if store_only then a1 else a1 @ cleared);
          s2 = (if store_only then s1 @ filter (\<lambda>f. f \<notin> set a1) cleared else filter (\<lambda>f. f \<notin> set cleared) s1)
      in if a2 \<noteq> [] \<or> s2 \<noteq> [] then Some (sort (remdups a2), sort (remdups s2)) else None)"

section \<open>Plans\<close>

record sr_cas =
  cas_row :: int
  cas_route :: json
  cas_sent :: triple
  cas_old :: json

record sr_plan =
  pl_mode :: string
  pl_rows :: "jdict list"
  pl_allowed :: "triple list"
  pl_tombs :: "jdict list"
  pl_cas :: "sr_cas list"
  pl_watermark :: json

record sr_clear =
  cl_row :: json
  cl_key :: triple
  cl_fields :: "json list"

record sr_removal_plan =
  rp_authorized :: "triple list"
  rp_claimed :: "triple list"
  rp_tombs :: "json list"
  rp_clears :: "sr_clear list"
  rp_reclaimed :: "triple list"

definition max_or_zero :: "int list \<Rightarrow> int" where
  "max_or_zero xs = (case xs of [] \<Rightarrow> 0 | x # xs \<Rightarrow> fold max xs x)"

definition classify_apply_plan :: "jdict list \<Rightarrow> jdict list \<Rightarrow> exn + sr_plan" where
  "classify_apply_plan all_rows tombs =
     (let rows = filter (\<lambda>r. row_get r ''accepted_at'' \<noteq> JNull) all_rows in
      bindE (mapE replacement_open rows) (\<lambda>opens.
      bindE (mapE predecessor rows) (\<lambda>preds.
      bindE (mapE carrier_keys tombs) (\<lambda>keys. Inr
      \<lparr>pl_mode = (if list_ex id opens then ''PUT'' else ''PATCH''), pl_rows = rows,
       pl_allowed = key_set (concat preds @ concat keys), pl_tombs = tombs,
       pl_cas = map (\<lambda>r. \<lparr>cas_row = row_id r, cas_route = row_get r ''route_id'', cas_sent = triple_of r,
          cas_old = row_get r ''deployed_key''\<rparr>) rows,
       pl_watermark = JInt (max_or_zero (map row_id tombs))\<rparr>))))"

definition validate_removal_authority :: "json \<Rightarrow> exn + unit" where
  "validate_removal_authority v = (case v of
       JObj scopes \<Rightarrow>
         if list_ex (\<lambda>(_, l). case l of JObj _ \<Rightarrow> False | _ \<Rightarrow> True) scopes
         then Inl (ValueError ''allowed_removal_keys must be scope-qualified'')
         else if list_ex (\<lambda>(s, _). \<not> dhas section_registry s) scopes
         then Inl (ValueError ''unknown removal-authority scope'')
         else if list_ex (\<lambda>(s, l). case dget section_registry s of None \<Rightarrow> True | Some e \<Rightarrow>
                list_ex (\<lambda>(lab, _). lab \<notin> removal_authority_labels e) (jdict_of (Some l))) scopes
         then Inl (ValueError ''unknown removal-authority label'')
         else Inr ()
     | _ \<Rightarrow> Inl (ValueError ''allowed_removal_keys must be scope-qualified''))"

definition sr_key :: "json \<Rightarrow> exn + triple" where
  "sr_key v = (case v of JList [a, b, c] \<Rightarrow> Inr (or_empty a, or_empty b, or_empty c)
     | _ \<Rightarrow> Inl (ValueError ''a static-route execution key must contain three values''))"

text \<open>Iterating a JSON value: a string yields its characters and an object its keys.\<close>

definition json_iter :: "json \<Rightarrow> exn + json list" where
  "json_iter v = (case v of JList xs \<Rightarrow> Inr xs | JStr s \<Rightarrow> Inr (map (\<lambda>c. JStr [c]) s)
     | JObj d \<Rightarrow> Inr (map (\<lambda>(k, _). JStr k) d) | _ \<Rightarrow> Inl (TypeError ''object is not iterable''))"

definition json_iter_or :: "json \<Rightarrow> exn + json list" where
  "json_iter_or v = (if truthy v then json_iter v else Inr [])"

definition removal_keys :: "json \<Rightarrow> exn + triple list" where
  "removal_keys v = bindE (validate_removal_authority v) (\<lambda>_.
     bindE (json_iter_or (row_get (jdict_of (dget (jdict_of (Some v)) ''static_route'')) ''route'')) (mapE sr_key))"

definition promotion_removal_keys :: "(string \<times> jdict list) list \<Rightarrow> exn + jdict" where
  "promotion_removal_keys removed =
     bindE (mapE carrier_keys (section_rows removed ''static_route_intent'')) (\<lambda>keys.
       Inr (if concat keys = [] then [] else [(''route'', JList (map triple_json (key_set (concat keys))))]))"

definition scope_qualified :: "string \<Rightarrow> jdict \<Rightarrow> jdict" where
  "scope_qualified scope removed = (if removed = [] then [] else [(scope, JObj removed)])"

definition classify_clears :: "jdict list \<Rightarrow> exn + sr_clear list" where
  "classify_clears rows = bindE (mapE candidate_clear_fields rows) (\<lambda>fields.
     Inr (map (\<lambda>(r, fs). \<lparr>cl_row = JInt (row_id r), cl_key = triple_of r, cl_fields = map JStr fs\<rparr>)
       (filter (\<lambda>(r, fs). fs \<noteq> []) (zip rows fields))))"

definition classify_removal_plan :: "jdict list \<Rightarrow> jdict list \<Rightarrow> json \<Rightarrow> jdict \<Rightarrow> exn + sr_removal_plan" where
  "classify_removal_plan rows tombs allowed ctx =
     bindE (removal_keys allowed) (\<lambda>keys.
     bindE (mapE carrier_keys tombs) (\<lambda>tkeys.
     bindE (mapE carrier_keys rows) (\<lambda>claimed.
     bindE (if clears_suppressed ctx then Inr [] else classify_clears rows) (\<lambda>clears.
       let authority = keys @ concat tkeys; rendered = map triple_of rows in
       Inr \<lparr>rp_authorized = key_set (filter (\<lambda>t. t \<notin> set rendered) authority),
            rp_claimed = key_set (concat claimed), rp_tombs = map (\<lambda>t. JInt (row_id t)) tombs,
            rp_clears = clears,
            rp_reclaimed = key_set (filter (\<lambda>t. t \<in> set rendered) authority)\<rparr>))))"

section \<open>The stored form\<close>

definition cas_json :: "sr_cas \<Rightarrow> json" where
  "cas_json c = JObj [(''row_id'', JInt (cas_row c)), (''route_id'', cas_route c), (''sent_triple'', triple_json (cas_sent c)),
     (''expected_old'', cas_old c)]"

definition serialize_apply_plan :: "sr_plan \<Rightarrow> jdict" where
  "serialize_apply_plan p = [(''mode'', JStr (pl_mode p)), (''row_ids'', JList (map (\<lambda>r. JInt (row_id r)) (pl_rows p))),
     (''allowed_removal_keys'', JList (map triple_json (pl_allowed p))),
     (''tombstone_ids'', JList (map (\<lambda>t. JInt (row_id t)) (pl_tombs p))), (''cas'', JList (map cas_json (pl_cas p))),
     (''tombstone_id_watermark'', pl_watermark p)]"

definition clear_json :: "sr_clear \<Rightarrow> json" where
  "clear_json c = JObj [(''row_id'', cl_row c), (''key'', triple_json (cl_key c)), (''fields'', JList (cl_fields c))]"

definition serialize_removal_plan :: "sr_removal_plan \<Rightarrow> jdict" where
  "serialize_removal_plan p = [(''authorized_removal_keys'', JList (map triple_json (rp_authorized p))),
     (''claimed_keys'', JList (map triple_json (rp_claimed p))), (''tombstone_ids'', JList (rp_tombs p)),
     (''candidate_clears'', JList (map clear_json (rp_clears p))), (''reclaimed_keys'', JList (map triple_json (rp_reclaimed p)))]"

definition freeze_static_route_proof :: "jdict \<Rightarrow> jdict \<Rightarrow> exn + jdict" where
  "freeze_static_route_proof tables ctx =
     bindE (hydrate_section [(''static_route'', JObj (dset tables EXECUTION_KEY (JObj [(''context'', JObj ctx)])))] ''static_route'')
       (\<lambda>hyd. bindE (classify_apply_plan (section_rows hyd ''static_route_intent'') (section_rows hyd ''static_route_tombstone''))
         (\<lambda>p. Inr [(''apply'', JObj (serialize_apply_plan p))]))"

definition prune_apply_plan :: "jdict \<Rightarrow> jdict list \<Rightarrow> jdict list \<Rightarrow> exn + jdict" where
  "prune_apply_plan plan rows tombs =
     bindE (required plan ''row_ids'') (\<lambda>ids. bindE (json_iter ids) (\<lambda>selected.
     bindE (mapE predecessor (filter (\<lambda>r. row_get r ''id'' \<in> set selected) rows)) (\<lambda>preds.
     bindE (mapE carrier_keys tombs) (\<lambda>keys.
     bindE (mapE (\<lambda>t. required t ''id'') tombs) (\<lambda>_.
       Inr (dmerge plan [(''allowed_removal_keys'', JList (map triple_json (key_set (concat preds @ concat keys)))),
           (''tombstone_ids'', JList (map (\<lambda>t. JInt (row_id t)) tombs)),
           (''tombstone_id_watermark'', JInt (max_or_zero (map row_id tombs)))]))))))"

text \<open>
  Extending a plan.  Its key arrays are taken as they are, of any length; the coordinates of a
  retained row come from the plan it is retained from.
\<close>

definition key_strings :: "json \<Rightarrow> exn + string list" where
  "key_strings v = bindE (json_iter v) (\<lambda>xs. Inr (map or_empty xs))"

definition item_field :: "json \<Rightarrow> string \<Rightarrow> exn + json" where
  "item_field j f = (case j of JObj d \<Rightarrow> required d f | _ \<Rightarrow> Inl (TypeError ''plan item is not an object''))"

definition items_by_row :: "json list \<Rightarrow> exn + (json \<times> json) list" where
  "items_by_row js = bindE (mapE (\<lambda>j. item_field j ''row_id'') js) (\<lambda>ids. Inr (foldl (\<lambda>m (k, j). dset m k j) [] (zip ids js)))"

definition extend_row ::
  "(json \<times> json) list \<Rightarrow> json list \<times> (json \<times> json) list \<times> string list list \<times> json \<Rightarrow> jdict
   \<Rightarrow> exn + json list \<times> (json \<times> json) list \<times> string list list \<times> json" where
  "extend_row source acc row = (case acc of (ids, cas, allowed, mode) \<Rightarrow>
     let rid = row_get row ''id'' in
     if rid \<in> set ids then Inr acc
     else (case dget source rid of
         None \<Rightarrow> Inl (ValueError ''retained static-route row has no recorded CAS coordinates'')
       | Some item \<Rightarrow> bindE (predecessor row) (\<lambda>pred.
           Inr (ids @ [rid], dset cas rid item, allowed @ map (\<lambda>(a, b, c). [a, b, c]) pred,
             if pred = [] then mode else JStr ''PUT''))))"

definition int_ids :: "json list \<Rightarrow> int list" where
  "int_ids js = map (\<lambda>j. case j of JInt i \<Rightarrow> i | _ \<Rightarrow> 0) js"

definition extend_apply_plan :: "jdict option \<Rightarrow> jdict \<Rightarrow> jdict list \<Rightarrow> exn + jdict" where
  "extend_apply_plan desired source retained = (case desired of
       None \<Rightarrow> Inl (ValueError ''a retained static-route fragment carries no apply plan to extend'')
     | Some d \<Rightarrow>
        if retained = [] then Inr d
        else bindE (bindE (json_iter_or (row_get source ''cas'')) items_by_row) (\<lambda>source_cas.
             bindE (bindE (required d ''row_ids'') json_iter) (\<lambda>ids0.
             bindE (bindE (bindE (required d ''cas'') json_iter) items_by_row) (\<lambda>cas0.
             bindE (bindE (bindE (required d ''allowed_removal_keys'') json_iter) (mapE key_strings)) (\<lambda>allowed0.
             bindE (required d ''mode'') (\<lambda>mode0.
             bindE (foldE (extend_row source_cas) (ids0, cas0, allowed0, mode0) retained) (\<lambda>(ids, cas, allowed, mode).
               let ordered = map JInt (sort (remdups (int_ids ids))) in
               bindE (mapE (\<lambda>i. case dget cas i of Some c \<Rightarrow> Inr c | None \<Rightarrow> Inl (KeyError ''row_id'')) ordered) (\<lambda>items.
                 Inr (dmerge d [(''mode'', mode), (''row_ids'', JList ordered), (''cas'', JList items),
                   (''allowed_removal_keys'', JList (map (\<lambda>k. JList (map JStr k)) (sort (remdups allowed))))])))))))))"

definition rows_by_id :: "jdict list \<Rightarrow> (json \<times> jdict) list" where
  "rows_by_id rows = foldl (\<lambda>m r. dset m (row_get r ''id'') r) [] rows"

definition recorded_apply :: "jdict \<Rightarrow> exn + json option" where
  "recorded_apply doc = bindE (section_proof doc ''static_route'') (\<lambda>p. Inr (case p of None \<Rightarrow> None | Some d \<Rightarrow> dget d ''apply''))"

definition plan_mode :: "json \<Rightarrow> string option" where
  "plan_mode v = (case v of JStr m \<Rightarrow> if m \<in> set [''PATCH'', ''PUT''] then Some m else None | _ \<Rightarrow> None)"

definition recorded_static_route_apply_mode :: "jdict \<Rightarrow> exn + string option" where
  "recorded_static_route_apply_mode doc =
     (if \<not> dhas doc ''static_route'' then Inr None
      else bindE (recorded_apply doc) (\<lambda>r.
        case plan_mode (row_get (jdict_of r) ''mode'') of
          None \<Rightarrow> Inl (ValueError ''document section has an invalid recorded apply mode'')
        | Some m \<Rightarrow> Inr (Some m)))"

text \<open>Only the coordinates of selected rows are read.\<close>

fun cas_items :: "json list \<Rightarrow> json list \<Rightarrow> exn + (json \<times> sr_cas) list" where
  "cas_items ids [] = Inr []"
| "cas_items ids (j # js) = (case j of
       JObj d \<Rightarrow>
         if row_get d ''row_id'' \<notin> set ids then cas_items ids js
         else bindE (required d ''row_id'') (\<lambda>r. bindE (required d ''route_id'') (\<lambda>route.
              bindE (bindE (required d ''sent_triple'') sr_key) (\<lambda>t. bindE (required d ''expected_old'') (\<lambda>old.
              bindE (cas_items ids js) (\<lambda>cs.
                Inr ((r, \<lparr>cas_row = (case r of JInt i \<Rightarrow> i | _ \<Rightarrow> 0), cas_route = route, cas_sent = t, cas_old = old\<rparr>) # cs))))))
     | _ \<Rightarrow> Inl (TypeError ''plan item is not an object''))"

definition APPLY_PLAN_KEYS :: "string list" where
  "APPLY_PLAN_KEYS = [''mode'', ''row_ids'', ''allowed_removal_keys'', ''tombstone_ids'', ''cas'', ''tombstone_id_watermark'']"

text \<open>An id list of a plan: an array that names only ids of the section.\<close>

definition ids_within :: "json \<Rightarrow> (json \<times> jdict) list \<Rightarrow> json list option" where
  "ids_within v by_id = (case v of JList ids \<Rightarrow> if list_all (dhas by_id) ids then Some ids else None | _ \<Rightarrow> None)"

definition plan_of_record :: "jdict \<Rightarrow> string \<Rightarrow> jdict list \<Rightarrow> jdict list \<Rightarrow> exn + sr_plan" where
  "plan_of_record rec mode rows tombs =
     (case ids_within (row_get rec ''row_ids'') (rows_by_id rows) of
        None \<Rightarrow> Inl (ValueError ''apply plan does not match its rows'')
      | Some row_ids \<Rightarrow> (case ids_within (row_get rec ''tombstone_ids'') (rows_by_id tombs) of
        None \<Rightarrow> Inl (ValueError ''apply plan does not match its tombstones'')
      | Some tomb_ids \<Rightarrow>
        bindE (bindE (json_iter (row_get rec ''cas'')) (cas_items row_ids)) (\<lambda>cas.
        if set (map fst cas) \<noteq> set row_ids then Inl (ValueError ''apply plan has invalid CAS coordinates'')
        else bindE (bindE (json_iter (row_get rec ''allowed_removal_keys'')) (mapE sr_key)) (\<lambda>allowed.
          Inr \<lparr>pl_mode = mode, pl_rows = map (\<lambda>i. the (dget (rows_by_id rows) i)) row_ids,
            pl_allowed = key_set allowed, pl_tombs = map (\<lambda>i. the (dget (rows_by_id tombs) i)) tomb_ids, pl_cas = map snd cas,
            pl_watermark = row_get rec ''tombstone_id_watermark''\<rparr>))))"

definition hydrate_static_route_apply_plan :: "jdict \<Rightarrow> exn + sr_plan" where
  "hydrate_static_route_apply_plan doc =
     bindE (section_context doc ''static_route'') (\<lambda>_.
     bindE (recorded_apply doc) (\<lambda>r.
       case (r, plan_mode (row_get (jdict_of r) ''mode'')) of
         (Some (JObj rec), Some mode) \<Rightarrow>
           if \<not> same_set (map fst rec) APPLY_PLAN_KEYS then Inl (ValueError ''invalid recorded apply plan'')
           else bindE (hydrate_section doc ''static_route'') (\<lambda>hyd.
             plan_of_record rec mode (section_rows hyd ''static_route_intent'') (section_rows hyd ''static_route_tombstone''))
       | _ \<Rightarrow> Inl (ValueError ''invalid recorded apply plan'')))"

definition certify_clear :: "(json \<times> jdict) list \<Rightarrow> sr_clear \<Rightarrow> bool" where
  "certify_clear rows c = (case dget rows (cl_row c) of None \<Rightarrow> False
     | Some row \<Rightarrow> cl_key c = triple_of row \<and>
         list_all (\<lambda>f. f \<in> set (map JStr (filter (\<lambda>f. \<not> wire_set f (row_get row f))
           (authorized_clear_fields (carrier_of (row_get row ''pending_clear'')))))) (cl_fields c))"

definition certify_clears :: "jdict \<Rightarrow> sr_clear list \<Rightarrow> exn + unit" where
  "certify_clears doc clears =
     (let rows = rows_by_id (rows_of (dget (jdict_of (dget doc ''static_route'')) ''static_route_intent'')) in
      if list_all (certify_clear rows) clears then Inr ()
      else Inl (ValueError ''recorded static-route clear does not match its row''))"

definition clear_item :: "json \<Rightarrow> exn + sr_clear" where
  "clear_item j = bindE (item_field j ''row_id'') (\<lambda>r. bindE (bindE (item_field j ''key'') sr_key) (\<lambda>t.
     bindE (bindE (item_field j ''fields'') json_iter) (\<lambda>fs. Inr \<lparr>cl_row = r, cl_key = t, cl_fields = fs\<rparr>)))"

definition REMOVAL_PLAN_KEYS :: "string list" where
  "REMOVAL_PLAN_KEYS = [''authorized_removal_keys'', ''claimed_keys'', ''tombstone_ids'', ''candidate_clears'', ''reclaimed_keys'']"

definition recorded_keys :: "jdict \<Rightarrow> string \<Rightarrow> exn + triple list" where
  "recorded_keys rec f = bindE (json_iter (row_get rec f)) (mapE sr_key)"

definition hydrate_static_route_removal_plan :: "jdict \<Rightarrow> exn + sr_removal_plan" where
  "hydrate_static_route_removal_plan doc =
     bindE (section_context doc ''static_route'') (\<lambda>_.
     bindE (section_operation doc ''static_route'') (\<lambda>opn.
       case dget opn ''removal'' of
         Some (JObj rec) \<Rightarrow>
           if \<not> same_set (map fst rec) REMOVAL_PLAN_KEYS then Inl (ValueError ''invalid recorded removal plan'')
           else bindE (bindE (json_iter (row_get rec ''candidate_clears'')) (mapE clear_item)) (\<lambda>clears.
                bindE (certify_clears doc clears) (\<lambda>_.
                bindE (recorded_keys rec ''authorized_removal_keys'') (\<lambda>au.
                bindE (recorded_keys rec ''claimed_keys'') (\<lambda>cl.
                bindE (json_iter (row_get rec ''tombstone_ids'')) (\<lambda>tombs.
                bindE (recorded_keys rec ''reclaimed_keys'') (\<lambda>re.
                  Inr \<lparr>rp_authorized = key_set au, rp_claimed = key_set cl, rp_tombs = tombs,
                    rp_clears = clears, rp_reclaimed = re\<rparr>))))))
       | _ \<Rightarrow> Inl (ValueError ''invalid recorded removal plan'')))"

text \<open>A carrier row of the store as the classifier reads it.\<close>

definition tomb_row :: "tombstone \<Rightarrow> jdict" where
  "tomb_row t = [(''id'', JInt (t_id t)), (''route_id'', JInt (t_route t)), (''vrf'', JStr (t_vrf t)),
     (''prefix'', JStr (t_prefix t)), (''next_hop'', JStr (t_next_hop t)),
     (''deployed_key'', case t_deployed t of None \<Rightarrow> JNull | Some d \<Rightarrow> triple_json d), (''marking'', JStr (t_marking t))]"

definition build_static_route_operation ::
  "store \<Rightarrow> int \<Rightarrow> jdict \<Rightarrow> jdict option \<Rightarrow> json \<Rightarrow> int list \<Rightarrow> exn + jdict" where
  "build_static_route_operation s d doc ctx allowed ids =
     (if dget doc ''static_route'' \<in> {None, Some JNull} then Inl (ValueError ''a static_route removal generation carries no static_route section'')
      else bindE (hydrate_section doc ''static_route'') (\<lambda>hyd.
        let selected = sort_key t_id (filter (\<lambda>t. t_device t = d \<and> t_id t \<in> set ids) (st_tombs s)) in
        if set (map t_id selected) \<noteq> set ids then Inl (RuntimeError ''static_route removal references missing tombstones'')
        else bindE (classify_removal_plan (section_rows hyd ''static_route_intent'') (map tomb_row selected) allowed
               (case ctx of None \<Rightarrow> [] | Some c \<Rightarrow> c)) (\<lambda>plan.
          Inr [(''removal'', JObj (serialize_removal_plan plan)), (''tombstone_ids'', JList (map JInt (sort ids)))])))"

text \<open>Sample rows.\<close>

definition sample_route :: "int \<Rightarrow> string \<Rightarrow> json \<Rightarrow> json \<Rightarrow> jdict" where
  "sample_route i prefix deployed pending = [(''id'', JInt i), (''route_id'', JInt (10 + i)), (''vrf'', JStr []),
     (''prefix'', JStr prefix), (''next_hop'', JStr ''10.0.0.1''), (''metric'', JNull), (''permanent'', JBool False),
     (''tag'', JInt 0), (''accepted_at'', JInt 5), (''deployed_key'', deployed), (''pending_clear'', pending)]"

definition sample_routes :: "jdict list" where
  "sample_routes = [
     sample_route 1 ''10.1.0.0/16'' JNull (JObj [(''authorized'', JList [JStr ''metric'']), (''store_only'', JList [JStr ''tag''])]),
     sample_route 2 ''10.2.0.0/16'' (JList [JStr [], JStr ''10.9.0.0/16'', JStr ''10.0.0.1'']) JNull]"

definition sample_carriers :: "jdict list" where
  "sample_carriers = [sample_route 7 ''10.7.0.0/16'' JNull JNull]"

definition sample_tables :: jdict where
  "sample_tables = [(''static_route_intent'', JList (map JObj sample_routes)), (''static_route_tombstone'', JList (map JObj sample_carriers))]"

definition sample_context :: jdict where
  "sample_context = [(''ned_id'', JStr ''cisco-ios-cli-6.91''), (''dialect'', JStr ''identity'')]"

section \<open>Keys and coordinates survive storage\<close>

lemma sr_key_triple [simp]: "sr_key (triple_json t) = Inr t"
  by (cases t) (simp add: sr_key_def triple_json_def or_empty_def)

lemma sr_keys_triples [simp]: "mapE sr_key (map triple_json ks) = Inr ks"
  by (induction ks) simp_all

lemma set_key_set [simp]: "set (key_set ks) = set ks"
  by (simp add: key_set_def)

lemma key_set_idem [simp]: "key_set (key_set ks) = key_set ks"
  by (simp add: key_set_def distinct_remdups_id sorted_sort_id)

text \<open>The primary key of a row is an integer.\<close>

definition int_id :: "jdict \<Rightarrow> bool" where
  "int_id r = (row_get r ''id'' = JInt (row_id r))"

lemma int_id_dget: "int_id r \<Longrightarrow> dget r ''id'' = Some (JInt (row_id r))"
  by (simp add: int_id_def row_get_def split: option.splits)

lemma foldl_dset_dget:
  "distinct (map f rs) \<Longrightarrow> r \<in> set rs \<Longrightarrow> dget (foldl (\<lambda>m r. dset m (f r) (r::jdict)) m0 rs) (f r) = Some r"
proof (induction rs arbitrary: m0)
  case Nil
  then show ?case by simp
next
  case (Cons a rs)
  have keep: "f r \<notin> f ` set xs \<Longrightarrow> dget (foldl (\<lambda>m r. dset m (f r) r) m xs) (f r) = dget m (f r)" for xs m
    by (induction xs arbitrary: m) auto
  show ?case
    using Cons keep [of rs] by (cases "r = a") auto
qed

lemma rows_by_id_get:
  assumes "list_all int_id rows" and "distinct (map row_id rows)" and "r \<in> set rows"
  shows "dget (rows_by_id rows) (JInt (row_id r)) = Some r"
proof -
  have eq: "map (\<lambda>r. row_get r ''id'') rows = map (JInt \<circ> row_id) rows"
    using assms(1) by (simp add: list_all_iff int_id_def)
  have "distinct (map (\<lambda>r. row_get r ''id'') rows)"
    unfolding eq using assms(2) by (simp add: distinct_map inj_on_def)
  then have "dget (rows_by_id rows) (row_get r ''id'') = Some r"
    unfolding rows_by_id_def using assms(3) by (rule foldl_dset_dget)
  then show ?thesis
    using assms(1,3) by (simp add: list_all_iff int_id_def)
qed

lemma ids_within_rows:
  assumes "list_all int_id rows" and "distinct (map row_id rows)" and "set rs \<subseteq> set rows"
  shows "ids_within (JList (map (\<lambda>r. JInt (row_id r)) rs)) (rows_by_id rows) = Some (map (\<lambda>r. JInt (row_id r)) rs)"
    and "map (\<lambda>i. the (dget (rows_by_id rows) i)) (map (\<lambda>r. JInt (row_id r)) rs) = rs"
  using assms rows_by_id_get [OF assms(1,2)]
  by (auto simp: ids_within_def list_all_iff dhas_iff subset_iff map_idI)

definition row_cas :: "jdict \<Rightarrow> sr_cas" where
  "row_cas r = \<lparr>cas_row = row_id r, cas_route = row_get r ''route_id'', cas_sent = triple_of r, cas_old = row_get r ''deployed_key''\<rparr>"

lemma cas_items_serialized:
  "set rs \<subseteq> set rs' \<Longrightarrow> cas_items (map (\<lambda>r. JInt (row_id r)) rs') (map (cas_json \<circ> row_cas) rs) =
     Inr (map (\<lambda>r. (JInt (row_id r), row_cas r)) rs)"
  by (induction rs) (auto simp: cas_json_def row_cas_def required_def row_get_def dget_def)

section \<open>The apply plan\<close>

lemma classify_apply_plan_Inr:
  assumes "classify_apply_plan all_rows tombs = Inr p"
  shows "pl_rows p = filter (\<lambda>r. row_get r ''accepted_at'' \<noteq> JNull) all_rows" and "pl_tombs p = tombs"
    and "pl_cas p = map row_cas (pl_rows p)" and "plan_mode (JStr (pl_mode p)) = Some (pl_mode p)"
    and "key_set (pl_allowed p) = pl_allowed p" and "pl_watermark p = JInt (max_or_zero (map row_id tombs))"
  using assms by (auto simp: classify_apply_plan_def bindE_eq_Inr row_cas_def plan_mode_def Let_def)

lemma plan_record_fields:
  "row_get (serialize_apply_plan p) ''mode'' = JStr (pl_mode p)"
  "row_get (serialize_apply_plan p) ''row_ids'' = JList (map (\<lambda>r. JInt (row_id r)) (pl_rows p))"
  "row_get (serialize_apply_plan p) ''allowed_removal_keys'' = JList (map triple_json (pl_allowed p))"
  "row_get (serialize_apply_plan p) ''tombstone_ids'' = JList (map (\<lambda>r. JInt (row_id r)) (pl_tombs p))"
  "row_get (serialize_apply_plan p) ''cas'' = JList (map cas_json (pl_cas p))"
  "row_get (serialize_apply_plan p) ''tombstone_id_watermark'' = pl_watermark p"
  "same_set (map fst (serialize_apply_plan p)) APPLY_PLAN_KEYS"
  by (simp_all add: serialize_apply_plan_def row_get_def dget_def same_set_def APPLY_PLAN_KEYS_def)

lemma plan_of_record_serialized:
  assumes plan: "classify_apply_plan rows tombs = Inr p"
    and "list_all int_id rows" "distinct (map row_id rows)" "list_all int_id tombs" "distinct (map row_id tombs)"
  shows "plan_of_record (serialize_apply_plan p) (pl_mode p) rows tombs = Inr p"
proof -
  note c = classify_apply_plan_Inr [OF plan]
  have sub: "set (pl_rows p) \<subseteq> set rows" "set (pl_tombs p) \<subseteq> set tombs"
    by (simp_all add: c(1,2))
  note r = ids_within_rows [OF assms(2,3) sub(1)] and t = ids_within_rows [OF assms(4,5) sub(2)]
  have cas: "cas_items (map (\<lambda>r. JInt (row_id r)) (pl_rows p)) (map cas_json (pl_cas p)) =
      Inr (map (\<lambda>r. (JInt (row_id r), row_cas r)) (pl_rows p))"
    using cas_items_serialized [OF order_refl, of "pl_rows p"] by (simp add: c(3))
  have img: "fst ` (\<lambda>r. (JInt (row_id r), row_cas r)) ` A = (\<lambda>r. JInt (row_id r)) ` A" for A
    by force
  have snds: "map snd (map (\<lambda>r. (JInt (row_id r), row_cas r)) (pl_rows p)) = pl_cas p"
    by (simp add: c(3) o_def)
  show ?thesis
    unfolding plan_of_record_def plan_record_fields r(1) t(1) option.case json_iter_def json.case bindE_simps cas
      sr_keys_triples r(2) t(2) snds c(5)
    by (simp add: img)
qed

lemma section_execution_at [simp]: "section_execution [(sec, JObj (dset tables EXECUTION_KEY (JObj ex)))] sec = Inr ex"
  by (simp add: section_execution_def)

lemma fragment_tables_dset [simp]: "fragment_tables (Some (dset tables EXECUTION_KEY x)) = fragment_tables (Some tables)"
  by (induction tables) (auto simp: fragment_tables_def)

lemma section_context_at:
  "dget ex ''context'' = dget ex' ''context'' \<Longrightarrow>
   section_context [(sec, JObj (dset tables EXECUTION_KEY (JObj ex)))] sec =
   section_context [(sec, JObj (dset tables EXECUTION_KEY (JObj ex')))] sec"
  by (simp add: section_context_def)

lemma hydrate_section_at:
  "dget ex ''context'' = dget ex' ''context'' \<Longrightarrow>
   hydrate_section [(sec, JObj (dset tables EXECUTION_KEY (JObj ex)))] sec =
   hydrate_section [(sec, JObj (dset tables EXECUTION_KEY (JObj ex')))] sec"
  using section_context_at [of ex ex' sec tables] by (simp add: hydrate_section_def dhas_def jdict_of_def)

lemma dget_map_snd: "dget (map (\<lambda>(k, v). (k, f v)) d) k = map_option f (dget d k)"
  by (induction d) auto

lemma hydrated_rows:
  assumes "hydrate_section [(sec, JObj (dset tables EXECUTION_KEY (JObj ex)))] sec = Inr hyd" and "t \<noteq> EXECUTION_KEY"
  shows "section_rows hyd t = rows_of (dget tables t)"
proof -
  have "hyd = map (\<lambda>(t, j). (t, rows_of (Some j))) (fragment_tables (Some tables))"
    using assms(1) by (auto simp: hydrate_section_def jdict_of_def bindE_eq_Inr Let_def split: if_splits)
  then show ?thesis
    using assms(2)
    by (auto simp: section_rows_def dget_map_snd dget_fragment_tables rows_of_def split: option.splits)
qed

lemma hydrate_section_context:
  "hydrate_section doc sec = Inr hyd \<Longrightarrow> \<exists>ctx. section_context doc sec = Inr ctx"
  by (auto simp: hydrate_section_def bindE_eq_Inr split: if_splits)

text \<open>
  C34. The apply plan a fragment is frozen with survives storage.  When freezing a static-route
  fragment succeeds, a document that carries the fragment's tables, its encoding context and the
  frozen proof hydrates, and hydration returns exactly the plan the classifier computed from
  those rows and carriers: the same mode, rows, removal authority, carriers, compare-and-set
  coordinates and watermark.  The recorded mode read on its own is that plan's mode.
\<close>

theorem apply_plan_round_trip:
  assumes frozen: "freeze_static_route_proof tables ctx = Inr proof"
    and rows: "list_all int_id (rows_of (dget tables ''static_route_intent''))"
      "distinct (map row_id (rows_of (dget tables ''static_route_intent'')))"
    and tombs: "list_all int_id (rows_of (dget tables ''static_route_tombstone''))"
      "distinct (map row_id (rows_of (dget tables ''static_route_tombstone'')))"
  shows "\<exists>p. classify_apply_plan (rows_of (dget tables ''static_route_intent''))
       (rows_of (dget tables ''static_route_tombstone'')) = Inr p \<and>
     hydrate_static_route_apply_plan [(''static_route'', JObj (dset tables EXECUTION_KEY
       (JObj [(''context'', JObj ctx), (''proof'', JObj proof)])))] = Inr p \<and>
     recorded_static_route_apply_mode [(''static_route'', JObj (dset tables EXECUTION_KEY
       (JObj [(''context'', JObj ctx), (''proof'', JObj proof)])))] = Inr (Some (pl_mode p))"
proof -
  let ?doc = "[(''static_route'', JObj (dset tables EXECUTION_KEY (JObj [(''context'', JObj ctx), (''proof'', JObj proof)])))]"
  obtain hyd p where hyd: "hydrate_section [(''static_route'', JObj (dset tables EXECUTION_KEY
        (JObj [(''context'', JObj ctx)])))] ''static_route'' = Inr hyd"
      and cl: "classify_apply_plan (section_rows hyd ''static_route_intent'') (section_rows hyd ''static_route_tombstone'') = Inr p"
      and pr: "proof = [(''apply'', JObj (serialize_apply_plan p))]"
    using frozen by (auto simp: freeze_static_route_proof_def bindE_eq_Inr)
  note hr = hydrated_rows [OF hyd]
  have p: "classify_apply_plan (rows_of (dget tables ''static_route_intent'')) (rows_of (dget tables ''static_route_tombstone'')) = Inr p"
    using cl by (simp add: hr)
  have hyd': "hydrate_section ?doc ''static_route'' = Inr hyd"
    by (rule trans [OF hydrate_section_at hyd]) simp
  obtain c where c: "section_context ?doc ''static_route'' = Inr c"
    using hydrate_section_context [OF hyd'] by blast
  have r: "recorded_apply ?doc = Inr (Some (JObj (serialize_apply_plan p)))"
    by (simp add: recorded_apply_def section_proof_def pr)
  have m: "plan_mode (row_get (jdict_of (Some (JObj (serialize_apply_plan p)))) ''mode'') = Some (pl_mode p)"
    by (simp add: jdict_of_def plan_record_fields classify_apply_plan_Inr(4) [OF p])
  have "hydrate_static_route_apply_plan ?doc = Inr p"
    unfolding hydrate_static_route_apply_plan_def c r bindE_simps m hyd'
    by (simp add: plan_record_fields hr plan_of_record_serialized [OF p rows tombs])
  moreover have "recorded_static_route_apply_mode ?doc = Inr (Some (pl_mode p))"
    unfolding recorded_static_route_apply_mode_def r bindE_simps m by (simp add: dhas_def)
  ultimately show ?thesis
    using p by blast
qed

theorem apply_plan_round_trip_witness:
  "\<exists>proof p. freeze_static_route_proof sample_tables sample_context = Inr proof \<and>
     hydrate_static_route_apply_plan [(''static_route'', JObj (dset sample_tables EXECUTION_KEY
       (JObj [(''context'', JObj sample_context), (''proof'', JObj proof)])))] = Inr p \<and> pl_mode p = ''PUT''"
proof -
  let ?r = "freeze_static_route_proof sample_tables sample_context"
  have "\<not> isl ?r"
    by code_simp
  then obtain pr where pr: "?r = Inr pr"
    by (cases ?r) auto
  have ids: "list_all int_id (rows_of (dget sample_tables ''static_route_intent''))"
      "distinct (map row_id (rows_of (dget sample_tables ''static_route_intent'')))"
      "list_all int_id (rows_of (dget sample_tables ''static_route_tombstone''))"
      "distinct (map row_id (rows_of (dget sample_tables ''static_route_tombstone'')))"
    by code_simp+
  have mode: "case classify_apply_plan (rows_of (dget sample_tables ''static_route_intent''))
      (rows_of (dget sample_tables ''static_route_tombstone'')) of Inl _ \<Rightarrow> False | Inr p \<Rightarrow> pl_mode p = ''PUT''"
    by code_simp
  show ?thesis
    using apply_plan_round_trip [OF pr ids] mode pr by auto
qed

text \<open>
  C36. Pruning consumed carriers from a frozen apply plan is re-classification.  Rebuilding the
  carrier-derived halves of a plan over the carriers that survive gives byte for byte the plan
  the classifier would have frozen from the same rows and only those carriers.
\<close>

theorem prune_is_reclassification:
  assumes plan: "classify_apply_plan rows tombs = Inr p"
    and again: "classify_apply_plan rows survivors = Inr p'"
    and ids: "list_all int_id rows" "distinct (map row_id rows)" "list_all int_id survivors"
  shows "prune_apply_plan (serialize_apply_plan p) rows survivors = Inr (serialize_apply_plan p')"
proof -
  define acc where "acc = filter (\<lambda>r. row_get r ''accepted_at'' \<noteq> JNull) rows"
  have sel: "filter (\<lambda>r. row_get r ''id'' \<in> set (map (\<lambda>r. JInt (row_id r)) acc)) rows = acc"
    unfolding acc_def
  proof (rule filter_cong [OF refl])
    fix r assume r: "r \<in> set rows"
    show "(row_get r ''id'' \<in> set (map (\<lambda>r. JInt (row_id r)) (filter (\<lambda>r. row_get r ''accepted_at'' \<noteq> JNull) rows))) =
        (row_get r ''accepted_at'' \<noteq> JNull)"
      using r ids(1,2) by (auto simp: list_all_iff int_id_def distinct_map dest: inj_onD)
  qed
  obtain preds keys where parts: "mapE predecessor acc = Inr preds" "mapE carrier_keys survivors = Inr keys"
      and allowed: "pl_allowed p' = key_set (concat preds @ concat keys)"
    using again by (auto simp: classify_apply_plan_def acc_def bindE_eq_Inr Let_def)
  have req: "mapE (\<lambda>t. required t ''id'') survivors = Inr (map (\<lambda>t. JInt (row_id t)) survivors)"
    by (rule mapE_pure) (use ids(3) in \<open>simp add: required_def list_all_iff int_id_dget\<close>)
  have same: "pl_mode p' = pl_mode p" "pl_rows p' = pl_rows p" "pl_cas p' = pl_cas p"
    using plan again by (auto simp: classify_apply_plan_def bindE_eq_Inr Let_def)
  note c = classify_apply_plan_Inr [OF plan] classify_apply_plan_Inr [OF again]
  have rows: "required (serialize_apply_plan p) ''row_ids'' = Inr (JList (map (\<lambda>r. JInt (row_id r)) acc))"
    by (simp add: serialize_apply_plan_def required_def dget_def c(1) acc_def)
  show ?thesis
    unfolding prune_apply_plan_def rows bindE_simps json_iter_def json.case sel parts req
    by (simp add: serialize_apply_plan_def dmerge_def same c allowed)
qed

theorem prune_is_reclassification_witness:
  "\<exists>p p'. classify_apply_plan sample_routes sample_carriers = Inr p \<and> classify_apply_plan sample_routes [] = Inr p' \<and>
     pl_allowed p \<noteq> pl_allowed p' \<and>
     prune_apply_plan (serialize_apply_plan p) sample_routes [] = Inr (serialize_apply_plan p')"
proof -
  let ?a = "classify_apply_plan sample_routes sample_carriers" and ?b = "classify_apply_plan sample_routes []"
  have ok: "\<not> isl ?a" "\<not> isl ?b" "pl_allowed (projr ?a) \<noteq> pl_allowed (projr ?b)"
    and ids: "list_all int_id sample_routes" "distinct (map row_id sample_routes)" "list_all int_id []"
    by code_simp+
  obtain p p' where p: "?a = Inr p" "?b = Inr p'"
    using ok(1,2) by (cases ?a; cases ?b) auto
  show ?thesis
    using prune_is_reclassification [OF p ids] p ok(3) by auto
qed

section \<open>The removal plan\<close>

lemma candidate_clear_fields_Inr:
  assumes "candidate_clear_fields r = Inr fs" and "fs \<noteq> []"
  shows "replacement_open r = Inr False"
    and "fs = filter (\<lambda>f. \<not> wire_set f (row_get r f)) (authorized_clear_fields (carrier_of (row_get r ''pending_clear'')))"
  using assms by (auto simp: candidate_clear_fields_def bindE_eq_Inr Let_def split: if_splits)

definition clear_of :: "jdict \<Rightarrow> sr_clear \<Rightarrow> bool" where
  "clear_of r c = (cl_row c = JInt (row_id r) \<and> cl_key c = triple_of r \<and> replacement_open r = Inr False \<and> cl_fields c \<noteq> [] \<and>
     cl_fields c = map JStr (filter (\<lambda>f. \<not> wire_set f (row_get r f)) (authorized_clear_fields (carrier_of (row_get r ''pending_clear'')))))"

lemma classify_clears_Inr:
  assumes "classify_clears rows = Inr cs" and "c \<in> set cs"
  shows "\<exists>r\<in>set rows. clear_of r c"
proof -
  obtain fields where f: "list_all2 (\<lambda>r fs. candidate_clear_fields r = Inr fs) rows fields"
      and cs: "cs = map (\<lambda>(r, fs). \<lparr>cl_row = JInt (row_id r), cl_key = triple_of r, cl_fields = map JStr fs\<rparr>)
         (filter (\<lambda>(r, fs). fs \<noteq> []) (zip rows fields))"
    using assms(1) by (auto simp: classify_clears_def bindE_eq_Inr mapE_eq_Inr)
  obtain r fs where rf: "(r, fs) \<in> set (zip rows fields)" "fs \<noteq> []"
      and c: "c = \<lparr>cl_row = JInt (row_id r), cl_key = triple_of r, cl_fields = map JStr fs\<rparr>"
    using assms(2) unfolding cs by auto
  have "candidate_clear_fields r = Inr fs"
    using f rf(1) by (auto simp: list_all2_iff)
  then have "clear_of r c"
    using candidate_clear_fields_Inr [OF _ rf(2)] rf(2) by (auto simp: clear_of_def c)
  then show ?thesis
    using rf(1) by (auto dest: set_zip_leftD)
qed

lemma classify_removal_plan_Inr:
  assumes "classify_removal_plan rows tombs allowed ctx = Inr p"
  obtains keys tkeys claimed where "removal_keys allowed = Inr keys" and "mapE carrier_keys tombs = Inr tkeys"
    and "mapE carrier_keys rows = Inr claimed"
    and "rp_authorized p = key_set (filter (\<lambda>t. t \<notin> triple_of ` set rows) (keys @ concat tkeys))"
    and "rp_reclaimed p = key_set (filter (\<lambda>t. t \<in> triple_of ` set rows) (keys @ concat tkeys))"
    and "rp_claimed p = key_set (concat claimed)" and "rp_tombs p = map (\<lambda>t. JInt (row_id t)) tombs"
    and "clears_suppressed ctx \<Longrightarrow> rp_clears p = []" and "\<And>c. c \<in> set (rp_clears p) \<Longrightarrow> \<exists>r\<in>set rows. clear_of r c"
proof -
  obtain keys tkeys claimed clears where k: "removal_keys allowed = Inr keys" "mapE carrier_keys tombs = Inr tkeys"
      "mapE carrier_keys rows = Inr claimed" and cl: "(if clears_suppressed ctx then Inr [] else classify_clears rows) = Inr clears"
      and p: "p = \<lparr>rp_authorized = key_set (filter (\<lambda>t. t \<notin> set (map triple_of rows)) (keys @ concat tkeys)),
            rp_claimed = key_set (concat claimed), rp_tombs = map (\<lambda>t. JInt (row_id t)) tombs,
            rp_clears = clears,
            rp_reclaimed = key_set (filter (\<lambda>t. t \<in> set (map triple_of rows)) (keys @ concat tkeys))\<rparr>"
    using assms unfolding classify_removal_plan_def bindE_eq_Inr Let_def by blast
  show thesis
    by (rule that [OF k]) (use cl classify_clears_Inr [of rows clears] in \<open>auto simp: p split: if_splits\<close>)
qed

text \<open>
  C37. A removal plan splits its authority.  The keys a removal may take away and the keys it
  reports as reclaimed are disjoint and together are exactly the keys the promotion and the
  selected carriers authorize; no key that a surviving row still renders is authorized; and
  every recorded clear names a surviving row at its rendered key, over fields that row's
  authorized carrier holds wire-unset, on a row with no predecessor still to be replaced.
  A detaching or deferred removal records no clears.
\<close>

theorem removal_plan_splits_authority:
  assumes plan: "classify_removal_plan rows tombs allowed ctx = Inr p"
  shows "set (rp_authorized p) \<inter> set (rp_reclaimed p) = {} \<and>
     (\<exists>keys tkeys. removal_keys allowed = Inr keys \<and> mapE carrier_keys tombs = Inr tkeys \<and>
        set (rp_authorized p) \<union> set (rp_reclaimed p) = set keys \<union> set (concat tkeys)) \<and>
     set (rp_authorized p) \<inter> triple_of ` set rows = {} \<and> set (rp_reclaimed p) \<subseteq> triple_of ` set rows \<and>
     triple_of ` set rows \<subseteq> set (rp_claimed p) \<and>
     (clears_suppressed ctx \<longrightarrow> rp_clears p = []) \<and>
     (\<forall>c\<in>set (rp_clears p). \<exists>r\<in>set rows. cl_row c = JInt (row_id r) \<and> cl_key c = triple_of r \<and>
        replacement_open r = Inr False \<and> cl_fields c \<noteq> [] \<and>
        (\<forall>f\<in>set (cl_fields c). \<exists>n. f = JStr n \<and>
           n \<in> set (authorized_clear_fields (carrier_of (row_get r ''pending_clear''))) \<and> \<not> wire_set n (row_get r n)))"
proof (rule classify_removal_plan_Inr [OF plan])
  fix keys tkeys claimed
  assume k: "removal_keys allowed = Inr keys" "mapE carrier_keys tombs = Inr tkeys" and cl: "mapE carrier_keys rows = Inr claimed"
    and au: "rp_authorized p = key_set (filter (\<lambda>t. t \<notin> triple_of ` set rows) (keys @ concat tkeys))"
    and re: "rp_reclaimed p = key_set (filter (\<lambda>t. t \<in> triple_of ` set rows) (keys @ concat tkeys))"
    and cm: "rp_claimed p = key_set (concat claimed)"
    and sup: "clears_suppressed ctx \<Longrightarrow> rp_clears p = []" and clr: "\<And>c. c \<in> set (rp_clears p) \<Longrightarrow> \<exists>r\<in>set rows. clear_of r c"
  have own: "triple_of r \<in> set (concat claimed)" if r: "r \<in> set rows" for r
  proof -
    obtain ks where ks: "ks \<in> set claimed" "carrier_keys r = Inr ks"
      using mapE_member [OF cl r] by blast
    then have "triple_of r \<in> set ks"
      by (auto simp: carrier_keys_def bindE_eq_Inr)
    then show ?thesis
      using ks(1) by auto
  qed
  have clears: "\<exists>r\<in>set rows. cl_row c = JInt (row_id r) \<and> cl_key c = triple_of r \<and>
        replacement_open r = Inr False \<and> cl_fields c \<noteq> [] \<and>
        (\<forall>f\<in>set (cl_fields c). \<exists>n. f = JStr n \<and>
           n \<in> set (authorized_clear_fields (carrier_of (row_get r ''pending_clear''))) \<and> \<not> wire_set n (row_get r n))"
    if "c \<in> set (rp_clears p)" for c
    using clr [OF that] by (auto simp: clear_of_def)
  have split: "set (rp_authorized p) \<inter> set (rp_reclaimed p) = {}"
      "set (rp_authorized p) \<union> set (rp_reclaimed p) = set keys \<union> set (concat tkeys)"
      "set (rp_authorized p) \<inter> triple_of ` set rows = {}" "set (rp_reclaimed p) \<subseteq> triple_of ` set rows"
    unfolding au re set_key_set by auto
  show ?thesis
    using split k own clears sup unfolding cm set_key_set by blast
qed

definition sample_authority :: json where
  "sample_authority = JObj [(''static_route'', JObj [(''route'', JList [triple_json ([], ''10.1.0.0/16'', ''10.0.0.1''),
     triple_json ([], ''10.5.0.0/16'', ''10.0.0.1'')])])]"

theorem removal_plan_splits_authority_witness:
  "\<exists>p. classify_removal_plan sample_routes sample_carriers sample_authority [] = Inr p \<and>
     set (rp_authorized p) \<inter> triple_of ` set sample_routes = {} \<and> rp_clears p \<noteq> [] \<and> rp_reclaimed p \<noteq> []"
proof -
  let ?r = "classify_removal_plan sample_routes sample_carriers sample_authority []"
  have "case ?r of Inl _ \<Rightarrow> False | Inr p \<Rightarrow> rp_clears p \<noteq> [] \<and> rp_reclaimed p \<noteq> []"
    by code_simp
  then obtain p where p: "?r = Inr p" "rp_clears p \<noteq> []" "rp_reclaimed p \<noteq> []"
    by (cases ?r) auto
  show ?thesis
    using removal_plan_splits_authority [OF p(1)] p by blast
qed

lemma classify_removal_plan_clears:
  "classify_removal_plan rows tombs allowed ctx = Inr p \<Longrightarrow> c \<in> set (rp_clears p) \<Longrightarrow> \<exists>r\<in>set rows. clear_of r c"
  by (rule classify_removal_plan_Inr)

section \<open>The removal plan survives storage\<close>

lemma clear_item_json [simp]: "clear_item (clear_json c) = Inr c"
  by (simp add: clear_item_def clear_json_def item_field_def required_def json_iter_def)

lemma clear_items_json [simp]: "mapE clear_item (map clear_json cs) = Inr cs"
  by (induction cs) simp_all

lemma removal_record_fields:
  "row_get (serialize_removal_plan p) ''candidate_clears'' = JList (map clear_json (rp_clears p))"
  "row_get (serialize_removal_plan p) ''tombstone_ids'' = JList (rp_tombs p)"
  "recorded_keys (serialize_removal_plan p) ''authorized_removal_keys'' = Inr (rp_authorized p)"
  "recorded_keys (serialize_removal_plan p) ''claimed_keys'' = Inr (rp_claimed p)"
  "recorded_keys (serialize_removal_plan p) ''reclaimed_keys'' = Inr (rp_reclaimed p)"
  "same_set (map fst (serialize_removal_plan p)) REMOVAL_PLAN_KEYS"
  by (simp_all add: serialize_removal_plan_def row_get_def same_set_def REMOVAL_PLAN_KEYS_def recorded_keys_def json_iter_def)

lemma clear_of_certified:
  assumes "list_all int_id rows" and "distinct (map row_id rows)" and "r \<in> set rows" and "clear_of r c"
  shows "certify_clear (rows_by_id rows) c"
  using assms(4) rows_by_id_get [OF assms(1-3)] by (simp add: certify_clear_def clear_of_def list_all_iff)

text \<open>
  C35. The removal classification survives storage and passes its certification.  When the
  operation plane of a static-route removal is built over a document, the document that carries
  that operation hydrates to exactly the plan the classifier computed from the document's own
  rows and the selected carriers of the device; in particular no clear the classifier recorded
  is refused when it is certified against the rows.
\<close>

theorem removal_plan_round_trip:
  assumes built: "build_static_route_operation s d [(''static_route'', JObj (dset tables EXECUTION_KEY (JObj ex)))] ctx allowed ids = Inr opn"
    and rows: "list_all int_id (rows_of (dget tables ''static_route_intent''))"
      "distinct (map row_id (rows_of (dget tables ''static_route_intent'')))"
  shows "\<exists>p. classify_removal_plan (rows_of (dget tables ''static_route_intent''))
       (map tomb_row (sort_key t_id (filter (\<lambda>t. t_device t = d \<and> t_id t \<in> set ids) (st_tombs s)))) allowed
       (case ctx of None \<Rightarrow> [] | Some c \<Rightarrow> c) = Inr p \<and>
     hydrate_static_route_removal_plan
       [(''static_route'', JObj (dset tables EXECUTION_KEY (JObj (dset ex ''operation'' (JObj opn)))))] = Inr p"
proof -
  let ?doc = "[(''static_route'', JObj (dset tables EXECUTION_KEY (JObj ex)))]"
  let ?doc' = "[(''static_route'', JObj (dset tables EXECUTION_KEY (JObj (dset ex ''operation'' (JObj opn)))))]"
  let ?tombs = "map tomb_row (sort_key t_id (filter (\<lambda>t. t_device t = d \<and> t_id t \<in> set ids) (st_tombs s)))"
  let ?rows = "rows_of (dget tables ''static_route_intent'')"
  obtain hyd p where hyd: "hydrate_section ?doc ''static_route'' = Inr hyd"
      and cl: "classify_removal_plan (section_rows hyd ''static_route_intent'') ?tombs allowed
        (case ctx of None \<Rightarrow> [] | Some c \<Rightarrow> c) = Inr p"
      and opn: "opn = [(''removal'', JObj (serialize_removal_plan p)), (''tombstone_ids'', JList (map JInt (sort ids)))]"
    using built by (auto simp: build_static_route_operation_def bindE_eq_Inr Let_def split: if_splits)
  have p: "classify_removal_plan ?rows ?tombs allowed (case ctx of None \<Rightarrow> [] | Some c \<Rightarrow> c) = Inr p"
    using cl by (simp add: hydrated_rows [OF hyd])
  obtain c where c: "section_context ?doc' ''static_route'' = Inr c"
    using hydrate_section_context [OF hyd] section_context_at [of "dset ex ''operation'' (JObj opn)" ex "''static_route''" tables] by auto
  have sop: "section_operation ?doc' ''static_route'' = Inr opn"
    by (simp add: section_operation_def)
  have cert: "certify_clears ?doc' (rp_clears p) = Inr ()"
    using classify_removal_plan_clears [OF p] clear_of_certified [OF rows]
    by (auto simp: certify_clears_def jdict_of_def list_all_iff)
  have keys: "key_set (rp_authorized p) = rp_authorized p" "key_set (rp_claimed p) = rp_claimed p"
    by (rule classify_removal_plan_Inr [OF p], simp)+
  have rm: "dget opn ''removal'' = Some (JObj (serialize_removal_plan p))"
    by (simp add: opn)
  have "hydrate_static_route_removal_plan ?doc' = Inr p"
    unfolding hydrate_static_route_removal_plan_def c sop bindE_simps rm option.case json.case removal_record_fields json_iter_def
      clear_items_json cert keys
    by (simp add: removal_record_fields)
  then show ?thesis
    using p by blast
qed

theorem removal_plan_round_trip_witness:
  "\<exists>opn p. build_static_route_operation sample_store 1 [(''static_route'', JObj (dset sample_tables EXECUTION_KEY
       (JObj [(''context'', JObj sample_context)])))] None sample_authority [] = Inr opn \<and>
     hydrate_static_route_removal_plan [(''static_route'', JObj (dset sample_tables EXECUTION_KEY
       (JObj (dset [(''context'', JObj sample_context)] ''operation'' (JObj opn)))))] = Inr p"
proof -
  let ?r = "build_static_route_operation sample_store 1 [(''static_route'', JObj (dset sample_tables EXECUTION_KEY
       (JObj [(''context'', JObj sample_context)])))] None sample_authority []"
  have "\<not> isl ?r"
    by code_simp
  then obtain opn where opn: "?r = Inr opn"
    by (cases ?r) auto
  have ids: "list_all int_id (rows_of (dget sample_tables ''static_route_intent''))"
      "distinct (map row_id (rows_of (dget sample_tables ''static_route_intent'')))"
    by code_simp+
  show ?thesis
    using removal_plan_round_trip [OF opn ids] opn by blast
qed

section \<open>The clear carrier\<close>

lemma row_get_Cons: "row_get ((k, v) # d) k' = (if k = k' then v else row_get d k')"
  by (simp add: row_get_def)

lemma row_get_optional: "row_get ((if P then [(k, v)] else []) @ d) k' = (if P \<and> k = k' then v else row_get d k')"
  by (simp add: row_get_def)

lemma row_get_optional_last: "row_get (if P then [(k, v)] else []) k' = (if P \<and> k = k' then v else JNull)"
  by (simp add: row_get_def)

lemma entry_leaf:
  assumes "static_route_entry row = Inr entry"
  shows "row_get entry ''interface-next-hop'' = (if truthy (row_get row ''interface_next_hop'') then row_get row ''interface_next_hop'' else JNull)"
    and "row_get entry ''next-hop-vrf'' = (if truthy (row_get row ''next_hop_vrf'') then row_get row ''next_hop_vrf'' else JNull)"
    and "row_get entry ''metric'' = row_get row ''metric''"
    and "row_get entry ''permanent'' = (if truthy (row_get row ''permanent'') then row_get row ''permanent'' else JNull)"
    and "row_get entry ''tag'' = row_get row ''tag''"
proof -
  obtain vrf prefix hop where e: "entry = [(''vrf'', vrf), (''prefix'', prefix), (''next-hop'', hop)] @
       (if truthy (row_get row ''interface_next_hop'') then [(''interface-next-hop'', row_get row ''interface_next_hop'')] else []) @
       (if truthy (row_get row ''next_hop_vrf'') then [(''next-hop-vrf'', row_get row ''next_hop_vrf'')] else []) @
       (if row_get row ''metric'' \<noteq> JNull then [(''metric'', row_get row ''metric'')] else []) @
       (if truthy (row_get row ''permanent'') then [(''permanent'', row_get row ''permanent'')] else []) @
       (if row_get row ''tag'' \<noteq> JNull then [(''tag'', row_get row ''tag'')] else [])"
    using assms unfolding static_route_entry_def bindE_eq_Inr by blast
  show "row_get entry ''interface-next-hop'' = (if truthy (row_get row ''interface_next_hop'') then row_get row ''interface_next_hop'' else JNull)"
    "row_get entry ''next-hop-vrf'' = (if truthy (row_get row ''next_hop_vrf'') then row_get row ''next_hop_vrf'' else JNull)"
    "row_get entry ''metric'' = row_get row ''metric''"
    "row_get entry ''permanent'' = (if truthy (row_get row ''permanent'') then row_get row ''permanent'' else JNull)"
    "row_get entry ''tag'' = row_get row ''tag''"
    unfolding e append.simps row_get_Cons row_get_optional row_get_optional_last by simp_all
qed

text \<open>
  The renderer defines "set".  For every field that can be cleared and every row whose
  \<open>permanent\<close> is a boolean or null, the rendered wire entry proves the field neutral
  exactly when the field is not wire-set in the store: a metric or tag of zero is not neutral,
  and a false \<open>permanent\<close> is.
\<close>

theorem neutral_iff_not_wire_set:
  assumes "static_route_entry row = Inr entry" and "f \<in> set SR_CLEAR_FIELDS"
    and "row_get row ''permanent'' \<in> {JNull, JBool True, JBool False}"
  shows "leaf_is_neutral f entry = Inr (\<not> wire_set f (row_get row f))"
proof -
  note leaf = entry_leaf [OF assms(1)]
  have tn: "truthy v \<Longrightarrow> v \<noteq> JNull \<and> v \<noteq> JStr []" for v
    by auto
  consider "f = ''interface_next_hop''" | "f = ''next_hop_vrf''" | "f = ''metric''" | "f = ''permanent''" | "f = ''tag''"
    using assms(2) by (auto simp: SR_CLEAR_FIELDS_def)
  then show ?thesis
  proof cases
    case 4
    then show ?thesis
      using assms(3) by (auto simp: leaf_is_neutral_def clear_wire_leaf_def wire_set_def leaf Let_def)
  qed (use tn in \<open>simp_all add: leaf_is_neutral_def clear_wire_leaf_def wire_set_def leaf Let_def\<close>)
qed

theorem neutral_iff_not_wire_set_witness:
  "\<exists>e. static_route_entry (hd sample_routes) = Inr e \<and> leaf_is_neutral ''tag'' e = Inr False \<and>
     leaf_is_neutral ''permanent'' e = Inr True"
proof -
  let ?r = "static_route_entry (hd sample_routes)"
  have ok: "\<not> isl ?r" and f: "''tag'' \<in> set SR_CLEAR_FIELDS" "''permanent'' \<in> set SR_CLEAR_FIELDS"
    and p: "row_get (hd sample_routes) ''permanent'' \<in> {JNull, JBool True, JBool False}"
    and v: "wire_set ''tag'' (row_get (hd sample_routes) ''tag'')" "\<not> wire_set ''permanent'' (row_get (hd sample_routes) ''permanent'')"
    by code_simp+
  obtain e where e: "?r = Inr e"
    using ok by (cases ?r) auto
  show ?thesis
    using neutral_iff_not_wire_set [OF e f(1) p] neutral_iff_not_wire_set [OF e f(2) p] v e by auto
qed

definition halves :: "carrier \<Rightarrow> string set \<times> string set" where
  "halves c = (case c of None \<Rightarrow> ({}, {}) | Some (a, st) \<Rightarrow> (set a, set st))"

text \<open>
  C38. The two halves of the clear carrier.  A push drops the fields it re-sets from both halves.
  A store-only push never adds to the half a networked removal delivers and never takes from it
  anything but re-set fields; a networked push moves its clears into that half.  Either way every
  clear of the push is pending afterwards, disjoint halves stay disjoint, and the carrier is
  absent exactly when nothing is pending.
\<close>

theorem pending_clear_halves:
  assumes "fst (halves c) \<inter> snd (halves c) = {}"
  shows "fst (halves (update_pending_clear c cleared reset True)) = fst (halves c) - set reset \<and>
     fst (halves (update_pending_clear c cleared reset False)) = (fst (halves c) - set reset) \<union> set cleared \<and>
     snd (halves (update_pending_clear c cleared reset False)) = snd (halves c) - set reset - set cleared \<and>
     pending_clear_fields (update_pending_clear c cleared reset so) = (pending_clear_fields c - set reset) \<union> set cleared \<and>
     fst (halves (update_pending_clear c cleared reset so)) \<inter> snd (halves (update_pending_clear c cleared reset so)) = {} \<and>
     set (authorized_clear_fields (update_pending_clear c cleared reset so)) = fst (halves (update_pending_clear c cleared reset so)) \<and>
     (update_pending_clear c cleared reset so = None \<longleftrightarrow> pending_clear_fields (update_pending_clear c cleared reset so) = {})"
proof -
  obtain a st where ab: "halves c = (set a, set st)" "set a \<inter> set st = {}"
      and c: "(case c of None \<Rightarrow> ([], []) | Some x \<Rightarrow> x) = (a, st)" and pend: "pending_clear_fields c = set a \<union> set st"
    using assms by (cases c) (auto simp: halves_def pending_clear_fields_def)
  let ?upd = "\<lambda>so. update_pending_clear c cleared reset so"
  have au: "fst (halves (?upd so)) = (fst (halves c) - set reset) \<union> (if so then {} else set cleared)"
    and st: "snd (halves (?upd so)) = (if so then (snd (halves c) - set reset) \<union> (set cleared - (fst (halves c) - set reset))
        else snd (halves c) - set reset - set cleared)" for so
    unfolding update_pending_clear_def c ab by (auto simp: halves_def Let_def filter_empty_conv)
  have pf: "pending_clear_fields x = fst (halves x) \<union> snd (halves x)" and af: "set (authorized_clear_fields x) = fst (halves x)" for x
    by (auto simp: pending_clear_fields_def authorized_clear_fields_def halves_def split: option.splits)
  have none: "?upd so = None \<longleftrightarrow> pending_clear_fields (?upd so) = {}"
    unfolding update_pending_clear_def c
    by (auto simp: pending_clear_fields_def Let_def filter_empty_conv)
  show ?thesis
    unfolding none pf af au st using ab(2) unfolding ab(1) by auto
qed

theorem pending_clear_halves_witness:
  "fst (halves (update_pending_clear (Some ([''metric''], [''tag''])) [''permanent''] [''tag''] True)) = {''metric''}"
proof -
  have d: "fst (halves (Some ([''metric''], [''tag'']))) \<inter> snd (halves (Some ([''metric''], [''tag'']))) = {}"
    by (simp add: halves_def)
  show ?thesis
    using pending_clear_halves [OF d, of "[''permanent'']" "[''tag'']" True] by (simp add: halves_def)
qed

end
