(* ===== verification/Generation_Chain.thy ===== *)
theory Generation_Chain
  imports Job_Admission Static_Route_Plan
begin

text \<open>
  The ordered chain of deployment generations (\<open>core/generation.py\<close>): accepted writes and
  promotion, the storing of a generation, its admission onto a job, the success barrier, the two
  operator exits from a blocked head, advancement and startup recovery.

  The projection lock is held from its acquisition to the commit, so an operation that takes it
  is one step on the store.  \<open>snap\<close> stands for snapshotting and freezing a stream's live intent
  rows, which the store does not hold.  A push sequence that is null is left out of
  \<open>g_push_seq\<close>.
\<close>

section \<open>Writes and promotion\<close>

definition lock_device_document :: "int \<Rightarrow> store \<Rightarrow> exn + unit" where
  "lock_device_document d s = (if d \<in> set (st_devices s) then Inr () else Inl DeviceProjectionGone)"

definition lock_projection :: "int \<Rightarrow> store \<Rightarrow> exn + store" where
  "lock_projection d s = bindE (lock_device_document d s) (\<lambda>_.
     Inr (if exists_where (\<lambda>c. n_device c = d) (st_gencnt s) then s
          else s\<lparr>st_gencnt := st_gencnt s @ [\<lparr>n_device = d, n_last = 0\<rparr>]\<rparr>))"

definition stream_at :: "store \<Rightarrow> int \<Rightarrow> string \<Rightarrow> stream_row option" where
  "stream_at s d stream = List.find (\<lambda>r. s_device r = d \<and> s_stream r = stream) (st_streams s)"

definition note_write :: "int \<Rightarrow> string \<Rightarrow> int option \<Rightarrow> store \<Rightarrow> exn + store \<times> int" where
  "note_write d stream push s =
     (if (case projection_streams of None \<Rightarrow> True | Some ss \<Rightarrow> stream \<notin> set ss)
      then Inl (ValueError ''unknown projection stream'')
      else bindE (lock_projection d s) (\<lambda>s1. case stream_at s1 d stream of
          None \<Rightarrow> Inr (s1\<lparr>st_streams := st_streams s1 @ [\<lparr>s_device = d, s_stream = stream, s_desired = 1,
             s_authorized = 0, s_applied = 0, s_push_seq = push, s_prepared = None, s_document = None\<rparr>]\<rparr>, 1)
        | Some r \<Rightarrow> Inr (upd_streams (\<lambda>r. s_device r = d \<and> s_stream r = stream)
             (\<lambda>r. r\<lparr>s_desired := s_desired r + 1, s_push_seq := push\<rparr>) s1, s_desired r + 1)))"

definition next_seq :: "int \<Rightarrow> store \<Rightarrow> exn + store \<times> int" where
  "next_seq d s = (case row_by n_device d (st_gencnt s) of
       None \<Rightarrow> Inl DeviceProjectionGone
     | Some c \<Rightarrow> Inr (s\<lparr>st_gencnt := upd_where (\<lambda>c. n_device c = d) (\<lambda>c. c\<lparr>n_last := n_last c + 1\<rparr>) (st_gencnt s)\<rparr>,
          n_last c + 1))"

definition allocate_settlement_cohort :: "store \<Rightarrow> store \<times> int" where
  "allocate_settlement_cohort s = (s\<lparr>st_next_cohort := st_next_cohort s + 1\<rparr>, st_next_cohort s)"

definition request_settlement_cohort :: "bool \<Rightarrow> int \<Rightarrow> store \<Rightarrow> exn + store \<times> int option" where
  "request_settlement_cohort store_only n s =
     (if n < 0 then Inl (ValueError ''generation_count cannot be negative'')
      else if n \<le> 1 \<or> store_only then Inr (s, None)
      else let (s1, c) = allocate_settlement_cohort s in Inr (s1, Some c))"

text \<open>\<open>auto_apply\<close> is the flag of the device's settings row, if it has one.\<close>

definition auto_apply_requested :: "bool option \<Rightarrow> int \<Rightarrow> exn + bool" where
  "auto_apply_requested auto_apply n =
     (if n < 0 then Inl (ValueError ''mutation_count cannot be negative'')
      else Inr (n \<noteq> 0 \<and> auto_apply = Some True))"

definition prepare_request_settlement ::
  "bool \<Rightarrow> bool option \<Rightarrow> int \<Rightarrow> int \<Rightarrow> store \<Rightarrow> exn + store \<times> bool \<times> int option" where
  "prepare_request_settlement store_only auto_apply mutations removals s =
     (if removals < 0 then Inl (ValueError ''removal_generation_count cannot be negative'')
      else bindE (auto_apply_requested auto_apply mutations) (\<lambda>req.
           bindE (request_settlement_cohort store_only (removals + (if req then 1 else 0)) s) (\<lambda>(s1, c).
             Inr (s1, req, c))))"

section \<open>Consumed carriers\<close>

definition lifecycle_table :: "string \<Rightarrow> exn + bool" where
  "lifecycle_table t = (case spec_or_refuse t of
     None \<Rightarrow> Inl (ValueError ''unknown projection table'') | Some spec \<Rightarrow> Inr (ts_lifecycle spec))"

definition id_in :: "int list \<Rightarrow> json \<Rightarrow> bool" where
  "id_in ids j = (row_get (jdict_of (Some j)) ''id'' \<in> set (map JInt ids))"

definition keep_carriers :: "int list \<Rightarrow> json \<Rightarrow> json" where
  "keep_carriers ids v = (case v of JList xs \<Rightarrow> JList (filter (id_in ids) xs) | _ \<Rightarrow> v)"

definition prune_consumed_carriers :: "jdict \<Rightarrow> int list \<Rightarrow> exn + jdict" where
  "prune_consumed_carriers frag ids =
     bindE (mapE (\<lambda>(t, _). lifecycle_table t) (fragment_tables (Some frag))) (\<lambda>flags.
       let carriers = map fst (filter snd (zip (map fst (fragment_tables (Some frag))) flags)) in
       if list_all (\<lambda>t. list_all (id_in ids) (case dget frag t of Some (JList xs) \<Rightarrow> xs | _ \<Rightarrow> [])) carriers
       then Inr frag
       else
         let result = map (\<lambda>(t, v). (t, if t \<in> set carriers then keep_carriers ids v else v)) frag;
             ex = jdict_of (dget result EXECUTION_KEY);
             pr = jdict_of (dget ex ''proof'')
         in (case dget pr ''apply'' of
               Some (JObj plan) \<Rightarrow>
                 bindE (prune_apply_plan plan (rows_of (dget result ''static_route_intent'')) (rows_of (dget result ''static_route_tombstone'')))
                   (\<lambda>plan'. Inr (dset result EXECUTION_KEY (JObj (dset ex ''proof'' (JObj (dset pr ''apply'' (JObj plan')))))))
             | _ \<Rightarrow> Inr result))"

definition authorized_fragment :: "stream_row \<Rightarrow> jdict option" where
  "authorized_fragment r = (case s_document r of Some (kv # d) \<Rightarrow> Some (kv # d) | _ \<Rightarrow> None)"

definition refresh_row :: "int \<Rightarrow> int list \<Rightarrow> stream_row \<Rightarrow> exn + stream_row" where
  "refresh_row d ids r = (if s_device r \<noteq> d then Inr r else case authorized_fragment r of
       None \<Rightarrow> Inr r
     | Some frag \<Rightarrow> bindE (prune_consumed_carriers frag ids) (\<lambda>p. Inr (r\<lparr>s_document := Some p\<rparr>)))"

definition refresh_consumed_carriers ::
  "int \<Rightarrow> int list \<Rightarrow> store \<Rightarrow> exn + store \<times> (string \<times> jdict) list" where
  "refresh_consumed_carriers d selected s =
     (let existing = map t_id (filter (\<lambda>t. t_device t = d) (st_tombs s)) in
      if list_ex (\<lambda>k. k \<notin> set existing) selected then Inl CarrierGone
      else bindE (mapE (refresh_row d existing) (st_streams s)) (\<lambda>rows.
        Inr (s\<lparr>st_streams := rows\<rparr>,
          concat (map (\<lambda>r. if s_device r = d then (case authorized_fragment r of None \<Rightarrow> [] | Some f \<Rightarrow> [(s_stream r, f)]) else []) rows))))"

definition compose_authorized_document :: "int \<Rightarrow> (string \<times> jdict) list \<Rightarrow> store \<Rightarrow> exn + store \<times> jdict" where
  "compose_authorized_document d promoted s = bindE (refresh_consumed_carriers d [] s) (\<lambda>(s1, fragments).
     bindE (compose_document (dmerge fragments promoted)) (\<lambda>doc. Inr (s1, doc)))"

section \<open>Creation\<close>

record promoted_streams =
  pr_revisions :: "(string \<times> int) list"
  pr_push :: "(string \<times> int) list"
  pr_fragments :: "(string \<times> jdict) list"

definition add_push :: "string \<Rightarrow> int option \<Rightarrow> (string \<times> int) list \<Rightarrow> (string \<times> int) list" where
  "add_push stream p d = (case p of None \<Rightarrow> d | Some n \<Rightarrow> d @ [(stream, n)])"

definition promote_stream ::
  "(string \<Rightarrow> exn + jdict) \<Rightarrow> (string \<times> jdict) list \<Rightarrow> int \<Rightarrow> store \<times> promoted_streams \<Rightarrow> string \<Rightarrow> exn + store \<times> promoted_streams" where
  "promote_stream snap frozen d acc stream = (case acc of (s, p) \<Rightarrow>
     if stream \<in> set OUT_OF_PROTOCOL_STREAMS then
       (case dget frozen stream of
          None \<Rightarrow> Inl (RuntimeError ''the stream promotes its frozen prepared fragment; none was given'')
        | Some frag \<Rightarrow> (case Option.bind (stream_at s d stream) s_prepared of
            None \<Rightarrow> Inl (RuntimeError ''no prepared snapshot to promote'')
          | Some rv \<Rightarrow> Inr (upd_streams (\<lambda>r. s_device r = d \<and> s_stream r = stream) (\<lambda>r. r\<lparr>s_authorized := rv\<rparr>) s,
              p\<lparr>pr_revisions := pr_revisions p @ [(stream, rv)], pr_fragments := pr_fragments p @ [(stream, frag)]\<rparr>)))
     else (case stream_at s d stream of
         None \<Rightarrow> Inl (RuntimeError ''no accepted write to promote'')
       | Some r \<Rightarrow> bindE (case dget frozen stream of Some frag \<Rightarrow> Inr frag | None \<Rightarrow> snap stream) (\<lambda>frag.
           Inr (upd_streams (\<lambda>r. s_device r = d \<and> s_stream r = stream) (\<lambda>r. r\<lparr>s_authorized := s_desired r\<rparr>) s,
             p\<lparr>pr_revisions := pr_revisions p @ [(stream, s_desired r)], pr_push := add_push stream (s_push_seq r) (pr_push p),
               pr_fragments := pr_fragments p @ [(stream, frag)]\<rparr>))))"

definition authorized_assignment :: "jdict \<Rightarrow> exn + jdict" where
  "authorized_assignment frag = (if fragment_context (Some frag) = None
     then Inl (ValueError ''the authorized fragment has no execution context'') else Inr frag)"

definition authorize_fragment :: "int \<Rightarrow> store \<Rightarrow> string \<times> jdict \<Rightarrow> exn + store" where
  "authorize_fragment d s sf = (case sf of (stream, frag) \<Rightarrow> bindE (authorized_assignment frag) (\<lambda>doc.
     Inr (upd_streams (\<lambda>r. s_device r = d \<and> s_stream r = stream) (\<lambda>r. r\<lparr>s_document := Some doc\<rparr>) s)))"

record gen_request =
  rq_mode :: gen_mode
  rq_allowed :: jdict
  rq_removal :: "jdict option"
  rq_cohort :: "int option"
  rq_tombs :: "int list"
  rq_clears :: "int list"
  rq_attempt :: "string option"
  rq_immediate :: "string list"

text \<open>The operation plane of a removal, written into the section its context names.\<close>

definition operation_plane :: "store \<Rightarrow> int \<Rightarrow> gen_request \<Rightarrow> jdict \<Rightarrow> exn + jdict" where
  "operation_plane s d rq body =
     (case row_get (case rq_removal rq of None \<Rightarrow> [] | Some c \<Rightarrow> c) ''scope'' of
        JStr scope \<Rightarrow> (case dget body scope of
            Some (JObj section) \<Rightarrow>
              bindE (if scope \<noteq> ''static_route'' then Inr []
                     else build_static_route_operation s d body (rq_removal rq) (JObj (rq_allowed rq)) (rq_tombs rq)) (\<lambda>sr.
                let opn = dmerge ((''pending_clear_ids'', JList (map JInt (sort (rq_clears rq)))) #
                      (if rq_immediate rq = [] then [] else [(''immediate_clear_streams'', JList (map JStr (sort (rq_immediate rq))))])) sr
                in Inr (dset body scope (JObj (dset section EXECUTION_KEY
                     (JObj (dset (jdict_of (dget section EXECUTION_KEY)) ''operation'' (JObj opn)))))))
          | _ \<Rightarrow> Inl (OperationSectionAbsent scope))
      | JNull \<Rightarrow> Inr body
      | _ \<Rightarrow> Inl (OperationSectionAbsent []))"

definition store_generation ::
  "env \<Rightarrow> int \<Rightarrow> gen_request \<Rightarrow> jdict \<Rightarrow> (string \<times> int) list \<Rightarrow> (string \<times> int) list \<Rightarrow> store \<Rightarrow> exn + store \<times> generation" where
  "store_generation E d rq doc pushes revs s =
     bindE (validate_removal_authority (JObj (rq_allowed rq))) (\<lambda>_.
     bindE (operation_plane s d rq doc) (\<lambda>body.
     bindE (next_seq d s) (\<lambda>(s1, sq).
       let g = \<lparr>g_id = st_next_gen s1, g_device = d, g_seq = sq, g_mode = rq_mode rq, g_status = GPending, g_document = body,
            g_digest = e_digest E (rq_mode rq) body (rq_allowed rq), g_allowed = rq_allowed rq, g_push_seq = pushes,
            g_revisions = revs, g_cohort = rq_cohort rq, g_removal = rq_removal rq, g_apply_attempt = rq_attempt rq,
            g_job = None, g_car_job = None, g_car_status = None, g_car_result = None, g_car_error = None, g_attempts = 0,
            g_error = None, g_settled_at = None\<rparr>
       in Inr (s1\<lparr>st_gens := st_gens s1 @ [g], st_next_gen := st_next_gen s1 + 1\<rparr>, g))))"

definition create_generation ::
  "env \<Rightarrow> bool \<Rightarrow> (string \<Rightarrow> exn + jdict) \<Rightarrow> int \<Rightarrow> string list \<Rightarrow> gen_request \<Rightarrow> jdict option \<Rightarrow> (string \<times> jdict) list
   \<Rightarrow> store \<Rightarrow> exn + store \<times> generation" where
  "create_generation E store_only snap d streams rq document frozen s =
     (if store_only then Inl (RuntimeError ''store-only never promotes'')
      else if streams = [] then Inl (ValueError ''a generation must name at least one projection stream'')
      else bindE (lock_projection d s) (\<lambda>s1.
           bindE (refresh_consumed_carriers d (rq_tombs rq) s1) (\<lambda>(s2, _).
           bindE (foldE (promote_stream snap frozen d) (s2, \<lparr>pr_revisions = [], pr_push = [], pr_fragments = []\<rparr>)
                    (sort (remdups streams))) (\<lambda>(s3, p).
           bindE (foldE (authorize_fragment d) s3 (pr_fragments p)) (\<lambda>s4.
           bindE (case document of Some doc \<Rightarrow> Inr (s4, doc) | None \<Rightarrow> compose_authorized_document d (pr_fragments p) s4) (\<lambda>(s5, body).
             store_generation E d rq body (pr_push p) (pr_revisions p) s5))))))"

definition create_reissue_generation :: "env \<Rightarrow> int \<Rightarrow> gen_request \<Rightarrow> store \<Rightarrow> exn + store \<times> generation" where
  "create_reissue_generation E d rq s =
     bindE (lock_projection d s) (\<lambda>s1.
     bindE (refresh_consumed_carriers d (rq_tombs rq) s1) (\<lambda>(s2, fragments).
     bindE (compose_document fragments) (\<lambda>doc.
       store_generation E d (rq\<lparr>rq_cohort := None, rq_attempt := None, rq_immediate := []\<rparr>) doc
         (concat (map (\<lambda>r. if s_device r = d \<and> dhas fragments (s_stream r) then add_push (s_stream r) (s_push_seq r) [] else [])
            (st_streams s2))) [] s2)))"

section \<open>Execution\<close>

definition execution_streams :: "generation list \<Rightarrow> string list" where
  "execution_streams gens = remdups (concat (map (\<lambda>g. map fst (g_revisions g)) gens))"

definition generation_execution_streams :: "store \<Rightarrow> int \<Rightarrow> string list option" where
  "generation_execution_streams s k =
     (let gens = job_generations s k in if gens = [] then None else Some (execution_streams gens))"

definition execution_policy :: "generation \<Rightarrow> jdict \<times> bool \<times> bool" where
  "execution_policy g =
     (let ctx = (case g_removal g of None \<Rightarrow> [] | Some c \<Rightarrow> c) in
      (ctx, \<not> (truthy (row_get ctx ''force'') \<and> row_get ctx ''scope'' = JStr ''static_route''), truthy (row_get ctx ''detach'')))"

definition verify_generation_digest :: "env \<Rightarrow> generation \<Rightarrow> exn + unit" where
  "verify_generation_digest E g =
     (if e_digest E (g_mode g) (g_document g) (g_allowed g) \<noteq> g_digest g then Inl GenerationTampered else Inr ())"

definition validate_generation_execution :: "generation \<Rightarrow> exn + unit" where
  "validate_generation_execution g = bindE (validate_removal_authority (JObj (g_allowed g))) (\<lambda>_.
     bindE (mapE (\<lambda>(sec, _). section_context (g_document g) sec) (g_document g)) (\<lambda>_. Inr ()))"

definition executing_generation :: "env \<Rightarrow> store \<Rightarrow> int \<Rightarrow> exn + generation option" where
  "executing_generation E s k =
     (let carried = job_generations s k in
      if carried = [] then Inr None
      else bindE (verify_generation_digest E (last carried)) (\<lambda>_.
           bindE (validate_generation_execution (last carried)) (\<lambda>_. Inr (Some (last carried)))))"

section \<open>The success barrier\<close>

definition blocking_predecessor :: "store \<Rightarrow> int \<Rightarrow> int \<Rightarrow> generation option" where
  "blocking_predecessor s d sq =
     first_by g_seq (filter (\<lambda>g. g_device g = d \<and> g_seq g < sq \<and> \<not> crossable (g_status g)) (st_gens s))"

definition executable_head :: "store \<Rightarrow> int \<Rightarrow> generation option" where
  "executable_head s d = first_by g_seq (filter (\<lambda>g. g_device g = d \<and> \<not> crossable (g_status g)) (st_gens s))"

definition require_locked_executable_head :: "generation \<Rightarrow> store \<Rightarrow> exn + store \<times> generation" where
  "require_locked_executable_head g s = bindE (lock_projection (g_device g) s) (\<lambda>s1.
     case executable_head s1 (g_device g) of
       Some h \<Rightarrow> if g_id h = g_id g then Inr (s1, h) else Inl GenerationNotBlocked
     | None \<Rightarrow> Inl GenerationNotBlocked)"

definition job_admissible :: "store \<Rightarrow> int \<Rightarrow> int \<Rightarrow> bool" where
  "job_admissible s k d =
     (let carried = job_generations s k in
      if carried = [] then
        (case map_option j_type (job_by_id s k) of
           Some ty \<Rightarrow> \<not> device_writing ty \<or> \<not> exists_where (\<lambda>g. g_device g = d \<and> gen_blocked (g_status g)) (st_gens s)
         | None \<Rightarrow> True)
      else blocking_predecessor s d (g_seq (hd carried)) = None)"

section \<open>Carriers\<close>

definition attach_to_job :: "generation \<Rightarrow> job \<Rightarrow> store \<Rightarrow> exn + store \<times> bool" where
  "attach_to_job g j s =
     (let carried = job_generations s (j_id j);
          bound = upd_gens (\<lambda>x. g_id x = g_id g) (\<lambda>x. x\<lparr>g_job := Some (j_id j)\<rparr>) s in
      if carried = [] then Inr (bound, True)
      else if \<not> j_coalescible j then Inr (s, False)
      else if g_mode (last carried) \<noteq> g_mode g then Inl GenerationModeConflict
      else if g_seq (last carried) \<noteq> g_seq g - 1 then Inr (s, False)
      else Inr (bound, True))"

definition require_attach_to_job :: "generation \<Rightarrow> job \<Rightarrow> store \<Rightarrow> exn + store" where
  "require_attach_to_job g j s = bindE (attach_to_job g j s) (\<lambda>(s1, ok).
     if ok then Inr s1 else Inl (RuntimeError ''freshly created job refused the generation''))"

definition admit_apply_generation ::
  "int \<Rightarrow> (nat \<Rightarrow> store \<Rightarrow> store) \<Rightarrow> generation \<Rightarrow> store \<Rightarrow> exn + store \<times> job option" where
  "admit_apply_generation now mid g s =
     (if g_cohort g \<noteq> None \<or> g_allowed g \<noteq> [] then
        bindE (create_dedicated_job now (g_device g) JTApply None s) (\<lambda>(s1, j).
        bindE (require_attach_to_job g j s1) (\<lambda>s2. Inr (s2, Some j)))
      else bindE (admit_coalescible_job now mid (g_device g) JTApply None s) (\<lambda>(s1, created, winner).
        case (created, winner) of
          (_, Some w) \<Rightarrow> if g_apply_attempt g \<noteq> None then Inl (ApplyJobConflict (j_id w))
            else bindE (attach_to_job g (case created of Some c \<Rightarrow> c | None \<Rightarrow> w) s1) (\<lambda>(s2, _). Inr (s2, created))
        | (Some c, None) \<Rightarrow> bindE (attach_to_job g c s1) (\<lambda>(s2, _). Inr (s2, Some c))
        | (None, None) \<Rightarrow> Inl (RuntimeError ''could not admit an apply job'')))"

definition create_dedicated_carrier :: "int \<Rightarrow> generation \<Rightarrow> store \<Rightarrow> exn + store \<times> job" where
  "create_dedicated_carrier now g s =
     bindE (case g_removal g of
         Some (kv # ctx) \<Rightarrow> create_dedicated_job now (g_device g) JTRemoval (Some (kv # ctx)) s
       | _ \<Rightarrow> if g_mode g = Detach then Inl GenerationCarrierCorruption
              else create_dedicated_job now (g_device g) JTApply None s) (\<lambda>(s1, j).
     bindE (attach_to_job g j s1) (\<lambda>(s2, ok). if ok then Inr (s2, j) else Inl GenerationCarrierCorruption))"

definition claim_blocked_head :: "int \<Rightarrow> int \<Rightarrow> gen_status \<Rightarrow> store \<Rightarrow> exn + store" where
  "claim_blocked_head now gid outcome s =
     (if gen_terminal outcome then
        bindE (terminalize_generations s (case row_by g_id gid (st_gens s) of None \<Rightarrow> [] | Some g \<Rightarrow> [g]) outcome None
                 (Some [GFailed, GOutcomeUnknown]) now) (\<lambda>(s1, landed).
          if gid \<in> set landed then Inr s1 else Inl GenerationNotBlocked)
      else if exists_where (\<lambda>g. g_id g = gid \<and> gen_blocked (g_status g)) (st_gens s)
      then Inr (upd_gens (\<lambda>g. g_id g = gid \<and> gen_blocked (g_status g)) (\<lambda>g. g\<lparr>g_status := outcome\<rparr>) s)
      else Inl GenerationNotBlocked)"

section \<open>Operator exits and advancement\<close>

definition rebind_tombstones :: "json list \<Rightarrow> int \<Rightarrow> int option \<Rightarrow> int \<Rightarrow> store \<Rightarrow> store" where
  "rebind_tombstones ids d prev k s = s\<lparr>st_tombs := upd_where
     (\<lambda>t. JInt (t_id t) \<in> set ids \<and> t_device t = d \<and> (t_job t = prev \<or> t_job t = None)) (\<lambda>t. t\<lparr>t_job := Some k\<rparr>) (st_tombs s)\<rparr>"

definition retry_generation :: "env \<Rightarrow> int \<Rightarrow> int \<Rightarrow> store \<Rightarrow> exn + store \<times> job option" where
  "retry_generation E now gid s = (case row_by g_id gid (st_gens s) of
       None \<Rightarrow> Inr (s, None)
     | Some g0 \<Rightarrow>
        bindE (require_locked_executable_head g0 s) (\<lambda>(s1, g).
        if \<not> gen_blocked (g_status g) then Inl GenerationNotBlocked
        else bindE (verify_generation_digest E g) (\<lambda>_.
             bindE (claim_blocked_head now gid GPending s1) (\<lambda>s2.
             bindE (create_dedicated_carrier now g s2) (\<lambda>(s3, j).
             bindE (case g_removal g of
                 Some (_ # _) \<Rightarrow> document_tombstones (map fst section_registry) (g_document g) (map fst (g_document g))
               | _ \<Rightarrow> Inr []) (\<lambda>ids.
               Inr (rebind_tombstones ids (g_device g) (g_job g) (j_id j) s3, Some j)))))))"

text \<open>\<open>busy k\<close>: a worker holds the row of job \<open>k\<close>, so a \<open>NOWAIT\<close> lock on it is refused.\<close>

definition advance_generations_locked ::
  "int \<Rightarrow> (int \<Rightarrow> bool) \<Rightarrow> int \<Rightarrow> store \<Rightarrow> exn + store \<times> job option" where
  "advance_generations_locked now busy d s = (case executable_head s d of
       None \<Rightarrow> Inr (s, None)
     | Some h \<Rightarrow>
        if g_status h \<noteq> GPending then Inr (s, None)
        else
          let fresh = (\<lambda>s1. bindE (create_dedicated_carrier now (h\<lparr>g_job := None\<rparr>) s1) (\<lambda>(s2, j). Inr (s2, Some j))) in
          (case g_job h of
             None \<Rightarrow> fresh s
           | Some k \<Rightarrow>
              let unbound = fresh (upd_gens (\<lambda>g. g_id g = g_id h) (\<lambda>g. g\<lparr>g_job := None\<rparr>) s) in
              if busy k then Inr (s, None)
              else (case job_by_id s k of
                  None \<Rightarrow> unbound
                | Some j \<Rightarrow> if j_status j = JQueued then Inr (s, Some j)
                    else if j_status j = JRunning then Inl GenerationCarrierCorruption
                    else unbound)))"

definition reconcile_generation :: "int \<Rightarrow> (int \<Rightarrow> bool) \<Rightarrow> int \<Rightarrow> store \<Rightarrow> exn + store \<times> job option" where
  "reconcile_generation now busy gid s = (case row_by g_id gid (st_gens s) of
       None \<Rightarrow> Inr (s, None)
     | Some g0 \<Rightarrow>
        bindE (require_locked_executable_head g0 s) (\<lambda>(s1, g).
        if \<not> gen_blocked (g_status g) then Inl GenerationNotBlocked
        else bindE (claim_blocked_head now gid GAbandoned s1) (\<lambda>s2.
          let s3 = (case g_cohort g of None \<Rightarrow> s2 | Some c \<Rightarrow> stamp_settled_cohort s2 c)
          in advance_generations_locked now busy (g_device g) s3)))"

definition advance_device_generations :: "int \<Rightarrow> (int \<Rightarrow> bool) \<Rightarrow> int \<Rightarrow> store \<Rightarrow> exn + store \<times> job option" where
  "advance_device_generations now busy d s = bindE (lock_projection d s) (\<lambda>s1. advance_generations_locked now busy d s1)"

definition recovery_absorbs :: "exn \<Rightarrow> bool" where
  "recovery_absorbs e = (case e of GenerationCarrierCorruption \<Rightarrow> True | IntegrityViolation _ \<Rightarrow> True
     | DeviceProjectionGone \<Rightarrow> True | GenerationModeConflict \<Rightarrow> True | _ \<Rightarrow> False)"

definition recover_device :: "int \<Rightarrow> (int \<Rightarrow> bool) \<Rightarrow> store \<Rightarrow> int \<Rightarrow> exn + store" where
  "recover_device now busy s d = (case advance_device_generations now busy d s of
       Inr (s1, _) \<Rightarrow> Inr s1
     | Inl e \<Rightarrow> if recovery_absorbs e then Inr s else Inl e)"

definition stranded :: "store \<Rightarrow> generation \<Rightarrow> bool" where
  "stranded s g = (g_status g = GRunning \<and>
     (case Option.bind (g_job g) (job_by_id s) of None \<Rightarrow> True | Some j \<Rightarrow> j_status j \<noteq> JRunning))"

definition recover_generations :: "int \<Rightarrow> (int \<Rightarrow> bool) \<Rightarrow> store \<Rightarrow> exn + store \<times> nat" where
  "recover_generations now busy s =
     bindE (terminalize_generations s (filter (stranded s) (st_gens s)) GOutcomeUnknown None (Some [GRunning]) now) (\<lambda>(s1, landed).
       let devices = remdups (map g_device (filter (\<lambda>g. g_status g = GPending) (st_gens s1))) in
       bindE (foldE (recover_device now busy) s1 devices) (\<lambda>s2. Inr (s2, length landed)))"

end
