(* ===== verification/Worker.thy ===== *)
theory Worker
  imports Generation_Chain Claim_Recovery
begin

text \<open>
  How a worker takes work (\<open>core/worker.py\<close>): candidate devices, the claimless lane, the start of
  the first admissible queued job under the device claim, and the recovery of running jobs that
  no claim covers.

  \<open>held k\<close> says that another transaction holds the row of job \<open>k\<close> when a \<open>SKIP LOCKED\<close> read
  reaches it.  Commits in this component are acknowledged; lost commits of the claim itself are
  treated with the claims.
\<close>

section \<open>Candidates\<close>

definition CANDIDATE_BATCH :: nat where "CANDIDATE_BATCH = 10"

definition queued_unclaimed :: "store \<Rightarrow> job \<Rightarrow> bool" where
  "queued_unclaimed s j = (j_status j = JQueued \<and>
     (case j_device j of None \<Rightarrow> True | Some d \<Rightarrow> \<not> exists_where (\<lambda>c. c_device c = d) (st_claims s)))"

definition oldest_of :: "job list \<Rightarrow> int option \<Rightarrow> int" where
  "oldest_of js d = Min (set (map j_created_at (filter (\<lambda>j. j_device j = d) js)))"

definition discover_candidates :: "store \<Rightarrow> int option list" where
  "discover_candidates s =
     (let js = filter (queued_unclaimed s) (st_jobs s) in
      take CANDIDATE_BATCH (sort_key (oldest_of js) (remdups (map j_device js))))"

section \<open>Starting a job\<close>

definition run_values :: "int \<Rightarrow> job \<Rightarrow> job" where
  "run_values now j = j\<lparr>j_status := JRunning, j_started_at := Some now, j_heartbeat_at := Some now,
     j_run_attempt := j_run_attempt j + 1\<rparr>"

definition start_claimless_head :: "int \<Rightarrow> job \<Rightarrow> store \<Rightarrow> store \<times> int \<times> job_type \<times> int" where
  "start_claimless_head now j s =
     (upd_jobs (\<lambda>i. j_id i = j_id j) (run_values now) s, j_id j, j_type j, j_run_attempt j + 1)"

definition fifo_key :: "job \<Rightarrow> int \<times> int" where
  "fifo_key j = (j_created_at j, j_id j)"

definition claim_next_claimless_job ::
  "env \<Rightarrow> int \<Rightarrow> (int \<Rightarrow> bool) \<Rightarrow> store \<Rightarrow> exn + store \<times> (int \<times> job_type \<times> int) option" where
  "claim_next_claimless_job E now held s =
     (case first_by fifo_key (filter (\<lambda>j. j_device j = None \<and> j_status j = JQueued \<and> \<not> held (j_id j)) (st_jobs s)) of
        None \<Rightarrow> Inr (s, None)
      | Some j \<Rightarrow>
          if j_type j \<noteq> JTProvision then
            bindE (terminalize E now s (j_id j) JFailed JQueued None None
                (Some (simple_error ''orphaned_claimless'' ''only provision may be claimless'')) None None)
              (\<lambda>(s1, _). Inr (s1, None))
          else (case start_claimless_head now j s of (s1, r) \<Rightarrow> Inr (s1, Some r)))"

text \<open>The preview an inspected release was shown; \<open>pv_diff\<close> is its entry for the device document.\<close>

record apply_preview =
  pv_gen :: "int option"
  pv_digest :: "string option"
  pv_diff :: "string option"

fun contains_text :: "string \<Rightarrow> string \<Rightarrow> bool" where
  "contains_text needle [] = (needle = [])"
| "contains_text needle (c # cs) = (starts_with needle (c # cs) \<or> contains_text needle cs)"

record release_check =
  rc_gen :: int
  rc_digest :: "string option"
  rc_preview :: "apply_preview option"

definition preview_matches :: "generation \<Rightarrow> apply_preview option \<Rightarrow> bool" where
  "preview_matches g pv = (case pv of None \<Rightarrow> False
     | Some p \<Rightarrow> pv_gen p = Some (g_id g) \<and> pv_digest p = Some (g_digest g) \<and>
         (case pv_diff p of None \<Rightarrow> True | Some t \<Rightarrow> \<not> contains_text ''preview unavailable'' t))"

definition check_release :: "env \<Rightarrow> store \<Rightarrow> int \<Rightarrow> job \<Rightarrow> release_check \<Rightarrow> exn + unit" where
  "check_release E s d j rc =
     (case executing_generation E s (j_id j) of
        Inl GenerationTampered \<Rightarrow> Inl ReleaseRefused
      | Inl e \<Rightarrow> Inl e
      | Inr carried \<Rightarrow> (case (executable_head s d, carried) of
          (Some h, Some g) \<Rightarrow>
            if g_job h \<noteq> Some (j_id j) \<or> g_id g \<noteq> rc_gen rc \<or> Some (g_digest g) \<noteq> rc_digest rc \<or>
               g_digest g \<noteq> e_digest E (g_mode g) (g_document g) (g_allowed g) \<or>
               \<not> device_writing (j_type j) \<or> length (job_generations s (j_id j)) \<noteq> 1 \<or>
               \<not> preview_matches g (rc_preview rc)
            then Inl ReleaseRefused else Inr ()
        | _ \<Rightarrow> Inl ReleaseRefused))"

text \<open>The candidates in order; a row that is held ends the attempt, an inadmissible one is passed over.\<close>

fun first_admissible :: "store \<Rightarrow> (int \<Rightarrow> bool) \<Rightarrow> int \<Rightarrow> job list \<Rightarrow> job option" where
  "first_admissible s held d [] = None"
| "first_admissible s held d (j # js) =
     (if held (j_id j) then None else if job_admissible s (j_id j) d then Some j else first_admissible s held d js)"

definition start_job_under_claim :: "int \<Rightarrow> int \<Rightarrow> registration \<Rightarrow> job \<Rightarrow> store \<Rightarrow> store" where
  "start_job_under_claim now d reg j s =
     (let s1 = upd_jobs (\<lambda>i. j_id i = j_id j) (run_values now) (mark_job_generations_running (j_id j) s) in
      s1\<lparr>st_claims := upd_where (\<lambda>c. c_device c = d \<and> Some (c_token c) = r_token reg) (\<lambda>c. c\<lparr>c_job := Some (j_id j)\<rparr>) (st_claims s1)\<rparr>)"

definition start_head_under_claim ::
  "env \<Rightarrow> int \<Rightarrow> (int \<Rightarrow> bool) \<Rightarrow> int \<Rightarrow> registration \<Rightarrow> release_check option \<Rightarrow> int option \<Rightarrow> store
   \<Rightarrow> exn + store \<times> registration \<times> (int \<times> job_type) option" where
  "start_head_under_claim E now held d reg release expected_job s =
     bindE (lock_claim reg s) (\<lambda>_.
     bindE (case release of None \<Rightarrow> Inr expected_job
         | Some _ \<Rightarrow> (case Option.bind (executable_head s d) g_job of None \<Rightarrow> Inl ReleaseRefused | Some k \<Rightarrow> Inr (Some k))) (\<lambda>only.
       let candidates = sort_key fifo_key (filter (\<lambda>j. j_device j = Some d \<and> j_status j = JQueued \<and>
             (case only of None \<Rightarrow> True | Some k \<Rightarrow> j_id j = k)) (st_jobs s)) in
       case first_admissible s held d candidates of
         None \<Rightarrow> Inr (s, reg, None)
       | Some j \<Rightarrow>
           bindE (case release of None \<Rightarrow> Inr () | Some rc \<Rightarrow> check_release E s d j rc) (\<lambda>_.
             Inr (start_job_under_claim now d reg j s, reg\<lparr>r_attempt := Some (j_run_attempt j + 1)\<rparr>, Some (j_id j, j_type j)))))"

text \<open>
  One poll: \<open>tok d\<close> is the fresh token an acquisition of device \<open>d\<close> draws.  What an earlier
  candidate committed stays when a later one raises.
\<close>

fun claim_next_of ::
  "env \<Rightarrow> int \<Rightarrow> (int \<Rightarrow> bool) \<Rightarrow> (int \<Rightarrow> string) \<Rightarrow> int option list \<Rightarrow> store
   \<Rightarrow> store \<times> (exn + (int \<times> int option \<times> job_type \<times> registration) option)" where
  "claim_next_of E now held tok [] s = (s, Inr None)"
| "claim_next_of E now held tok (None # ds) s =
     (case claim_next_claimless_job E now held s of
        Inl e \<Rightarrow> (s, Inl e)
      | Inr (s1, Some (k, ty, ra)) \<Rightarrow> (s1, Inr (Some (k, None, ty, \<lparr>r_device = None, r_token = None, r_attempt = Some ra\<rparr>)))
      | Inr (s1, None) \<Rightarrow> claim_next_of E now held tok ds s1)"
| "claim_next_of E now held tok (Some d # ds) s =
     (case acquire_claim Acked False now d ''job'' None (tok d) s of
        (s1, Inl e) \<Rightarrow> (s1, Inl e)
      | (s1, Inr None) \<Rightarrow> claim_next_of E now held tok ds s1
      | (s1, Inr (Some reg)) \<Rightarrow>
          (case start_head_under_claim E now held d reg None None s1 of
             Inl e \<Rightarrow> (s1, Inl e)
           | Inr (s2, reg', Some (k, ty)) \<Rightarrow> (s2, Inr (Some (k, Some d, ty, reg')))
           | Inr (s2, _, None) \<Rightarrow> claim_next_of E now held tok ds (fst (release_claim Acked False reg s2))))"

definition claim_next_job ::
  "env \<Rightarrow> int \<Rightarrow> (int \<Rightarrow> bool) \<Rightarrow> (int \<Rightarrow> string) \<Rightarrow> store
   \<Rightarrow> store \<times> (exn + (int \<times> int option \<times> job_type \<times> registration) option)" where
  "claim_next_job E now held tok s = claim_next_of E now held tok (discover_candidates s) s"

definition worker_mark_failed ::
  "env \<Rightarrow> int \<Rightarrow> int \<Rightarrow> string \<Rightarrow> string \<Rightarrow> registration option \<Rightarrow> store \<Rightarrow> exn + store" where
  "worker_mark_failed E now k code msg reg s =
     (case (case reg of None \<Rightarrow> Inr () | Some r \<Rightarrow> lock_claim r s) of
        Inl _ \<Rightarrow> Inr s
      | Inr _ \<Rightarrow> bindE (terminalize E now s k JFailed JRunning (Option.bind reg r_attempt) None (Some (simple_error code msg)) None None)
          (\<lambda>(s1, _). Inr s1))"

section \<open>Recovery of uncovered runs\<close>

definition orphaned :: "int \<Rightarrow> store \<Rightarrow> job \<Rightarrow> bool" where
  "orphaned now s j = (j_status j = JRunning \<and>
     (case j_heartbeat_at j of None \<Rightarrow> True | Some t \<Rightarrow> t < now - PROVISION_STALE_AFTER) \<and>
     \<not> exists_where (\<lambda>c. c_job c = Some (j_id j)) (st_claims s))"

definition requeue_orphan :: "env \<Rightarrow> int \<Rightarrow> (store \<Rightarrow> store) \<Rightarrow> store \<Rightarrow> job \<Rightarrow> exn + store" where
  "requeue_orphan E now mid s j =
     (case dispose_execution_attempt E now s (j_id j) (j_run_attempt j) None XOrphaned None of
        Inl AttemptOwnershipLost \<Rightarrow> bindE (fail_lost_attempt E now s (j_id j) (j_run_attempt j)) (\<lambda>(s1, _). Inr s1)
      | Inl e \<Rightarrow> Inl e
      | Inr (s1, NoAttempt) \<Rightarrow>
          bindE (terminalize_running E now mid s1 (j_id j) (disposition_for (j_type j))
                   (if disposition_for (j_type j) = JFailed
                    then Some (simple_error ''orphaned'' ''Adapter restarted while the job was running'') else None)
                   (Some (j_run_attempt j))) (\<lambda>(s2, _). Inr s2)
      | Inr (s1, _) \<Rightarrow> Inr s1)"

definition requeue_orphaned_jobs :: "env \<Rightarrow> int \<Rightarrow> (store \<Rightarrow> store) \<Rightarrow> store \<Rightarrow> exn + store" where
  "requeue_orphaned_jobs E now mid s = foldE (requeue_orphan E now mid) s (filter (orphaned now s) (st_jobs s))"

definition recover_interrupted_work ::
  "env \<Rightarrow> int \<Rightarrow> (int \<Rightarrow> bool) \<Rightarrow> (int \<Rightarrow> store \<Rightarrow> store) \<Rightarrow> (store \<Rightarrow> store) \<Rightarrow> store \<Rightarrow> exn + store" where
  "recover_interrupted_work E now busy mids mid s =
     (let s1 = fst (ensure_settle_counters mids s) in
      bindE (revoke_stale_claims E now mid CLAIM_STALE_AFTER s1) (\<lambda>(s2, _).
      bindE (requeue_orphaned_jobs E now mid s2) (\<lambda>s3.
      bindE (recover_generations now busy s3) (\<lambda>(s4, _). Inr s4))))"

end
