(* ===== verification/Success_Barrier.thy ===== *)
theory Success_Barrier
  imports Worker
begin

text \<open>
  The success barrier of the generation chain over arbitrary interleavings: a step relation of
  the operations of \<open>core/generation.py\<close>, \<open>core/worker.py\<close> and the terminal writer of
  \<open>core/claim.py\<close>, the invariant that every step keeps, and what follows for reachable stores.
\<close>

section \<open>The chain invariant\<close>

definition live_job :: "store \<Rightarrow> int \<Rightarrow> job \<Rightarrow> bool" where
  "live_job s k j = (job_by_id s k = Some j \<and> job_live (j_status j))"

definition live_bound :: "store \<Rightarrow> generation \<Rightarrow> bool" where
  "live_bound s g = (\<exists>k j. g_job g = Some k \<and> live_job s k j)"

definition fresh_ok :: "store \<Rightarrow> bool" where
  "fresh_ok s = (ids_ok s \<and> (\<forall>j\<in>set (st_jobs s). j_id j < st_next_job s) \<and>
     (\<forall>g\<in>set (st_gens s). g_id g < st_next_gen s \<and> (\<forall>k. g_job g = Some k \<longrightarrow> k < st_next_job s)))"

definition seqs_ok :: "store \<Rightarrow> bool" where
  "seqs_ok s = ((\<forall>g\<in>set (st_gens s). \<exists>c. row_by n_device (g_device g) (st_gencnt s) = Some c \<and> g_seq g \<le> n_last c) \<and>
     (\<forall>g\<in>set (st_gens s). \<forall>h\<in>set (st_gens s). g_device g = g_device h \<and> g_seq g = g_seq h \<longrightarrow> g = h))"

definition carriers_ok :: "store \<Rightarrow> bool" where
  "carriers_ok s = (\<forall>g\<in>set (st_gens s). \<forall>k j. g_job g = Some k \<and> live_job s k j \<longrightarrow>
     g_status g = (if j_status j = JQueued then GPending else GRunning) \<and> j_device j = Some (g_device g))"

definition contiguous :: "store \<Rightarrow> bool" where
  "contiguous s = (\<forall>g\<in>set (st_gens s). \<forall>h\<in>set (st_gens s). \<forall>x\<in>set (st_gens s). \<forall>k j.
     g_job g = Some k \<and> g_job h = Some k \<and> live_job s k j \<and> g_device x = g_device g \<and>
     g_seq g < g_seq x \<and> g_seq x < g_seq h \<longrightarrow> g_job x = Some k)"

text \<open>
  The barrier itself: what precedes a running generation on its device is settled, abandoned, or
  running in the same job.
\<close>

definition barrier :: "store \<Rightarrow> bool" where
  "barrier s = (\<forall>g\<in>set (st_gens s). \<forall>h\<in>set (st_gens s).
     g_status g = GRunning \<and> g_device h = g_device g \<and> g_seq h < g_seq g \<longrightarrow>
     crossable (g_status h) \<or> g_status h = GRunning \<and> g_job h = g_job g)"

definition chain_ok :: "store \<Rightarrow> bool" where
  "chain_ok s = (fresh_ok s \<and> seqs_ok s \<and> carriers_ok s \<and> contiguous s \<and> barrier s)"

lemma chain_okD:
  assumes "chain_ok s"
  shows "fresh_ok s" "seqs_ok s" "carriers_ok s" "contiguous s" "barrier s" "ids_ok s"
  using assms by (simp_all add: chain_ok_def fresh_ok_def)

lemma seq_unique:
  "seqs_ok s \<Longrightarrow> g \<in> set (st_gens s) \<Longrightarrow> h \<in> set (st_gens s) \<Longrightarrow> g_device g = g_device h \<Longrightarrow> g_seq g = g_seq h \<Longrightarrow> g = h"
  unfolding seqs_ok_def by blast

lemma seq_counted:
  "seqs_ok s \<Longrightarrow> g \<in> set (st_gens s) \<Longrightarrow> \<exists>c. row_by n_device (g_device g) (st_gencnt s) = Some c \<and> g_seq g \<le> n_last c"
  unfolding seqs_ok_def by blast

lemma carrierD:
  assumes "carriers_ok s" and "g \<in> set (st_gens s)" and "g_job g = Some k" and "live_job s k j"
  shows "g_status g = (if j_status j = JQueued then GPending else GRunning)" and "j_device j = Some (g_device g)"
  using assms unfolding carriers_ok_def by blast+

lemma contiguousD:
  "contiguous s \<Longrightarrow> g \<in> set (st_gens s) \<Longrightarrow> h \<in> set (st_gens s) \<Longrightarrow> x \<in> set (st_gens s) \<Longrightarrow> g_job g = Some k \<Longrightarrow>
   g_job h = Some k \<Longrightarrow> live_job s k j \<Longrightarrow> g_device x = g_device g \<Longrightarrow> g_seq g < g_seq x \<Longrightarrow> g_seq x < g_seq h \<Longrightarrow> g_job x = Some k"
  unfolding contiguous_def by blast

lemma barrierD:
  "barrier s \<Longrightarrow> g \<in> set (st_gens s) \<Longrightarrow> h \<in> set (st_gens s) \<Longrightarrow> g_status g = GRunning \<Longrightarrow> g_device h = g_device g \<Longrightarrow>
   g_seq h < g_seq g \<Longrightarrow> crossable (g_status h) \<or> g_status h = GRunning \<and> g_job h = g_job g"
  unfolding barrier_def by blast

lemma gen_below:
  "fresh_ok s \<Longrightarrow> g \<in> set (st_gens s) \<Longrightarrow> g_id g < st_next_gen s"
  "fresh_ok s \<Longrightarrow> g \<in> set (st_gens s) \<Longrightarrow> g_job g = Some k \<Longrightarrow> k < st_next_job s"
  unfolding fresh_ok_def by blast+

definition counters_grow :: "store \<Rightarrow> store \<Rightarrow> bool" where
  "counters_grow s s' = (\<forall>d c. row_by n_device d (st_gencnt s) = Some c \<longrightarrow>
     (\<exists>c'. row_by n_device d (st_gencnt s') = Some c' \<and> n_last c \<le> n_last c'))"

lemma counters_growD:
  "counters_grow s s' \<Longrightarrow> row_by n_device d (st_gencnt s) = Some c \<Longrightarrow> n \<le> n_last c \<Longrightarrow>
   \<exists>c'. row_by n_device d (st_gencnt s') = Some c' \<and> n \<le> n_last c'"
  unfolding counters_grow_def by (meson order_trans)

lemma counters_grow_same: "st_gencnt s' = st_gencnt s \<Longrightarrow> counters_grow s s'"
  by (simp add: counters_grow_def)

lemma seqs_ok_grow:
  assumes ok: "seqs_ok s" and gens: "st_gens s' = st_gens s" and grow: "counters_grow s s'"
  shows "seqs_ok s'"
  unfolding seqs_ok_def gens
proof (intro conjI ballI impI)
  fix g assume "g \<in> set (st_gens s)"
  then show "\<exists>c. row_by n_device (g_device g) (st_gencnt s') = Some c \<and> g_seq g \<le> n_last c"
    using seq_counted [OF ok] counters_growD [OF grow] by blast
qed (blast intro: seq_unique [OF ok])

lemma chain_ok_frame:
  assumes ok: "chain_ok s" and gens: "st_gens s' = st_gens s" and jobs: "st_jobs s' = st_jobs s"
    and nexts: "st_next_job s' = st_next_job s" "st_next_gen s' = st_next_gen s" and grow: "counters_grow s s'"
  shows "chain_ok s'"
proof -
  have lj: "live_job s' = live_job s"
    unfolding live_job_def jobs ..
  have "fresh_ok s'" "carriers_ok s'" "contiguous s'" "barrier s'"
    using chain_okD [OF ok] unfolding fresh_ok_def ids_ok_def carriers_ok_def contiguous_def barrier_def gens jobs nexts lj
    by blast+
  then show ?thesis
    unfolding chain_ok_def using seqs_ok_grow [OF chain_okD(2) [OF ok] gens grow] by blast
qed

section \<open>Updates of the generation table\<close>

text \<open>
  An update of the generation table that keeps identities, devices and sequences.  The jobs may
  change with it.
\<close>

definition chain_update :: "store \<Rightarrow> store \<Rightarrow> (generation \<Rightarrow> generation) \<Rightarrow> bool" where
  "chain_update s s' F = (chain_ok s \<and> st_gens s' = map F (st_gens s) \<and>
     (\<forall>g. g_id (F g) = g_id g \<and> g_device (F g) = g_device g \<and> g_seq (F g) = g_seq g) \<and>
     map j_id (st_jobs s') = map j_id (st_jobs s) \<and> st_next_job s' = st_next_job s \<and> st_next_gen s' = st_next_gen s \<and>
     st_gencnt s' = st_gencnt s \<and> (\<forall>g\<in>set (st_gens s). \<forall>k. g_job (F g) = Some k \<longrightarrow> k < st_next_job s))"

lemma chain_updateD:
  assumes "chain_update s s' F"
  shows "chain_ok s" and "st_gens s' = map F (st_gens s)" and "g_id (F g) = g_id g" and "g_device (F g) = g_device g"
    and "g_seq (F g) = g_seq g" and "map j_id (st_jobs s') = map j_id (st_jobs s)" and "st_next_job s' = st_next_job s"
    and "st_next_gen s' = st_next_gen s" and "st_gencnt s' = st_gencnt s"
    and "g \<in> set (st_gens s) \<Longrightarrow> g_job (F g) = Some k \<Longrightarrow> k < st_next_job s"
  using assms unfolding chain_update_def by blast+

lemma chain_update_fresh:
  assumes u: "chain_update s s' F"
  shows "fresh_ok s'"
proof -
  note ud = chain_updateD [OF u] and f = chain_okD(1) [OF chain_updateD(1) [OF u]]
  have ids: "map g_id (st_gens s') = map g_id (st_gens s)"
    by (simp add: ud(2,3))
  have "j_id ` set (st_jobs s') = j_id ` set (st_jobs s)"
    using arg_cong [OF ud(6), of set] by simp
  then have "j_id j < st_next_job s" if "j \<in> set (st_jobs s')" for j
    using that f unfolding fresh_ok_def by (metis (no_types, lifting) imageE imageI)
  moreover have "ids_ok s'"
    using f ids ud(6) by (simp add: fresh_ok_def ids_ok_def)
  ultimately show ?thesis
    unfolding fresh_ok_def ud(2,7,8) set_map using gen_below(1) [OF f] ud(3,10) by (auto simp: ud(3))
qed

lemma chain_update_seqs:
  assumes u: "chain_update s s' F"
  shows "seqs_ok s'"
  unfolding seqs_ok_def chain_updateD(2,9) [OF u]
proof (intro conjI ballI impI)
  note ok = chain_okD(2) [OF chain_updateD(1) [OF u]] and keeps = chain_updateD(4,5) [OF u]
  {
    fix g assume "g \<in> set (map F (st_gens s))"
    then show "\<exists>c. row_by n_device (g_device g) (st_gencnt s) = Some c \<and> g_seq g \<le> n_last c"
      using seq_counted [OF ok] by (auto simp: keeps)
  next
    fix g h assume gh: "g \<in> set (map F (st_gens s))" "h \<in> set (map F (st_gens s))" "g_device g = g_device h \<and> g_seq g = g_seq h"
    obtain g0 h0 where "g0 \<in> set (st_gens s)" "h0 \<in> set (st_gens s)" "g = F g0" "h = F h0"
      using gh(1,2) by auto
    then show "g = h"
      using seq_unique [OF ok, of g0 h0] gh(3) by (simp add: keeps)
  }
qed

lemma chain_update_ok:
  assumes upd: "chain_update s s' F"
    and car: "\<And>g k j. g \<in> set (st_gens s) \<Longrightarrow> g_job (F g) = Some k \<Longrightarrow> live_job s' k j \<Longrightarrow>
      g_status (F g) = (if j_status j = JQueued then GPending else GRunning) \<and> j_device j = Some (g_device g)"
    and con: "\<And>g h x k j. g \<in> set (st_gens s) \<Longrightarrow> h \<in> set (st_gens s) \<Longrightarrow> x \<in> set (st_gens s) \<Longrightarrow>
      g_job (F g) = Some k \<Longrightarrow> g_job (F h) = Some k \<Longrightarrow> live_job s' k j \<Longrightarrow> g_device x = g_device g \<Longrightarrow>
      g_seq g < g_seq x \<Longrightarrow> g_seq x < g_seq h \<Longrightarrow> g_job (F x) = Some k"
    and bar: "\<And>g h. g \<in> set (st_gens s) \<Longrightarrow> h \<in> set (st_gens s) \<Longrightarrow> g_status (F g) = GRunning \<Longrightarrow>
      g_device h = g_device g \<Longrightarrow> g_seq h < g_seq g \<Longrightarrow>
      crossable (g_status (F h)) \<or> g_status (F h) = GRunning \<and> g_job (F h) = g_job (F g)"
  shows "chain_ok s'"
  unfolding chain_ok_def
proof (intro conjI chain_update_fresh [OF upd] chain_update_seqs [OF upd])
  note gens = chain_updateD(2) [OF upd] and keeps = chain_updateD(3-5) [OF upd]
  have ball: "(\<forall>g\<in>set (st_gens s'). P g) = (\<forall>g\<in>set (st_gens s). P (F g))" for P
    by (simp add: gens)
  show "carriers_ok s'"
    unfolding carriers_ok_def ball keeps using car by blast
  show "contiguous s'"
    unfolding contiguous_def ball keeps using con by blast
  show "barrier s'"
    unfolding barrier_def ball keeps using bar by blast
qed

text \<open>When the jobs stay and no generation moves to another live job, contiguity is kept.\<close>

lemma chain_update_unbound:
  assumes upd: "chain_update s s' F" and jobs: "st_jobs s' = st_jobs s"
    and unbound: "\<And>g. g \<in> set (st_gens s) \<Longrightarrow> F g \<noteq> g \<Longrightarrow> \<not> live_bound s g \<and> \<not> live_bound s' (F g) \<and> g_status (F g) \<noteq> GRunning"
    and bar: "\<And>g h. g \<in> set (st_gens s) \<Longrightarrow> h \<in> set (st_gens s) \<Longrightarrow> g_status g = GRunning \<Longrightarrow> F g = g \<Longrightarrow>
      g_device h = g_device g \<Longrightarrow> g_seq h < g_seq g \<Longrightarrow> F h = h \<or> crossable (g_status (F h))"
  shows "chain_ok s'"
proof (rule chain_update_ok [OF upd])
  note ok = chain_updateD(1) [OF upd]
  have lj: "live_job s' = live_job s"
    unfolding live_job_def jobs ..
  have same: "F g = g" if "g \<in> set (st_gens s)" "g_job (F g) = Some k" "live_job s' k j" for g k j
    using unbound [OF that(1)] that(2,3) by (auto simp: live_bound_def)
  {
    fix g k j assume a: "g \<in> set (st_gens s)" "g_job (F g) = Some k" "live_job s' k j"
    show "g_status (F g) = (if j_status j = JQueued then GPending else GRunning) \<and> j_device j = Some (g_device g)"
      unfolding same [OF a] using carrierD [OF chain_okD(3) [OF ok] a(1)] a(2,3) unfolding same [OF a] lj by blast
  next
    fix g h x k j
    assume a: "g \<in> set (st_gens s)" "h \<in> set (st_gens s)" "x \<in> set (st_gens s)" "g_job (F g) = Some k" "g_job (F h) = Some k"
      "live_job s' k j" "g_device x = g_device g" "g_seq g < g_seq x" "g_seq x < g_seq h"
    have "g_job x = Some k"
      using contiguousD [OF chain_okD(4) [OF ok] a(1-3) _ _ _ a(7-9)] a(4-6) same [OF a(1,4,6)] same [OF a(2,5,6)] by (simp add: lj)
    moreover have "F x = x"
    proof (rule ccontr)
      assume "F x \<noteq> x"
      then show False
        using unbound [OF a(3)] \<open>g_job x = Some k\<close> a(6) lj by (auto simp: live_bound_def)
    qed
    ultimately show "g_job (F x) = Some k"
      by simp
  next
    fix g h assume a: "g \<in> set (st_gens s)" "h \<in> set (st_gens s)" "g_status (F g) = GRunning" "g_device h = g_device g" "g_seq h < g_seq g"
    have g: "F g = g"
      using unbound [OF a(1)] a(3) by blast
    then have "crossable (g_status h) \<or> g_status h = GRunning \<and> g_job h = g_job g"
      using barrierD [OF chain_okD(5) [OF ok] a(1,2) _ a(4,5)] a(3) by simp
    then show "crossable (g_status (F h)) \<or> g_status (F h) = GRunning \<and> g_job (F h) = g_job (F g)"
      using bar [OF a(1,2) _ g a(4,5)] a(3) g by auto
  }
qed

section \<open>Jobs that start, end and return to the queue\<close>

lemma live_job_replaced:
  assumes "st_jobs s' = upd_where (\<lambda>i. j_id i = k) f (st_jobs s)" and "\<And>i. j_id i = k \<Longrightarrow> j_id (f i) = k"
  shows "live_job s' k' i \<Longrightarrow> k' \<noteq> k \<Longrightarrow> live_job s k' i"
    and "live_job s' k i \<Longrightarrow> \<exists>j. job_by_id s k = Some j \<and> i = f j"
proof -
  have look: "row_by j_id k' (upd_where (\<lambda>i. j_id i = k) f t) = (if k' = k then map_option f (row_by j_id k t) else row_by j_id k' t)" for k' t
    using assms(2) by (induction t) auto
  show "live_job s' k' i \<Longrightarrow> k' \<noteq> k \<Longrightarrow> live_job s k' i"
    unfolding live_job_def assms(1) look by simp
  show "live_job s' k i \<Longrightarrow> \<exists>j. job_by_id s k = Some j \<and> i = f j"
    unfolding live_job_def assms(1) look by auto
qed

lemma job_moved_bar:
  assumes ok: "chain_ok s" and live: "live_job s k j"
    and F: "\<And>g. g_job (F g) = g_job g" "\<And>g. g_job g \<noteq> Some k \<Longrightarrow> F g = g"
    and same: "\<And>g h. g \<in> set (st_gens s) \<Longrightarrow> h \<in> set (st_gens s) \<Longrightarrow> g_job g = Some k \<Longrightarrow> g_job h = Some k \<Longrightarrow>
      g_status (F g) = GRunning \<Longrightarrow> g_status (F h) = GRunning"
    and entry: "\<And>g h. g \<in> set (st_gens s) \<Longrightarrow> h \<in> set (st_gens s) \<Longrightarrow> g_job g = Some k \<Longrightarrow> g_status (F g) = GRunning \<Longrightarrow>
      g_device h = g_device g \<Longrightarrow> g_seq h < g_seq g \<Longrightarrow> crossable (g_status h) \<or> g_job h = Some k"
    and gh: "g \<in> set (st_gens s)" "h \<in> set (st_gens s)" "g_status (F g) = GRunning" "g_device h = g_device g" "g_seq h < g_seq g"
  shows "crossable (g_status (F h)) \<or> g_status (F h) = GRunning \<and> g_job (F h) = g_job (F g)"
proof (cases "g_job g = Some k")
  case True
  then show ?thesis
    using entry [OF gh(1,2) _ gh(3-5)] same [OF gh(1,2) _ _ gh(3)] F by (cases "g_job h = Some k") auto
next
  case False
  then have b: "crossable (g_status h) \<or> g_status h = GRunning \<and> g_job h = g_job g"
    using barrierD [OF chain_okD(5) [OF ok] gh(1,2) _ gh(4,5)] gh(3) F by simp
  have "g_job h \<noteq> Some k"
  proof
    assume h: "g_job h = Some k"
    then have "\<not> crossable (g_status h)"
      using carrierD(1) [OF chain_okD(3) [OF ok] gh(2) _ live] by (simp add: crossable_def)
    then show False using b False h by simp
  qed
  then show ?thesis
    using b False F by simp
qed

lemma chain_job_moved:
  assumes ok: "chain_ok s" and live: "live_job s k j" and gens: "st_gens s' = map F (st_gens s)"
    and F: "\<And>g. g_id (F g) = g_id g \<and> g_device (F g) = g_device g \<and> g_seq (F g) = g_seq g \<and> g_job (F g) = g_job g"
      "\<And>g. g_job g \<noteq> Some k \<Longrightarrow> F g = g"
    and jobs: "st_jobs s' = upd_where (\<lambda>i. j_id i = k) fj (st_jobs s)" and fj: "\<And>i. j_id i = k \<Longrightarrow> j_id (fj i) = k"
    and frame: "st_next_job s' = st_next_job s" "st_next_gen s' = st_next_gen s" "st_gencnt s' = st_gencnt s"
    and carried: "\<And>g. g \<in> set (st_gens s) \<Longrightarrow> g_job g = Some k \<Longrightarrow>
      (if job_live (j_status (fj j)) then g_status (F g) = (if j_status (fj j) = JQueued then GPending else GRunning) \<and>
         j_device (fj j) = j_device j else g_status (F g) \<noteq> GRunning)"
    and entry: "\<And>g h. g \<in> set (st_gens s) \<Longrightarrow> h \<in> set (st_gens s) \<Longrightarrow> g_job g = Some k \<Longrightarrow> g_status (F g) = GRunning \<Longrightarrow>
      g_device h = g_device g \<Longrightarrow> g_seq h < g_seq g \<Longrightarrow> crossable (g_status h) \<or> g_job h = Some k"
  shows "chain_ok s'"
proof -
  have keep: "g_job (F g) = g_job g" for g
    by (simp add: F)
  have "map j_id (st_jobs s') = map j_id (st_jobs s)"
    unfolding jobs by (rule map_upd_where) (simp add: fj)
  then have upd: "chain_update s s' F"
    unfolding chain_update_def using ok gens frame gen_below(2) [OF chain_okD(1) [OF ok]] by (simp add: F)
  have lj: "if k' = k then i = fj j else live_job s k' i" if "live_job s' k' i" for k' i
    using live_job_replaced [OF jobs fj] that live by (cases "k' = k") (auto simp: live_job_def)
  have lk: "\<exists>i'. live_job s k' i'" if "live_job s' k' i" for k' i
    using lj [OF that] live by (cases "k' = k") auto
  show ?thesis
  proof (rule chain_update_ok [OF upd])
    fix g k' i assume a: "g \<in> set (st_gens s)" "g_job (F g) = Some k'" "live_job s' k' i"
    have gk: "g_job g = Some k'"
      using a(2) unfolding keep .
    show "g_status (F g) = (if j_status i = JQueued then GPending else GRunning) \<and> j_device i = Some (g_device g)"
    proof (cases "k' = k")
      case True
      then show ?thesis
        using carried [OF a(1)] gk lj [OF a(3)] carrierD(2) [OF chain_okD(3) [OF ok] a(1) _ live] a(3) by (auto simp: live_job_def)
    next
      case False
      then show ?thesis
        using carrierD [OF chain_okD(3) [OF ok] a(1) gk] F(2) gk lj [OF a(3)] by simp
    qed
  next
    fix g h x k' i
    assume a: "g \<in> set (st_gens s)" "h \<in> set (st_gens s)" "x \<in> set (st_gens s)" "g_job (F g) = Some k'" "g_job (F h) = Some k'"
      "live_job s' k' i" "g_device x = g_device g" "g_seq g < g_seq x" "g_seq x < g_seq h"
    show "g_job (F x) = Some k'"
      using contiguousD [OF chain_okD(4) [OF ok] a(1-3) _ _ _ a(7-9)] a(4,5) lk [OF a(6)] unfolding keep by blast
  next
    fix g h assume a: "g \<in> set (st_gens s)" "h \<in> set (st_gens s)" "g_status (F g) = GRunning" "g_device h = g_device g" "g_seq h < g_seq g"
    have same: "g_status (F y) = GRunning" if "x \<in> set (st_gens s)" "y \<in> set (st_gens s)" "g_job x = Some k" "g_job y = Some k"
      "g_status (F x) = GRunning" for x y
      using carried [OF that(1,3)] carried [OF that(2,4)] that(5) by (simp split: if_splits)
    show "crossable (g_status (F h)) \<or> g_status (F h) = GRunning \<and> g_job (F h) = g_job (F g)"
      by (rule job_moved_bar [OF ok live keep F(2) same entry a])
  qed
qed

lemma chain_job_over:
  assumes "chain_ok s" and "live_job s k j"
    and "st_gens s' = upd_where (\<lambda>g. g_job g = Some k) f (st_gens s)"
    and "\<And>g. g_id (f g) = g_id g \<and> g_device (f g) = g_device g \<and> g_seq (f g) = g_seq g \<and> g_job (f g) = g_job g"
    and "\<And>g. g \<in> set (st_gens s) \<Longrightarrow> g_job g = Some k \<Longrightarrow> g_status (f g) \<noteq> GRunning"
    and "st_jobs s' = upd_where (\<lambda>i. j_id i = k) (\<lambda>_. j') (st_jobs s)" and "j_id j' = k" and "\<not> job_live (j_status j')"
    and "st_next_job s' = st_next_job s" and "st_next_gen s' = st_next_gen s" and "st_gencnt s' = st_gencnt s"
  shows "chain_ok s'"
  by (rule chain_job_moved [OF assms(1,2) assms(3) [unfolded upd_where_def] _ _ assms(6) assms(7) assms(9-11)])
    (use assms(4,5,8) in auto)

lemma chain_job_requeued:
  assumes "chain_ok s" and "live_job s k j"
    and "st_gens s' = st_gens (requeue_job_generations k s)"
    and "st_jobs s' = upd_where (\<lambda>i. j_id i = k) fj (st_jobs s)" and "\<And>i. j_id i = k \<Longrightarrow> j_id (fj i) = k"
    and "j_status (fj j) = JQueued" and "j_device (fj j) = j_device j"
    and "st_next_job s' = st_next_job s" and "st_next_gen s' = st_next_gen s" and "st_gencnt s' = st_gencnt s"
  shows "chain_ok s'"
proof -
  let ?F = "\<lambda>g. if g_job g = Some k \<and> g_status g = GRunning then g\<lparr>g_status := GPending\<rparr> else g"
  have gens: "st_gens s' = map ?F (st_gens s)"
    using assms(3) by (simp add: requeue_job_generations_def upd_where_def)
  have carried: "g_status (?F g) = GPending" if "g \<in> set (st_gens s)" "g_job g = Some k" for g
    using carrierD(1) [OF chain_okD(3) [OF assms(1)] that assms(2)] that by (auto split: if_splits)
  show ?thesis
    by (rule chain_job_moved [OF assms(1,2) gens _ _ assms(4,5,8-10)]) (use carried assms(6,7) in \<open>auto split: if_splits\<close>)
qed

lemma admissible_predecessor:
  assumes ok: "chain_ok s" and live: "live_job s k j" and adm: "job_admissible s k d"
    and g: "g \<in> set (st_gens s)" "g_job g = Some k" and h: "h \<in> set (st_gens s)" "g_device h = g_device g" "g_seq h < g_seq g"
    and d: "g_device g = d"
  shows "crossable (g_status h) \<or> g_job h = Some k"
proof -
  let ?c = "job_generations s k"
  have gc: "g \<in> set ?c"
    using g by (simp add: set_job_generations)
  then have ne: "?c \<noteq> []"
    by auto
  then have hd: "hd ?c \<in> set ?c"
    by simp
  then have first: "hd ?c \<in> set (st_gens s)" "g_job (hd ?c) = Some k"
    using set_job_generations [of s k] by auto
  have "blocking_predecessor s d (g_seq (hd ?c)) = None"
    using adm ne by (simp add: job_admissible_def Let_def)
  then have below: "crossable (g_status h)" if "g_seq h < g_seq (hd ?c)"
    using that h d by (auto simp: blocking_predecessor_def filter_empty_conv)
  have dev: "g_device (hd ?c) = g_device g"
    using carrierD(2) [OF chain_okD(3) [OF ok] first live] carrierD(2) [OF chain_okD(3) [OF ok] g live] by simp
  consider "g_seq h < g_seq (hd ?c)" | "g_seq h = g_seq (hd ?c)" | "g_seq (hd ?c) < g_seq h"
    by linarith
  then show ?thesis
  proof cases
    case 2
    then have "h = hd ?c"
      using seq_unique [OF chain_okD(2) [OF ok] h(1) first(1)] h(2) dev by simp
    then show ?thesis using first by simp
  next
    case 3
    then show ?thesis
      using contiguousD [OF chain_okD(4) [OF ok] first(1) g(1) h(1) first(2) g(2) live _ _ h(3)] h(2) dev by simp
  qed (simp add: below)
qed

lemma chain_job_started:
  assumes ok: "chain_ok s" and q: "job_by_id s k = Some j" "j_status j = JQueued" "j_device j = Some d" and adm: "job_admissible s k d"
    and gens: "st_gens s' = st_gens (mark_job_generations_running k s)"
    and jobs: "st_jobs s' = upd_where (\<lambda>i. j_id i = k) (run_values now) (st_jobs s)"
    and frame: "st_next_job s' = st_next_job s" "st_next_gen s' = st_next_gen s" "st_gencnt s' = st_gencnt s"
  shows "chain_ok s'"
proof -
  let ?F = "\<lambda>g. if g_job g = Some k \<and> g_status g = GPending then g\<lparr>g_status := GRunning, g_attempts := g_attempts g + 1\<rparr> else g"
  have live: "live_job s k j"
    using q by (simp add: live_job_def job_live_def)
  have car: "g_status g = GPending" "g_device g = d" if "g \<in> set (st_gens s)" "g_job g = Some k" for g
    using carrierD [OF chain_okD(3) [OF ok] that live] q by simp_all
  have map: "st_gens s' = map ?F (st_gens s)"
    using gens by (simp add: mark_job_generations_running_def upd_where_def)
  show ?thesis
  proof (rule chain_job_moved [OF ok live map _ _ jobs _ frame])
    fix g h assume a: "g \<in> set (st_gens s)" "h \<in> set (st_gens s)" "g_job g = Some k" "g_device h = g_device g" "g_seq h < g_seq g"
    show "crossable (g_status h) \<or> g_job h = Some k"
      by (rule admissible_predecessor [OF ok live adm a(1,3,2,4,5)]) (rule car(2) [OF a(1,3)])
  qed (use car in \<open>auto simp: run_values_def job_live_def\<close>)
qed

section \<open>Rows that appear, are bound and are let go\<close>

lemma chain_ok_jobs_die:
  assumes ok: "chain_ok s" and gens: "st_gens s' = st_gens s" and ids: "map j_id (st_jobs s') = map j_id (st_jobs s)"
    and frame: "st_next_job s' = st_next_job s" "st_next_gen s' = st_next_gen s" "st_gencnt s' = st_gencnt s"
    and live: "\<And>k j. live_job s' k j \<Longrightarrow> \<exists>i. live_job s k i \<and> j_status i = j_status j \<and> j_device i = j_device j"
  shows "chain_ok s'"
proof -
  have "chain_update s s' id"
    unfolding chain_update_def using ok gens ids frame gen_below(2) [OF chain_okD(1) [OF ok]] by simp
  then show ?thesis
  proof (rule chain_update_ok)
    fix g k j assume "g \<in> set (st_gens s)" "g_job (id g) = Some k" "live_job s' k j"
    then show "g_status (id g) = (if j_status j = JQueued then GPending else GRunning) \<and> j_device j = Some (g_device g)"
      using live [of k j] carrierD [OF chain_okD(3) [OF ok]] by fastforce
  next
    fix g h x k j
    assume "g \<in> set (st_gens s)" "h \<in> set (st_gens s)" "x \<in> set (st_gens s)" "g_job (id g) = Some k" "g_job (id h) = Some k"
      "live_job s' k j" "g_device x = g_device g" "g_seq g < g_seq x" "g_seq x < g_seq h"
    then show "g_job (id x) = Some k"
      using live [of k j] contiguousD [OF chain_okD(4) [OF ok], of g h x k] by auto
  next
    fix g h assume "g \<in> set (st_gens s)" "h \<in> set (st_gens s)" "g_status (id g) = GRunning" "g_device h = g_device g" "g_seq h < g_seq g"
    then show "crossable (g_status (id h)) \<or> g_status (id h) = GRunning \<and> g_job (id h) = g_job (id g)"
      using barrierD [OF chain_okD(5) [OF ok]] by simp
  qed
qed

lemma live_job_added:
  "live_job (add_job i s) k j \<Longrightarrow> live_job s k j \<or> k = j_id i \<and> j = i"
  by (auto simp: live_job_def add_job_def row_by_append split: option.splits if_splits)

lemma chain_add_job:
  assumes ok: "chain_ok s" and i: "j_id i = st_next_job s"
  shows "chain_ok (add_job i s)"
proof -
  note f = chain_okD(1) [OF ok]
  have old: "live_job s k j" if "live_job (add_job i s) k j" "g \<in> set (st_gens s)" "g_job g = Some k" for g k j
    using live_job_added [OF that(1)] gen_below(2) [OF f that(2,3)] i by auto
  have gens: "st_gens (add_job i s) = st_gens s"
    by (simp add: add_job_def)
  have "fresh_ok (add_job i s)"
    using f i unfolding fresh_ok_def ids_ok_def add_job_def by (auto dest: order_less_trans)
  moreover have "seqs_ok (add_job i s)" "barrier (add_job i s)"
    using chain_okD(2,5) [OF ok] unfolding seqs_ok_def barrier_def add_job_def by simp_all
  moreover have "carriers_ok (add_job i s)"
    unfolding carriers_ok_def gens using carrierD [OF chain_okD(3) [OF ok]] old by blast
  moreover have "contiguous (add_job i s)"
    unfolding contiguous_def gens using contiguousD [OF chain_okD(4) [OF ok]] old by blast
  ultimately show ?thesis
    by (simp add: chain_ok_def)
qed

lemma chain_add_generation:
  assumes ok: "chain_ok s" and g: "g_id g = st_next_gen s" "g_job g = None" "g_status g = GPending"
    and cnt: "row_by n_device (g_device g) (st_gencnt s) = Some c" "g_seq g = n_last c + 1"
    and s': "st_gens s' = st_gens s @ [g]" "st_next_gen s' = st_next_gen s + 1" "st_jobs s' = st_jobs s" "st_next_job s' = st_next_job s"
    and grow: "counters_grow s s'" "\<exists>c'. row_by n_device (g_device g) (st_gencnt s') = Some c' \<and> g_seq g \<le> n_last c'"
  shows "chain_ok s'"
proof -
  have lj: "live_job s' = live_job s"
    unfolding live_job_def s' ..
  have top: "g_seq h < g_seq g" if "h \<in> set (st_gens s)" "g_device h = g_device g" for h
    using seq_counted [OF chain_okD(2) [OF ok] that(1)] that(2) cnt by auto
  have mem: "x \<in> set (st_gens s') \<longleftrightarrow> x \<in> set (st_gens s) \<or> x = g" for x
    by (auto simp: s')
  have "fresh_ok s'"
    using chain_okD(1) [OF ok] g unfolding fresh_ok_def ids_ok_def s' by (fastforce simp: less_le)
  moreover have "seqs_ok s'"
    unfolding seqs_ok_def
  proof (intro conjI ballI impI)
    fix h assume "h \<in> set (st_gens s')"
    then show "\<exists>c. row_by n_device (g_device h) (st_gencnt s') = Some c \<and> g_seq h \<le> n_last c"
      using seq_counted [OF chain_okD(2) [OF ok]] counters_growD [OF grow(1)] grow(2) mem by blast
  next
    fix x y assume "x \<in> set (st_gens s')" "y \<in> set (st_gens s')" "g_device x = g_device y \<and> g_seq x = g_seq y"
    then show "x = y"
      using seq_unique [OF chain_okD(2) [OF ok]] top mem by (metis less_irrefl)
  qed
  moreover have "carriers_ok s'"
    unfolding carriers_ok_def s' lj using carrierD [OF chain_okD(3) [OF ok]] g(2) by auto
  moreover have "contiguous s'"
    unfolding contiguous_def lj
  proof (intro ballI allI impI)
    fix x y z k j
    assume a: "x \<in> set (st_gens s')" "y \<in> set (st_gens s')" "z \<in> set (st_gens s')" "g_job x = Some k \<and> g_job y = Some k \<and> live_job s k j \<and>
      g_device z = g_device x \<and> g_seq x < g_seq z \<and> g_seq z < g_seq y"
    have xy: "x \<in> set (st_gens s)" "y \<in> set (st_gens s)"
      using a mem g(2) by auto
    have "g_device y = g_device x"
      using carrierD(2) [OF chain_okD(3) [OF ok] xy(1), of k j] carrierD(2) [OF chain_okD(3) [OF ok] xy(2), of k j] a(4) by simp
    then have "z \<noteq> g"
      using top [OF xy(2)] a(4) by auto
    then show "g_job z = Some k"
      using contiguousD [OF chain_okD(4) [OF ok] xy, of z k j] a(3,4) mem by blast
  qed
  moreover have "barrier s'"
    unfolding barrier_def
  proof (intro ballI impI)
    fix x y assume a: "x \<in> set (st_gens s')" "y \<in> set (st_gens s')" "g_status x = GRunning \<and> g_device y = g_device x \<and> g_seq y < g_seq x"
    have "x \<in> set (st_gens s)"
      using a mem g(3) by auto
    moreover have "y \<in> set (st_gens s)"
      using a(2,3) mem top [OF calculation] by auto
    ultimately show "crossable (g_status y) \<or> g_status y = GRunning \<and> g_job y = g_job x"
      using barrierD [OF chain_okD(5) [OF ok]] a(3) by blast
  qed
  ultimately show ?thesis
    by (simp add: chain_ok_def)
qed

lemma bind_contiguous:
  assumes ok: "chain_ok s" and g: "g \<in> set (st_gens s)" "\<not> live_bound s g" and j: "live_job s k j" "j_device j = Some (g_device g)"
    and fit: "\<And>h. h \<in> set (st_gens s) \<Longrightarrow> g_job h = Some k \<Longrightarrow> g_seq h < g_seq g"
      "\<And>h. h \<in> set (st_gens s) \<Longrightarrow> g_job h = Some k \<Longrightarrow> \<exists>l\<in>set (st_gens s). g_job l = Some k \<and> g_seq l = g_seq g - 1"
    and xyz: "x \<in> set (st_gens s)" "y \<in> set (st_gens s)" "z \<in> set (st_gens s)"
    and xk: "g_job x = Some k' \<or> x = g \<and> k' = k" and yk: "g_job y = Some k' \<or> y = g \<and> k' = k"
    and live: "live_job s k' i" and z: "g_device z = g_device x" "g_seq x < g_seq z" "g_seq z < g_seq y"
  shows "g_job z = Some k'"
proof (cases "y = g \<and> k' = k")
  case True
  then have x: "g_job x = Some k"
    using xk z by auto
  obtain l where l: "l \<in> set (st_gens s)" "g_job l = Some k" "g_seq l = g_seq g - 1"
    using fit(2) [OF xyz(1) x] by blast
  have dev: "g_device x = g_device l"
    using carrierD(2) [OF chain_okD(3) [OF ok] xyz(1) x j(1)] carrierD(2) [OF chain_okD(3) [OF ok] l(1,2) j(1)] by simp
  show ?thesis
  proof (cases "g_seq z = g_seq l")
    case True
    then have "z = l"
      using seq_unique [OF chain_okD(2) [OF ok] xyz(3) l(1)] z(1) dev by simp
    then show ?thesis
      using l(2) \<open>y = g \<and> k' = k\<close> by simp
  next
    case False
    then have "g_seq z < g_seq l"
      using z(3) l(3) \<open>y = g \<and> k' = k\<close> by simp
    then show ?thesis
      using contiguousD [OF chain_okD(4) [OF ok] xyz(1) l(1) xyz(3) x l(2) j(1) z(1,2)] True by simp
  qed
next
  case False
  then have y: "g_job y = Some k'"
    using yk by blast
  have "\<not> (x = g \<and> k' = k)"
    using fit(1) [OF xyz(2)] y z by force
  then show ?thesis
    using contiguousD [OF chain_okD(4) [OF ok] xyz(1,2,3) _ y live z] xk by blast
qed

text \<open>Binding: the job carries nothing yet, or its last generation is the direct predecessor.\<close>

lemma chain_bind:
  assumes ok: "chain_ok s" and g: "g \<in> set (st_gens s)" "g_status g = GPending" "\<not> live_bound s g"
    and j: "live_job s k j" "j_status j = JQueued" "j_device j = Some (g_device g)"
    and fit: "\<And>h. h \<in> set (st_gens s) \<Longrightarrow> g_job h = Some k \<Longrightarrow> g_seq h < g_seq g"
      "\<And>h. h \<in> set (st_gens s) \<Longrightarrow> g_job h = Some k \<Longrightarrow> \<exists>l\<in>set (st_gens s). g_job l = Some k \<and> g_seq l = g_seq g - 1"
  shows "chain_ok (upd_gens (\<lambda>x. g_id x = g_id g) (\<lambda>x. x\<lparr>g_job := Some k\<rparr>) s)"
proof -
  let ?s' = "upd_gens (\<lambda>x. g_id x = g_id g) (\<lambda>x. x\<lparr>g_job := Some k\<rparr>) s"
  let ?F = "\<lambda>x. if g_id x = g_id g then x\<lparr>g_job := Some k\<rparr> else x"
  have me: "x = g" if "x \<in> set (st_gens s)" "g_id x = g_id g" for x
    using distinct_key_eq [of g_id "st_gens s" x g] chain_okD(6) [OF ok] that g(1) by (simp add: ids_ok_def)
  have lj: "live_job ?s' = live_job s"
    by (simp add: live_job_def fun_eq_iff)
  have below: "k < st_next_job s"
    using chain_okD(1) [OF ok] j(1) row_by_SomeD [of j_id k "st_jobs s" j] by (auto simp: live_job_def fresh_ok_def)
  have upd: "chain_update s ?s' ?F"
    unfolding chain_update_def using ok below gen_below(2) [OF chain_okD(1) [OF ok]] by (auto simp: upd_gens_def upd_where_def)
  have oldjob: "g_job x = Some k' \<or> x = g \<and> k' = k" if "x \<in> set (st_gens s)" "g_job (?F x) = Some k'" for x k'
    using me [OF that(1)] that(2) by (auto split: if_splits)
  show ?thesis
  proof (rule chain_update_ok [OF upd])
    fix x k' i assume a: "x \<in> set (st_gens s)" "g_job (?F x) = Some k'" "live_job ?s' k' i"
    show "g_status (?F x) = (if j_status i = JQueued then GPending else GRunning) \<and> j_device i = Some (g_device x)"
      using carrierD [OF chain_okD(3) [OF ok] a(1)] me [OF a(1)] a(2,3) j g(2) unfolding lj by (auto simp: live_job_def split: if_splits)
  next
    fix x y z k' i
    assume a: "x \<in> set (st_gens s)" "y \<in> set (st_gens s)" "z \<in> set (st_gens s)" "g_job (?F x) = Some k'" "g_job (?F y) = Some k'"
      "live_job ?s' k' i" "g_device z = g_device x" "g_seq x < g_seq z" "g_seq z < g_seq y"
    show "g_job (?F z) = Some k'"
      using bind_contiguous [OF ok g(1,3) j(1,3) fit a(1-3) oldjob [OF a(1,4)] oldjob [OF a(2,5)] a(6) [unfolded lj] a(7-9)]
        me [OF a(3)] g(3) a(6) unfolding lj by (auto simp: live_bound_def)
  next
    fix x y assume a: "x \<in> set (st_gens s)" "y \<in> set (st_gens s)" "g_status (?F x) = GRunning" "g_device y = g_device x" "g_seq y < g_seq x"
    have b: "crossable (g_status y) \<or> g_status y = GRunning \<and> g_job y = g_job x"
      using barrierD [OF chain_okD(5) [OF ok] a(1,2) _ a(4,5)] a(3) by (auto split: if_splits)
    have "g_id x \<noteq> g_id g" "g_id y \<noteq> g_id g"
      using me [OF a(1)] me [OF a(2)] a(3) b g(2) by (auto simp: crossable_def)
    then show "crossable (g_status (?F y)) \<or> g_status (?F y) = GRunning \<and> g_job (?F y) = g_job (?F x)"
      using b by simp
  qed
qed

section \<open>The operations keep the chain\<close>

text \<open>
  What one operation does to the chain: the invariant is kept, and of the stored generations the
  frozen columns and a settled or abandoned status stay, with new rows only at the end.
\<close>

definition gen_after :: "generation \<Rightarrow> generation \<Rightarrow> bool" where
  "gen_after g g' = (gen_identity g' = gen_identity g \<and> (crossable (g_status g) \<longrightarrow> g_status g' = g_status g))"

lemma gen_after_refl [simp]: "gen_after g g"
  by (simp add: gen_after_def)

lemma gen_after_trans: "gen_after g g' \<Longrightarrow> gen_after g' g'' \<Longrightarrow> gen_after g g''"
  by (simp add: gen_after_def)

definition chain_keeps :: "store \<Rightarrow> store \<Rightarrow> bool" where
  "chain_keeps s s' = (chain_ok s' \<and> (\<exists>old new. st_gens s' = old @ new \<and> list_all2 gen_after (st_gens s) old))"

lemma chain_keepsI: "chain_ok s' \<Longrightarrow> st_gens s' = st_gens s \<Longrightarrow> chain_keeps s s'"
  unfolding chain_keeps_def by (intro conjI exI [of _ "st_gens s"] exI [of _ "[]"]) (simp_all add: list.rel_refl)

lemma chain_keeps_upd:
  assumes "chain_ok s'" and "st_gens s' = upd_where p f (st_gens s)" and "\<And>g. g \<in> set (st_gens s) \<Longrightarrow> p g \<Longrightarrow> gen_after g (f g)"
  shows "chain_keeps s s'"
  unfolding chain_keeps_def
  by (intro conjI exI [of _ "st_gens s'"] exI [of _ "[]"])
    (use assms in \<open>auto simp: upd_where_def list_all2_map2 intro!: list.rel_refl_strong\<close>)

lemma chain_keeps_ok: "chain_keeps s s' \<Longrightarrow> chain_ok s'"
  by (simp add: chain_keeps_def)

lemma chain_keeps_refl: "chain_ok s \<Longrightarrow> chain_keeps s s"
  by (rule chain_keepsI) simp_all

lemma chain_keeps_trans:
  assumes "chain_keeps s s'" and "chain_keeps s' s''"
  shows "chain_keeps s s''"
proof -
  obtain old new where old: "st_gens s' = old @ new" "list_all2 gen_after (st_gens s) old"
    using assms(1) by (auto simp: chain_keeps_def)
  obtain old' new' where new: "st_gens s'' = old' @ new'" "list_all2 gen_after (old @ new) old'"
    using assms(2) old(1) by (auto simp: chain_keeps_def)
  obtain us vs where "old' = us @ vs" "list_all2 gen_after old us"
    using new(2) by (auto simp: list_all2_append1)
  then show ?thesis
    using old new(1) list_all2_trans [of gen_after gen_after gen_after "st_gens s" old us] gen_after_trans assms(2) by (auto simp: chain_keeps_def)
qed

lemma chain_keeps_frame:
  assumes "chain_ok s" and "st_gens s' = st_gens s" and "st_jobs s' = st_jobs s"
    and "st_next_job s' = st_next_job s" and "st_next_gen s' = st_next_gen s" and "counters_grow s s'"
  shows "chain_keeps s s'"
  by (rule chain_keepsI [OF chain_ok_frame [OF assms] assms(2)])

subsection \<open>Terminal writes\<close>

lemma carried_open:
  assumes "chain_ok s" and "g \<in> set (st_gens s)" and "g_job g = Some k" and "live_job s k j"
  shows "\<not> crossable (g_status g)"
  using carrierD(1) [OF chain_okD(3) [OF assms(1)] assms(2-4)] by (simp add: crossable_def)

lemma terminalize_verdict:
  assumes "ids_ok s" and "terminalize E now s k status expect ra result err sd go = Inr (s', Some w)"
    and "g \<in> set (st_gens s)" and "g_job g = Some k"
  shows "gen_terminal (gen_verdict go status)"
  using assms(2)
proof (cases rule: terminalize_cases)
  case (written r' s1 dev s2 n)
  have "st_gens s1 = st_gens s"
    using written(2) by (auto simp: cas_job_status_def Let_def split: if_splits)
  then have "g \<in> set (job_generations s1 k)"
    using assms(3,4) by (simp add: set_job_generations)
  then have "job_generations s1 k \<noteq> []"
    by auto
  then show ?thesis
    using written(3) by (auto simp: settle_job_generations_def terminalize_generations_def Let_def split: if_splits)
qed simp

lemma chain_terminalize:
  assumes ok: "chain_ok s" and live: "job_live expect" and run: "terminalize E now s k status expect ra result err sd go = Inr (s', w)"
  shows "chain_keeps s s'"
proof (cases w)
  case None
  have "s' = s"
    using run [unfolded None] by (cases rule: terminalize_cases) simp_all
  then show ?thesis
    using ok by (simp add: chain_keeps_refl)
next
  case (Some v)
  note ids = chain_okD(6) [OF ok] and run' = run [unfolded Some]
  show ?thesis
  proof (rule terminalize_written [OF ids run'])
    fix j r'
    let ?j = "settled_row s (terminal_vals r' err sd (j\<lparr>j_status := status\<rparr>))"
    let ?f = "terminal_values (gen_verdict go status) err now (Some (terminal_vals r' err sd (j\<lparr>j_status := status\<rparr>)))"
    assume find: "List.find (ownership k expect ra) (st_jobs s) = Some j" and fin: "job_terminal status"
      and jobs: "st_jobs s' = upd_where (\<lambda>i. j_id i = k) (\<lambda>_. ?j) (st_jobs s)"
      and gens: "st_gens s' = upd_where (\<lambda>g. g_job g = Some k) ?f (st_gens s)"
      and frame: "s' = s\<lparr>st_jobs := st_jobs s', st_gens := st_gens s', st_streams := st_streams s', st_settle := st_settle s'\<rparr>"
    have own: "job_by_id s k = Some j" "j_status j = expect" "j_id j = k"
      using find_ownership [OF _ find] ids by (simp_all add: ids_ok_def ownership_def)
    have rest: "st_next_job s' = st_next_job s" "st_next_gen s' = st_next_gen s" "st_gencnt s' = st_gencnt s"
      by (subst frame, simp)+
    have "chain_ok s'"
    proof (rule chain_job_over [OF ok _ gens _ _ jobs _ _ rest])
      show "live_job s k j"
        using own live by (simp add: live_job_def)
      show "g_status (?f g) \<noteq> GRunning" if "g \<in> set (st_gens s)" "g_job g = Some k" for g
        using terminalize_verdict [OF ids run' that] by (auto simp: row_simps gen_terminal_def)
    qed (use own fin in \<open>auto simp: row_simps job_live_def job_terminal_def\<close>)
    then show ?thesis
    proof (rule chain_keeps_upd [OF _ gens])
      fix g assume a: "g \<in> set (st_gens s)" "g_job g = Some k"
      have "\<not> crossable (g_status g)"
        using carried_open [OF ok a, of j] own live by (simp add: live_job_def)
      then show "gen_after g (?f g)"
        by (simp add: gen_after_def terminal_ident.key_kept)
    qed
  qed
qed

lemma chain_finish_running:
  "chain_ok s \<Longrightarrow> finish_running E now s k status err b ra = Inr (s', r) \<Longrightarrow> chain_keeps s s'"
  by (auto simp: finish_running_def bindE_eq_Inr job_live_def intro: chain_terminalize)

lemma chain_requeue:
  assumes ok: "chain_ok s" and find: "List.find (ownership k JRunning ra) (st_jobs s) = Some j"
  shows "chain_keeps s (requeue_job_generations k (upd_jobs (ownership k JRunning ra) (\<lambda>j. requeue_vals err (j\<lparr>j_status := JQueued\<rparr>)) s))"
    (is "chain_keeps s ?s'")
proof (rule chain_keeps_upd)
  have own: "job_by_id s k = Some j" "j_status j = JRunning" "j_id j = k"
    using find_ownership [OF _ find] chain_okD(6) [OF ok] by (simp_all add: ids_ok_def ownership_def)
  have same: "ownership k JRunning ra i = (j_id i = k)" if "i \<in> set (st_jobs s)" for i
    using find_ownership(4,5) [OF _ find that] chain_okD(6) [OF ok] by (simp add: ids_ok_def)
  let ?f = "\<lambda>j. requeue_vals err (j\<lparr>j_status := JQueued\<rparr>)"
  have jobs: "st_jobs ?s' = upd_where (\<lambda>i. j_id i = k) ?f (st_jobs s)"
    unfolding requeue_job_generations_def upd_where_def using same by (auto simp: upd_where_def)
  show "chain_ok ?s'"
    by (rule chain_job_requeued [OF ok _ _ jobs, of j])
      (use own in \<open>auto simp: live_job_def job_live_def requeue_vals_def requeue_job_generations_def\<close>)
  show "st_gens ?s' = upd_where (\<lambda>g. g_job g = Some k \<and> g_status g = GRunning) (\<lambda>g. g\<lparr>g_status := GPending\<rparr>) (st_gens s)"
    by (simp add: requeue_job_generations_def)
qed (simp add: gen_after_def crossable_def requeue_ident.key_kept)

lemma chain_terminalize_running:
  assumes ok: "chain_ok s" "chain_ok (mid s)" and grows: "chain_keeps s (mid s)"
    and run: "terminalize_running E now mid s k status err ra = Inr (s', r)"
  shows "chain_keeps s s'"
  using run
proof (cases rule: terminalize_running_cases)
  case (direct status' err' b)
  then show ?thesis using chain_finish_running ok(1) by blast
next
  case (raced err')
  then show ?thesis using chain_finish_running ok(2) grows chain_keeps_trans by blast
next
  case missed
  then show ?thesis using grows by simp
next
  case (requeued j)
  then show ?thesis using chain_requeue [OF ok(2)] grows chain_keeps_trans by metis
qed

lemma chain_terminalize_where:
  assumes ok: "chain_ok s"
  shows "chain_keeps s (fst (terminalize_where p err s))"
proof (rule chain_keepsI)
  let ?s' = "fst (terminalize_where p err s)" and ?f = "\<lambda>j. j\<lparr>j_status := JFailed, j_error := Some err\<rparr>"
  have look: "row_by j_id k (upd_where p ?f t) = map_option (\<lambda>j. if p j then ?f j else j) (row_by j_id k t)" for k t
    by (induction t) auto
  show "chain_ok ?s'"
  proof (rule chain_ok_jobs_die [OF ok])
    fix k j assume "live_job ?s' k j"
    then show "\<exists>i. live_job s k i \<and> j_status i = j_status j \<and> j_device i = j_device j"
      by (auto simp: live_job_def terminalize_where_def look job_live_def split: if_splits)
  qed (simp_all add: terminalize_where_def map_upd_where)
qed (simp add: terminalize_where_def)

subsection \<open>Starting work\<close>

lemma first_admissible_SomeD:
  "first_admissible s held d js = Some j \<Longrightarrow> j \<in> set js \<and> job_admissible s (j_id j) d \<and> \<not> held (j_id j)"
  by (induction js) (auto split: if_splits)

lemma start_head_cases:
  assumes "start_head_under_claim E now held d reg release only s = Inr (s', r)"
  obtains (idle) "s' = s" "snd r = None"
  | (started) j where "j \<in> set (st_jobs s)" "j_device j = Some d" "j_status j = JQueued" "job_admissible s (j_id j) d"
      "\<not> held (j_id j)" "s' = start_job_under_claim now d reg j s" "snd r = Some (j_id j, j_type j)"
proof -
  obtain only' where scan: "(let candidates = sort_key fifo_key (filter (\<lambda>j. j_device j = Some d \<and> j_status j = JQueued \<and>
             (case only' of None \<Rightarrow> True | Some k \<Rightarrow> j_id j = k)) (st_jobs s)) in
       case first_admissible s held d candidates of
         None \<Rightarrow> Inr (s, reg, None)
       | Some j \<Rightarrow>
           bindE (case release of None \<Rightarrow> Inr () | Some rc \<Rightarrow> check_release E s d j rc) (\<lambda>_.
             Inr (start_job_under_claim now d reg j s, reg\<lparr>r_attempt := Some (j_run_attempt j + 1)\<rparr>, Some (j_id j, j_type j)))) = Inr (s', r)"
    using assms unfolding start_head_under_claim_def bindE_eq_Inr by blast
  let ?c = "sort_key fifo_key (filter (\<lambda>j. j_device j = Some d \<and> j_status j = JQueued \<and>
             (case only' of None \<Rightarrow> True | Some k \<Rightarrow> j_id j = k)) (st_jobs s))"
  show ?thesis
  proof (cases "first_admissible s held d ?c")
    case None
    then show ?thesis using scan idle by (auto simp: Let_def)
  next
    case (Some j)
    then show ?thesis
      using scan started [of j] first_admissible_SomeD [OF Some] by (auto simp: Let_def bindE_eq_Inr)
  qed
qed

lemma job_by_id_member: "ids_ok s \<Longrightarrow> j \<in> set (st_jobs s) \<Longrightarrow> job_by_id s (j_id j) = Some j"
  by (simp add: ids_ok_def row_by_eq_Some_iff)

lemma chain_start_head:
  assumes ok: "chain_ok s" and run: "start_head_under_claim E now held d reg release only s = Inr (s', r)"
  shows "chain_keeps s s'"
  using run
proof (cases rule: start_head_cases)
  case idle
  then show ?thesis using ok by (simp add: chain_keeps_refl)
next
  case (started j)
  have "chain_ok s'"
    by (rule chain_job_started [OF ok job_by_id_member [OF chain_okD(6) [OF ok] started(1)] started(3,2,4), of _ now])
      (simp_all add: started(6) start_job_under_claim_def mark_job_generations_running_def)
  then show ?thesis
    by (rule chain_keeps_upd [where p = "\<lambda>g. g_job g = Some (j_id j) \<and> g_status g = GPending"
          and f = "\<lambda>g. g\<lparr>g_status := GRunning, g_attempts := g_attempts g + 1\<rparr>"])
      (simp_all add: started(6) start_job_under_claim_def mark_job_generations_running_def gen_after_def crossable_def mark_running_ident.key_kept)
qed

lemma chain_start_claimless:
  assumes ok: "chain_ok s" and j: "j \<in> set (st_jobs s)" "j_device j = None" "j_status j = JQueued"
  shows "chain_keeps s (fst (start_claimless_head now j s))"
proof (rule chain_keepsI)
  have live: "live_job s (j_id j) j"
    using job_by_id_member [OF chain_okD(6) [OF ok] j(1)] j(3) by (simp add: live_job_def job_live_def)
  have none: "g_job g \<noteq> Some (j_id j)" if "g \<in> set (st_gens s)" for g
    using carrierD(2) [OF chain_okD(3) [OF ok] that _ live] j(2) by auto
  show "chain_ok (fst (start_claimless_head now j s))"
    by (rule chain_job_moved [OF ok live, where F = id and fj = "run_values now"])
      (use none in \<open>auto simp: start_claimless_head_def run_values_def\<close>)
qed (simp add: start_claimless_head_def)

lemma chain_claimless:
  assumes ok: "chain_ok s" and run: "claim_next_claimless_job E now held s = Inr (s', r)"
  shows "chain_keeps s s'"
proof (cases "first_by fifo_key (filter (\<lambda>j. j_device j = None \<and> j_status j = JQueued \<and> \<not> held (j_id j)) (st_jobs s))")
  case None
  then show ?thesis using run ok by (simp add: claim_next_claimless_job_def chain_keeps_refl)
next
  case (Some j)
  then have j: "j \<in> set (st_jobs s)" "j_device j = None" "j_status j = JQueued"
    by (auto dest: first_by_SomeD)
  show ?thesis
    using run Some chain_start_claimless [OF ok j, of now] chain_terminalize [OF ok, of JQueued]
    by (auto simp: claim_next_claimless_job_def bindE_eq_Inr job_live_def split: if_splits prod.splits)
qed

subsection \<open>Writes and creation\<close>

lemma lock_projection_frame:
  assumes "lock_projection d s = Inr s'"
  shows "\<exists>x. s' = s\<lparr>st_gencnt := x\<rparr>" and "counters_grow s s'"
proof -
  have s': "s' = (if exists_where (\<lambda>c. n_device c = d) (st_gencnt s) then s else s\<lparr>st_gencnt := st_gencnt s @ [\<lparr>n_device = d, n_last = 0\<rparr>]\<rparr>)"
    using assms by (simp add: lock_projection_def bindE_eq_Inr)
  show "counters_grow s s'"
    by (auto simp: s' counters_grow_def)
  show "\<exists>x. s' = s\<lparr>st_gencnt := x\<rparr>"
  proof (cases "exists_where (\<lambda>c. n_device c = d) (st_gencnt s)")
    case True
    then have "s' = s\<lparr>st_gencnt := st_gencnt s\<rparr>" by (simp add: s')
    then show ?thesis ..
  qed (auto simp: s')
qed

lemma chain_lock_projection:
  assumes "chain_ok s" and "lock_projection d s = Inr s'"
  shows "chain_keeps s s'"
  using lock_projection_frame [OF assms(2)] by (auto intro!: chain_keeps_frame [OF assms(1)])

definition streams_only :: "store \<Rightarrow> store \<Rightarrow> bool" where
  "streams_only s s' = (\<exists>x. s' = s\<lparr>st_streams := x\<rparr>)"

lemma streams_only_refl [simp]: "streams_only s s"
  unfolding streams_only_def by (rule exI [of _ "st_streams s"]) simp

lemma streams_only_set [simp]: "streams_only s (s\<lparr>st_streams := x\<rparr>)" "streams_only s (upd_streams p f s)"
  by (auto simp: streams_only_def upd_streams_def)

lemma streams_only_trans: "streams_only s s' \<Longrightarrow> streams_only s' s'' \<Longrightarrow> streams_only s s''"
  by (auto simp: streams_only_def)

lemma chain_streams_only: "chain_ok s \<Longrightarrow> streams_only s s' \<Longrightarrow> chain_keeps s s'"
  by (rule chain_keeps_frame) (auto simp: streams_only_def counters_grow_same)

lemma refresh_streams_only: "refresh_consumed_carriers d ids s = Inr (s', fs) \<Longrightarrow> streams_only s s'"
  by (auto simp: refresh_consumed_carriers_def bindE_eq_Inr Let_def split: if_splits)

lemma compose_streams_only: "compose_authorized_document d pr s = Inr (s', doc) \<Longrightarrow> streams_only s s'"
  by (auto simp: compose_authorized_document_def bindE_eq_Inr dest: refresh_streams_only)

lemma promote_streams_only: "promote_stream snap frozen d (s, p) stream = Inr (s', p') \<Longrightarrow> streams_only s s'"
  by (auto simp: promote_stream_def bindE_eq_Inr split: if_splits option.splits)

lemma authorize_streams_only: "authorize_fragment d s sf = Inr s' \<Longrightarrow> streams_only s s'"
  by (auto simp: authorize_fragment_def bindE_eq_Inr split: prod.splits)

lemma promote_fold_streams_only:
  assumes "foldE (promote_stream snap frozen d) (s, p) streams = Inr (s', p')"
  shows "streams_only s s'"
proof -
  have "streams_only s (fst (s', p'))"
    by (rule foldE_invariant [OF assms]) (auto, metis promote_streams_only streams_only_trans)
  then show ?thesis by simp
qed

lemma authorize_fold_streams_only:
  assumes "foldE (authorize_fragment d) s fs = Inr s'"
  shows "streams_only s s'"
  by (rule foldE_invariant [OF assms]) (auto dest: authorize_streams_only intro: streams_only_trans)

lemma chain_note_write:
  assumes "chain_ok s" and "note_write d stream push s = Inr (s', n)"
  shows "chain_keeps s s'"
proof -
  obtain s1 where "lock_projection d s = Inr s1" and "streams_only s1 s'"
    using assms(2) by (auto simp: note_write_def bindE_eq_Inr split: if_splits option.splits)
  then show ?thesis
    using chain_lock_projection [OF assms(1)] chain_streams_only chain_keeps_ok chain_keeps_trans by blast
qed

lemma next_seq_frame:
  assumes "next_seq d s = Inr (s', n)"
  obtains c x where "row_by n_device d (st_gencnt s) = Some c" "n = n_last c + 1" "s' = s\<lparr>st_gencnt := x\<rparr>" "counters_grow s s'"
    "row_by n_device d (st_gencnt s') = Some (c\<lparr>n_last := n\<rparr>)"
proof -
  let ?f = "\<lambda>c. c\<lparr>n_last := n_last c + 1\<rparr>"
  have look: "row_by n_device d' (upd_where (\<lambda>c. n_device c = d) ?f t) =
      map_option (\<lambda>c. if n_device c = d then ?f c else c) (row_by n_device d' t)" for d' t
    by (induction t) auto
  obtain c where c: "row_by n_device d (st_gencnt s) = Some c" "n = n_last c + 1"
      "s' = s\<lparr>st_gencnt := upd_where (\<lambda>c. n_device c = d) ?f (st_gencnt s)\<rparr>"
    using assms by (auto simp: next_seq_def split: option.splits)
  show thesis
    by (rule that [OF c]) (use c in \<open>auto simp: look counters_grow_def dest: row_by_SomeD\<close>)
qed

lemma chain_store_generation:
  assumes ok: "chain_ok s" and run: "store_generation E d rq doc pushes revs s = Inr (s', g)"
  shows "chain_keeps s s'" and "st_gens s' = st_gens s @ [g]" and "g_status g = GPending" and "g_job g = None" and "g_device g = d"
proof -
  obtain body s1 sq where sq: "next_seq d s = Inr (s1, sq)"
    and s': "s' = s1\<lparr>st_gens := st_gens s1 @ [g], st_next_gen := st_next_gen s1 + 1\<rparr>"
    and g: "g_id g = st_next_gen s1" "g_device g = d" "g_seq g = sq" "g_status g = GPending" "g_job g = None"
    using run by (auto simp: store_generation_def bindE_eq_Inr Let_def)
  obtain c x where c: "row_by n_device d (st_gencnt s) = Some c" "sq = n_last c + 1" "s1 = s\<lparr>st_gencnt := x\<rparr>" "counters_grow s s1"
      "row_by n_device d (st_gencnt s1) = Some (c\<lparr>n_last := sq\<rparr>)"
    by (rule next_seq_frame [OF sq])
  show gens: "st_gens s' = st_gens s @ [g]" and "g_status g = GPending" and "g_job g = None" and "g_device g = d"
    using g by (simp_all add: s' c(3))
  have "chain_ok s'"
    by (rule chain_add_generation [OF ok _ g(5,4), of c])
      (use c g in \<open>simp_all add: s' counters_grow_def\<close>)
  then show "chain_keeps s s'"
    unfolding chain_keeps_def gens by (blast intro: list_all2_refl gen_after_refl)
qed

lemma chain_create_generation:
  assumes ok: "chain_ok s" and run: "create_generation E so snap d streams rq document frozen s = Inr (s', g)"
  shows "chain_keeps s s'"
proof -
  obtain s1 s2 s3 s4 s5 fs p body where s: "lock_projection d s = Inr s1" "refresh_consumed_carriers d (rq_tombs rq) s1 = Inr (s2, fs)"
      "foldE (promote_stream snap frozen d) (s2, \<lparr>pr_revisions = [], pr_push = [], pr_fragments = []\<rparr>) (sort (remdups streams)) = Inr (s3, p)"
      "foldE (authorize_fragment d) s3 (pr_fragments p) = Inr s4"
    and comp: "(case document of Some doc \<Rightarrow> Inr (s4, doc) | None \<Rightarrow> compose_authorized_document d (pr_fragments p) s4) = Inr (s5, body)"
    and st: "store_generation E d rq body (pr_push p) (pr_revisions p) s5 = Inr (s', g)"
    using run by (auto simp: create_generation_def bindE_eq_Inr split: if_splits)
  have "streams_only s4 s5"
    using comp compose_streams_only by (auto split: option.splits)
  then have "streams_only s1 s5"
    using refresh_streams_only [OF s(2)] promote_fold_streams_only [OF s(3)] authorize_fold_streams_only [OF s(4)] streams_only_trans by blast
  then have "chain_keeps s s5"
    using chain_lock_projection [OF ok s(1)] chain_streams_only chain_keeps_ok chain_keeps_trans by blast
  then show ?thesis
    using chain_store_generation(1) [OF chain_keeps_ok st] chain_keeps_trans by blast
qed

lemma chain_create_reissue:
  assumes ok: "chain_ok s" and run: "create_reissue_generation E d rq s = Inr (s', g)"
  shows "chain_keeps s s'"
proof -
  obtain s1 s2 fs rq' doc pu where s: "lock_projection d s = Inr s1" "refresh_consumed_carriers d (rq_tombs rq) s1 = Inr (s2, fs)"
    and st: "store_generation E d rq' doc pu [] s2 = Inr (s', g)"
    using run by (auto simp: create_reissue_generation_def bindE_eq_Inr)
  have "chain_keeps s s2"
    using chain_lock_projection [OF ok s(1)] refresh_streams_only [OF s(2)] chain_streams_only chain_keeps_ok chain_keeps_trans by blast
  then show ?thesis
    using chain_store_generation(1) [OF chain_keeps_ok st] chain_keeps_trans by blast
qed

subsection \<open>Carriers\<close>

lemma insert_device_job_frame:
  assumes "insert_device_job now d ty coal ctx s = Inr (s', j)"
  shows "s' = add_job j s" and "j_id j = st_next_job s" and "j_status j = JQueued" and "j_device j = Some d" and "d \<in> set (st_devices s)"
  using assms by (auto simp: insert_device_job_def Let_def new_job_def split: if_splits)

lemma chain_insert_job:
  assumes ok: "chain_ok s" and run: "insert_device_job now d ty coal ctx s = Inr (s', j)"
  shows "chain_keeps s s'"
  using chain_add_job [OF ok] insert_device_job_frame [OF run] by (intro chain_keepsI) (simp_all add: add_job_def)

lemma fresh_job_carries_nothing:
  assumes "chain_ok s" and "g \<in> set (st_gens s)"
  shows "g_job g \<noteq> Some (st_next_job s)"
  using gen_below(2) [OF chain_okD(1) [OF assms(1)] assms(2)] by auto

lemma fresh_job_live:
  assumes "chain_ok s" and "j_id j = st_next_job s" and "j_status j = JQueued"
  shows "live_job (add_job j s) (j_id j) j"
proof -
  have "row_by j_id (st_next_job s) (st_jobs s) = None"
    using chain_okD(1) [OF assms(1)] by (auto simp: fresh_ok_def row_by_None_iff)
  then show ?thesis
    using assms(2,3) by (simp add: live_job_def add_job_def job_live_def)
qed

text \<open>The attachment of a pending generation no live job carries, as the code's callers do it.\<close>

definition attachable :: "store \<Rightarrow> generation \<Rightarrow> job \<Rightarrow> bool" where
  "attachable s g j = (g \<in> set (st_gens s) \<and> g_status g = GPending \<and> g_job g = None \<and>
     j \<in> set (st_jobs s) \<and> j_status j = JQueued \<and> j_device j = Some (g_device g))"

lemma chain_keeps_bind:
  "chain_ok s' \<Longrightarrow> st_gens s' = upd_where p (\<lambda>x. x\<lparr>g_job := k\<rparr>) (st_gens s) \<Longrightarrow> chain_keeps s s'"
  by (erule (1) chain_keeps_upd) (simp add: gen_after_def gen_identity_def)

lemma chain_attach:
  assumes ok: "chain_ok s" and at: "attachable s g j" and run: "attach_to_job g j s = Inr (s', b)"
  shows "chain_keeps s s'"
proof -
  let ?k = "j_id j"
  let ?bound = "upd_gens (\<lambda>x. g_id x = g_id g) (\<lambda>x. x\<lparr>g_job := Some ?k\<rparr>) s"
  have "chain_ok ?bound" if fit: "job_generations s ?k = [] \<or> g_seq (last (job_generations s ?k)) = g_seq g - 1"
  proof (rule chain_bind [OF ok])
    have last: "h \<in> set (st_gens s) \<Longrightarrow> g_job h = Some ?k \<Longrightarrow> g_seq h \<le> g_seq (last (job_generations s ?k))" for h
      unfolding job_generations_def by (rule last_sort_key(2)) (auto simp: filter_empty_conv)
    have some: "last (job_generations s ?k) \<in> set (st_gens s)" "g_job (last (job_generations s ?k)) = Some ?k"
      if "job_generations s ?k \<noteq> []"
      using last_in_set [OF that] set_job_generations [of s ?k] by auto
    fix h assume h: "h \<in> set (st_gens s)" "g_job h = Some ?k"
    then have ne: "job_generations s ?k \<noteq> []"
      using set_job_generations [of s ?k] by auto
    show "g_seq h < g_seq g"
      using last [OF h] fit ne by simp
    show "\<exists>l\<in>set (st_gens s). g_job l = Some ?k \<and> g_seq l = g_seq g - 1"
      using some [OF ne] fit ne by blast
  qed (use at job_by_id_member [OF chain_okD(6) [OF ok], of j] in \<open>auto simp: attachable_def live_bound_def live_job_def job_live_def\<close>)
  then have "chain_ok s'" and "st_gens s' = st_gens s \<or> s' = ?bound"
    using run ok by (auto simp: attach_to_job_def Let_def split: if_splits)
  then show ?thesis
    using chain_keepsI chain_keeps_bind by fastforce
qed

lemma create_dedicated_frame:
  "create_dedicated_job now d ty ctx s = Inr (s', j) \<Longrightarrow> insert_device_job now d ty False ctx s = Inr (s', j)"
  by (simp add: create_dedicated_job_def split: if_splits)

lemma create_dedicated_carrier_cases:
  assumes "create_dedicated_carrier now g s = Inr (s', j)"
  obtains s1 ty ctx where "insert_device_job now (g_device g) ty False ctx s = Inr (s1, j)" "attach_to_job g j s1 = Inr (s', True)"
  using assms by (auto simp: create_dedicated_carrier_def bindE_eq_Inr split: option.splits list.splits if_splits dest!: create_dedicated_frame)

lemma create_dedicated_carrier_effect:
  assumes ok: "chain_ok s" and run: "create_dedicated_carrier now g s = Inr (s', j)"
  shows "s' = upd_gens (\<lambda>x. g_id x = g_id g) (\<lambda>x. x\<lparr>g_job := Some (j_id j)\<rparr>) (add_job j s)"
    and "j_id j = st_next_job s" and "j_status j = JQueued" and "j_device j = Some (g_device g)"
proof -
  obtain s1 ty ctx where s1: "insert_device_job now (g_device g) ty False ctx s = Inr (s1, j)" and at: "attach_to_job g j s1 = Inr (s', True)"
    by (rule create_dedicated_carrier_cases [OF run])
  note j = insert_device_job_frame [OF s1]
  show "j_id j = st_next_job s" and "j_status j = JQueued" and "j_device j = Some (g_device g)"
    by (rule j)+
  have "set (job_generations s1 (j_id j)) = {}"
    unfolding set_job_generations using fresh_job_carries_nothing [OF ok] j(1,2) by (auto simp: add_job_def)
  then have "job_generations s1 (j_id j) = []"
    by simp
  then show "s' = upd_gens (\<lambda>x. g_id x = g_id g) (\<lambda>x. x\<lparr>g_job := Some (j_id j)\<rparr>) (add_job j s)"
    using at j(1) by (simp add: attach_to_job_def)
qed

lemma chain_create_dedicated_carrier:
  assumes ok: "chain_ok s" and g: "g \<in> set (st_gens s)" "g_status g = GPending" "\<not> live_bound s g"
    and h: "g_id h = g_id g" "g_device h = g_device g" and run: "create_dedicated_carrier now h s = Inr (s', j)"
  shows "chain_keeps s s'"
proof (rule chain_keeps_bind)
  note e = create_dedicated_carrier_effect [OF ok run]
  have ok1: "chain_ok (add_job j s)"
    by (rule chain_add_job [OF ok e(2)])
  have unbound: "\<not> live_bound (add_job j s) g"
    using g(3) live_job_added [of j s] fresh_job_carries_nothing [OF ok g(1)] e(2) by (fastforce simp: live_bound_def)
  have none: "g_job x \<noteq> Some (j_id j)" if "x \<in> set (st_gens s)" for x
    using fresh_job_carries_nothing [OF ok that] e(2) by simp
  have "chain_ok (upd_gens (\<lambda>x. g_id x = g_id g) (\<lambda>x. x\<lparr>g_job := Some (j_id j)\<rparr>) (add_job j s))"
    by (rule chain_bind [OF ok1 _ g(2) unbound fresh_job_live [OF ok e(2,3)] e(3)])
      (use g(1) none e(4) h(2) in \<open>auto simp: add_job_def\<close>)
  then show "chain_ok s'"
    by (simp add: e(1) h(1))
  show "st_gens s' = upd_where (\<lambda>x. g_id x = g_id h) (\<lambda>x. x\<lparr>g_job := Some (j_id j)\<rparr>) (st_gens s)"
    by (simp add: e(1) add_job_def)
qed

subsection \<open>Operator exits, advancement and recovery\<close>

lemma barrier_excludes:
  assumes "chain_ok s" and "g \<in> set (st_gens s)" and "h \<in> set (st_gens s)" and "g_status g = GRunning"
    and "g_device h = g_device g" and "g_seq h < g_seq g"
  shows "crossable (g_status h) \<or> g_status h = GRunning"
  using barrierD [OF chain_okD(5) [OF assms(1)] assms(2-6)] by blast

lemma blocked_unbound:
  assumes "chain_ok s" and "g \<in> set (st_gens s)" and "gen_blocked (g_status g)"
  shows "\<not> live_bound s g"
  using carrierD(1) [OF chain_okD(3) [OF assms(1)] assms(2)] assms(3) by (fastforce simp: live_bound_def gen_blocked_def split: if_splits)

lemma same_gen:
  assumes "ids_ok s" and "g \<in> set (st_gens s)" and "x \<in> set (st_gens s)" and "g_id x = g_id g"
  shows "x = g"
  using assms by (auto simp: ids_ok_def dest: distinct_key_eq)

lemma chain_row_update:
  assumes ok: "chain_ok s" and g: "g \<in> set (st_gens s)" "\<not> live_bound s g" "\<not> crossable (g_status g)" "g_status g \<noteq> GRunning"
    and f: "\<And>x. gen_identity (f x) = gen_identity x" "g_status (f g) \<noteq> GRunning" "g_job (f g) = None \<or> g_job (f g) = g_job g"
  shows "chain_keeps s (upd_gens (\<lambda>x. g_id x = g_id g) f s)"
proof (rule chain_keeps_upd)
  let ?s' = "upd_gens (\<lambda>x. g_id x = g_id g) f s" and ?F = "\<lambda>x. if g_id x = g_id g then f x else x"
  note me = same_gen [OF chain_okD(6) [OF ok] g(1)]
  have below: "k < st_next_job s" if "x \<in> set (st_gens s)" "g_job (?F x) = Some k" for x k
    using gen_below(2) [OF chain_okD(1) [OF ok] that(1)] me [OF that(1)] that(2) f(3) by (cases "g_id x = g_id g") auto
  have upd: "chain_update s ?s' ?F"
    unfolding chain_update_def using ok below gen_identityD(1-3) [OF f(1)] by (simp add: upd_gens_def upd_where_def)
  have lb: "live_bound ?s' = live_bound s"
    by (simp add: live_bound_def live_job_def fun_eq_iff)
  have changed: "x = g" if "x \<in> set (st_gens s)" "?F x \<noteq> x" for x
    using me [OF that(1)] that(2) by (auto split: if_splits)
  show "chain_ok ?s'"
  proof (rule chain_update_unbound [OF upd])
    fix x assume "x \<in> set (st_gens s)" "?F x \<noteq> x"
    then have "x = g" by (rule changed)
    then show "\<not> live_bound s x \<and> \<not> live_bound ?s' (?F x) \<and> g_status (?F x) \<noteq> GRunning"
      using g(2) f(2,3) unfolding lb by (auto simp: live_bound_def)
  next
    fix x h assume a: "x \<in> set (st_gens s)" "h \<in> set (st_gens s)" "g_status x = GRunning" "?F x = x" "g_device h = g_device x" "g_seq h < g_seq x"
    show "?F h = h \<or> crossable (g_status (?F h))"
      using barrier_excludes [OF ok a(1,2,3,5,6)] changed [OF a(2)] g(3,4) by blast
  qed simp
  show "st_gens ?s' = upd_where (\<lambda>x. g_id x = g_id g) f (st_gens s)"
    by simp
  show "gen_after x (f x)" if "x \<in> set (st_gens s)" "g_id x = g_id g" for x
    using me [OF that] g(3) f(1) by (simp add: gen_after_def)
qed

lemma claim_blocked_head_effect:
  assumes ids: "ids_ok s" and g: "g \<in> set (st_gens s)" and run: "claim_blocked_head now (g_id g) outcome s = Inr s'"
  obtains f where "gen_blocked (g_status g)" "s' = upd_gens (\<lambda>x. g_id x = g_id g) f s" "\<And>x. gen_identity (f x) = gen_identity x"
    "\<And>x. g_status (f x) = outcome" "\<And>x. g_job (f x) = g_job x"
proof (cases "gen_terminal outcome")
  case True
  let ?es = "[GFailed, GOutcomeUnknown]" and ?f = "terminal_values outcome None now (Option.bind (g_job g) (job_by_id s))"
  have row: "row_by g_id (g_id g) (st_gens s) = Some g"
    using ids g by (simp add: row_by_eq_Some_iff ids_ok_def)
  have hit: "exists_where (gen_matches g (Some ?es)) (st_gens s)" and s': "s' = upd_gens (gen_matches g (Some ?es)) ?f s"
    using run True row by (auto simp: claim_blocked_head_def terminalize_generations_def terminalize_one_def split: if_splits)
  obtain x where "x \<in> set (st_gens s)" "gen_matches g (Some ?es) x"
    using hit by (auto simp: exists_where_def list_ex_iff)
  then have b: "g_status g \<in> set ?es"
    using same_gen [OF ids g] by (auto simp: gen_matches_def)
  have "gen_matches g (Some ?es) x = (g_id x = g_id g)" if "x \<in> set (st_gens s)" for x
    using same_gen [OF ids g that] b by (auto simp: gen_matches_def)
  then have "s' = upd_gens (\<lambda>x. g_id x = g_id g) ?f s"
    unfolding s' by (auto simp: upd_gens_def upd_where_def)
  then show ?thesis
    by (rule that [rotated]) (use b in \<open>auto simp: gen_blocked_def row_simps terminal_ident.key_kept\<close>)
next
  case False
  let ?p = "\<lambda>x. g_id x = g_id g \<and> gen_blocked (g_status x)"
  have hit: "exists_where ?p (st_gens s)" and s': "s' = upd_gens ?p (\<lambda>g. g\<lparr>g_status := outcome\<rparr>) s"
    using run False by (auto simp: claim_blocked_head_def split: if_splits)
  obtain x where "x \<in> set (st_gens s)" "?p x"
    using hit by (auto simp: exists_where_def list_ex_iff)
  then have b: "gen_blocked (g_status g)"
    using same_gen [OF ids g] by auto
  have "?p x = (g_id x = g_id g)" if "x \<in> set (st_gens s)" for x
    using same_gen [OF ids g that] b by auto
  then have "s' = upd_gens (\<lambda>x. g_id x = g_id g) (\<lambda>g. g\<lparr>g_status := outcome\<rparr>) s"
    unfolding s' by (auto simp: upd_gens_def upd_where_def)
  then show ?thesis
    by (rule that [OF b]) (simp_all add: gen_identity_def)
qed

lemma chain_claim_blocked_head:
  assumes ok: "chain_ok s" and g: "g \<in> set (st_gens s)" and run: "claim_blocked_head now (g_id g) outcome s = Inr s'" and out: "outcome \<noteq> GRunning"
  shows "chain_keeps s s'"
proof -
  obtain f where f: "gen_blocked (g_status g)" "s' = upd_gens (\<lambda>x. g_id x = g_id g) f s" "\<And>x. gen_identity (f x) = gen_identity x"
    "\<And>x. g_status (f x) = outcome" "\<And>x. g_job (f x) = g_job x"
    using claim_blocked_head_effect [OF chain_okD(6) [OF ok] g run] by metis
  show ?thesis
    unfolding f(2) by (rule chain_row_update [OF ok g blocked_unbound [OF ok g f(1)]]) (use f out in \<open>auto simp: gen_blocked_def crossable_def\<close>)
qed

lemma executable_head_SomeD:
  assumes "executable_head s d = Some h"
  shows "h \<in> set (st_gens s)" and "g_device h = d" and "\<not> crossable (g_status h)"
    and "\<And>g. g \<in> set (st_gens s) \<Longrightarrow> g_device g = d \<Longrightarrow> g_seq g < g_seq h \<Longrightarrow> crossable (g_status g)"
  using first_by_SomeD [OF assms [unfolded executable_head_def]] by (auto simp: not_le [symmetric])

lemma chain_carrier_of_row:
  assumes ok: "chain_ok s" and g: "g \<in> set (st_gens s)" "\<not> live_bound s g" "\<not> crossable (g_status g)" "g_status g \<noteq> GRunning"
    and f: "\<And>x. gen_identity (f x) = gen_identity x" "g_status (f g) = GPending" "g_job (f g) = None \<or> g_job (f g) = g_job g"
    and h: "g_id h = g_id g" "g_device h = g_device g"
    and run: "create_dedicated_carrier now h (upd_gens (\<lambda>x. g_id x = g_id g) f s) = Inr (s', j)"
  shows "chain_keeps s s'"
proof -
  let ?s1 = "upd_gens (\<lambda>x. g_id x = g_id g) f s"
  have keeps: "chain_keeps s ?s1"
    by (rule chain_row_update [OF ok g f(1)]) (use f in auto)
  have "f g \<in> set (st_gens ?s1)"
    using g(1) by (auto simp: table_simps)
  moreover have "\<not> live_bound ?s1 (f g)"
    using g(2) f(3) by (auto simp: live_bound_def live_job_def)
  ultimately have "chain_keeps ?s1 s'"
    using chain_create_dedicated_carrier [OF chain_keeps_ok [OF keeps] _ f(2) _ _ _ run] h gen_identityD(1,2) [OF f(1), of g] by simp
  then show ?thesis
    using keeps chain_keeps_trans by blast
qed

lemma require_head_SomeD:
  assumes "require_locked_executable_head g0 s = Inr (s1, g)"
  shows "lock_projection (g_device g0) s = Inr s1" and "executable_head s1 (g_device g0) = Some g" and "g_id g = g_id g0"
  using assms by (auto simp: require_locked_executable_head_def bindE_eq_Inr split: option.splits if_splits)

lemma chain_retry:
  assumes ok: "chain_ok s" and run: "retry_generation E now gid s = Inr (s', r)"
  shows "chain_keeps s s'"
proof (cases "row_by g_id gid (st_gens s)")
  case None
  then show ?thesis using ok run by (simp add: retry_generation_def chain_keeps_refl)
next
  case (Some g0)
  obtain s1 g s2 s3 j ids where head: "require_locked_executable_head g0 s = Inr (s1, g)"
    and claim: "claim_blocked_head now gid GPending s1 = Inr s2" and car: "create_dedicated_carrier now g s2 = Inr (s3, j)"
    and s': "s' = rebind_tombstones ids (g_device g) (g_job g) (j_id j) s3"
    using run Some by (auto simp: retry_generation_def bindE_eq_Inr split: if_splits)
  note hd = require_head_SomeD [OF head]
  have k1: "chain_keeps s s1"
    by (rule chain_lock_projection [OF ok hd(1)])
  note ok1 = chain_keeps_ok [OF k1] and gs = executable_head_SomeD(1) [OF hd(2)]
  have gid: "g_id g = gid"
    using hd(3) row_by_SomeD [OF Some] by simp
  obtain f where f: "gen_blocked (g_status g)" "s2 = upd_gens (\<lambda>x. g_id x = g_id g) f s1" "\<And>x. gen_identity (f x) = gen_identity x"
    "\<And>x. g_status (f x) = GPending" "\<And>x. g_job (f x) = g_job x"
    using claim_blocked_head_effect [OF chain_okD(6) [OF ok1] gs] claim gid by metis
  have "chain_keeps s1 s3"
    by (rule chain_carrier_of_row [OF ok1 gs blocked_unbound [OF ok1 gs f(1)] _ _ f(3) _ _ _ _ car [unfolded f(2)]])
      (use f in \<open>auto simp: gen_blocked_def crossable_def\<close>)
  moreover have "chain_keeps s3 s'"
    by (rule chain_keeps_frame [OF chain_keeps_ok [OF calculation]]) (simp_all add: s' rebind_tombstones_def counters_grow_same)
  ultimately show ?thesis
    using k1 chain_keeps_trans by blast
qed

lemma chain_advance_locked:
  assumes ok: "chain_ok s" and run: "advance_generations_locked now busy d s = Inr (s', r)"
  shows "chain_keeps s s'"
proof (cases "executable_head s d")
  case None
  then show ?thesis using ok run by (simp add: advance_generations_locked_def chain_keeps_refl)
next
  case (Some h)
  note hd = executable_head_SomeD [OF Some]
  let ?drop = "\<lambda>g. g\<lparr>g_job := None\<rparr>"
  consider "s' = s" | j where "g_status h = GPending" "g_job h = None" "create_dedicated_carrier now (?drop h) s = Inr (s', j)"
    | k j where "g_status h = GPending" "g_job h = Some k" "\<forall>i. job_by_id s k = Some i \<longrightarrow> \<not> job_live (j_status i)"
      "create_dedicated_carrier now (?drop h) (upd_gens (\<lambda>g. g_id g = g_id h) ?drop s) = Inr (s', j)"
    using run Some by (fastforce simp: advance_generations_locked_def bindE_eq_Inr Let_def job_live_def split: if_splits option.splits)
  then show ?thesis
  proof cases
    case 1
    then show ?thesis using ok by (simp add: chain_keeps_refl)
  next
    case 2
    then show ?thesis
      by (intro chain_create_dedicated_carrier [OF ok hd(1) _ _ _ _ 2(3)]) (simp_all add: live_bound_def)
  next
    case 3
    have "\<not> live_bound s h"
      using 3(2,3) by (auto simp: live_bound_def live_job_def)
    then show ?thesis
      by (rule chain_carrier_of_row [OF ok hd(1) _ hd(3) _ _ _ _ _ _ 3(4)]) (use 3(1) in \<open>simp_all add: gen_identity_def\<close>)
  qed
qed

lemma chain_advance:
  assumes "chain_ok s" and "advance_device_generations now busy d s = Inr (s', r)"
  shows "chain_keeps s s'"
  using assms chain_lock_projection chain_advance_locked chain_keeps_ok chain_keeps_trans
  unfolding advance_device_generations_def bindE_eq_Inr by blast

lemma stamp_cohort_streams_only: "streams_only s (stamp_settled_cohort s c)"
  using stamp_applied_frame by (auto simp: stamp_settled_cohort_def Let_def streams_only_def [symmetric])

lemma chain_reconcile:
  assumes ok: "chain_ok s" and run: "reconcile_generation now busy gid s = Inr (s', r)"
  shows "chain_keeps s s'"
proof (cases "row_by g_id gid (st_gens s)")
  case None
  then show ?thesis using ok run by (simp add: reconcile_generation_def chain_keeps_refl)
next
  case (Some g0)
  obtain s1 g s2 s3 where head: "require_locked_executable_head g0 s = Inr (s1, g)"
    and claim: "claim_blocked_head now gid GAbandoned s1 = Inr s2"
    and s3: "s3 = (case g_cohort g of None \<Rightarrow> s2 | Some c \<Rightarrow> stamp_settled_cohort s2 c)"
    and adv: "advance_generations_locked now busy (g_device g) s3 = Inr (s', r)"
    using run Some by (auto simp: reconcile_generation_def bindE_eq_Inr Let_def split: if_splits)
  note hd = require_head_SomeD [OF head]
  have k1: "chain_keeps s s1"
    by (rule chain_lock_projection [OF ok hd(1)])
  have "g_id g = gid"
    using hd(3) row_by_SomeD [OF Some] by simp
  then have k2: "chain_keeps s1 s2"
    using chain_claim_blocked_head [OF chain_keeps_ok [OF k1] executable_head_SomeD(1) [OF hd(2)]] claim by fastforce
  have "streams_only s2 s3"
    using s3 stamp_cohort_streams_only by (auto split: option.splits)
  then have "chain_keeps s2 s3"
    by (rule chain_streams_only [OF chain_keeps_ok [OF k2]])
  then show ?thesis
    using k1 k2 chain_advance_locked [OF chain_keeps_ok adv] chain_keeps_trans by blast
qed

text \<open>Terminalization of rows that are read first and expected in a status: exactly these rows change.\<close>

lemma terminalize_expected_fold:
  assumes "distinct (map g_id (st_gens s))" and "set gs \<subseteq> set (st_gens s)" and "distinct gs" and "\<forall>g\<in>set gs. g_status g \<in> set es"
  shows "foldl (terminalize_one outcome err (Some es) now) (s, l) gs =
    (s\<lparr>st_gens := map (\<lambda>g. if g \<in> set gs then terminal_values outcome err now (Option.bind (g_job g) (job_by_id s)) g else g) (st_gens s)\<rparr>,
     l @ map g_id gs)"
  using assms
proof (induction gs arbitrary: s l)
  case (Cons g gs)
  let ?tv = "terminal_values outcome err now (Option.bind (g_job g) (job_by_id s))"
  let ?s1 = "s\<lparr>st_gens := map (\<lambda>x. if x = g then ?tv x else x) (st_gens s)\<rparr>"
  have g: "g \<in> set (st_gens s)" "g_status g \<in> set es" "g \<notin> set gs"
    using Cons.prems by auto
  have key: "x = g" if "x \<in> set (st_gens s)" "g_id x = g_id g" for x
    using distinct_key_eq [OF Cons.prems(1) that(1) g(1) that(2)] .
  have match: "gen_matches g (Some es) x = (x = g)" if "x \<in> set (st_gens s)" for x
    using key [OF that] g(2) by (auto simp: gen_matches_def)
  then have "exists_where (gen_matches g (Some es)) (st_gens s)"
    using g(1) by (auto simp: exists_where_def list_ex_iff)
  then have one: "terminalize_one outcome err (Some es) now (s, l) g = (?s1, l @ [g_id g])"
    using match by (simp add: terminalize_one_def upd_gens_def upd_where_def)
  have eq: "map g_id (st_gens ?s1) = map g_id (st_gens s)"
    by (auto simp: row_simps)
  have ids: "distinct (map g_id (st_gens ?s1))"
    unfolding eq by (rule Cons.prems(1))
  have sub: "set gs \<subseteq> set (st_gens ?s1)"
    using Cons.prems(2) g(3) by (force simp: image_iff)
  have out: "?tv g \<notin> set gs"
    using key [of "?tv g"] Cons.prems(2) g(3) by (auto simp: row_simps)
  show ?case
    using Cons.IH [OF ids sub, of "l @ [g_id g]"] Cons.prems(3,4) one out by (auto simp: comp_def intro!: map_cong)
qed simp

lemma terminalize_expected:
  assumes "ids_ok s" and "gen_terminal outcome" and "\<And>g. p g \<Longrightarrow> g_status g \<in> set es"
    and "terminalize_generations s (filter p (st_gens s)) outcome err (Some es) now = Inr (s', landed)"
  shows "s' = s\<lparr>st_gens := map (\<lambda>g. if p g then terminal_values outcome err now (Option.bind (g_job g) (job_by_id s)) g else g) (st_gens s)\<rparr>"
    and "landed = map g_id (filter p (st_gens s))"
proof -
  have d: "distinct (map g_id (st_gens s))" "distinct (filter p (st_gens s))"
    using assms(1) by (auto simp: ids_ok_def distinct_map)
  have "foldl (terminalize_one outcome err (Some es) now) (s, []) (filter p (st_gens s)) = (s', landed)"
    using assms(2,4) by (simp add: terminalize_generations_def)
  then show "s' = s\<lparr>st_gens := map (\<lambda>g. if p g then terminal_values outcome err now (Option.bind (g_job g) (job_by_id s)) g else g) (st_gens s)\<rparr>"
    and "landed = map g_id (filter p (st_gens s))"
    using terminalize_expected_fold [OF d(1) _ d(2), of es outcome err now "[]"] assms(3) by (auto cong: map_cong)
qed

lemma stranded_unbound:
  assumes "chain_ok s" and "g \<in> set (st_gens s)" and "stranded s g"
  shows "\<not> live_bound s g"
proof
  assume "live_bound s g"
  then obtain k j where j: "g_job g = Some k" "live_job s k j"
    by (auto simp: live_bound_def)
  then have "g_status g = (if j_status j = JQueued then GPending else GRunning)"
    using carrierD(1) [OF chain_okD(3) [OF assms(1)] assms(2)] by blast
  then show False
    using assms(3) j by (auto simp: stranded_def live_job_def job_live_def)
qed

lemma chain_recover_stranded:
  assumes ok: "chain_ok s"
    and run: "terminalize_generations s (filter (stranded s) (st_gens s)) GOutcomeUnknown None (Some [GRunning]) now = Inr (s', landed)"
  shows "chain_keeps s s'"
proof (rule chain_keeps_upd)
  let ?F = "\<lambda>g. if stranded s g then terminal_values GOutcomeUnknown None now (Option.bind (g_job g) (job_by_id s)) g else g"
  have s': "s' = s\<lparr>st_gens := map ?F (st_gens s)\<rparr>"
    by (rule terminalize_expected(1) [OF chain_okD(6) [OF ok] _ _ run]) (simp_all add: gen_terminal_def stranded_def)
  have upd: "chain_update s s' ?F"
    unfolding chain_update_def using ok gen_below(2) [OF chain_okD(1) [OF ok]] by (simp add: s' row_simps)
  show "chain_ok s'"
  proof (rule chain_update_unbound [OF upd])
    fix g assume a: "g \<in> set (st_gens s)" "?F g \<noteq> g"
    then have st: "stranded s g"
      by (auto split: if_splits)
    show "\<not> live_bound s g \<and> \<not> live_bound s' (?F g) \<and> g_status (?F g) \<noteq> GRunning"
      using stranded_unbound [OF ok a(1) st] st by (simp add: s' live_bound_def live_job_def row_simps)
  next
    fix g h assume a: "g \<in> set (st_gens s)" "h \<in> set (st_gens s)" "g_status g = GRunning" "?F g = g" "g_device h = g_device g" "g_seq h < g_seq g"
    have "\<not> stranded s g"
      using a(3,4) terminal_values_cols(1) [of GOutcomeUnknown None now "Option.bind (g_job g) (job_by_id s)" g] by (auto split: if_splits)
    then show "?F h = h \<or> crossable (g_status (?F h))"
      using barrierD [OF chain_okD(5) [OF ok] a(1-3,5,6)] a(3) by (auto simp: stranded_def crossable_def)
  qed (simp add: s')
  show "st_gens s' = upd_where (stranded s) (\<lambda>g. terminal_values GOutcomeUnknown None now (Option.bind (g_job g) (job_by_id s)) g) (st_gens s)"
    by (simp add: s' upd_where_def)
qed (auto simp: gen_after_def terminal_ident.key_kept stranded_def crossable_def)

lemma chain_recover_device:
  "chain_ok s \<Longrightarrow> recover_device now busy s d = Inr s' \<Longrightarrow> chain_keeps s s'"
  by (auto simp: recover_device_def chain_keeps_refl split: sum.splits if_splits intro: chain_advance)

lemma chain_recover_generations:
  assumes ok: "chain_ok s" and run: "recover_generations now busy s = Inr (s', n)"
  shows "chain_keeps s s'"
proof -
  obtain s1 landed where s1: "terminalize_generations s (filter (stranded s) (st_gens s)) GOutcomeUnknown None (Some [GRunning]) now = Inr (s1, landed)"
    and fold: "foldE (recover_device now busy) s1 (remdups (map g_device (filter (\<lambda>g. g_status g = GPending) (st_gens s1)))) = Inr s'"
    using run by (auto simp: recover_generations_def bindE_eq_Inr Let_def)
  have k1: "chain_keeps s s1"
    by (rule chain_recover_stranded [OF ok s1])
  show ?thesis
    by (rule foldE_invariant [where P = "chain_keeps s", OF fold k1]) (blast intro: chain_recover_device chain_keeps_ok chain_keeps_trans)
qed

section \<open>The step relation\<close>

text \<open>
  Every operation that touches the chain, as one step; \<open>elsewhere\<close> stands for what the adapter
  does outside it (claims, heartbeats, attempts, evidence, results).  The re-disposition of a
  running job reads the queue and writes later, so any run of other steps may come in between.
\<close>

definition job_row :: "job \<Rightarrow> int \<times> job_status \<times> int option" where
  "job_row j = (j_id j, j_status j, j_device j)"

inductive chain_step :: "env \<Rightarrow> store \<Rightarrow> store \<Rightarrow> bool" for E :: env where
  step_write: "note_write d stream push s = Inr (s', n) \<Longrightarrow> chain_step E s s'"
| step_lock: "lock_projection d s = Inr s' \<Longrightarrow> chain_step E s s'"
| step_create: "create_generation E so snap d streams rq document frozen s = Inr (s', g) \<Longrightarrow> chain_step E s s'"
| step_reissue: "create_reissue_generation E d rq s = Inr (s', g) \<Longrightarrow> chain_step E s s'"
| step_add_job: "j_id j = st_next_job s \<Longrightarrow> chain_step E s (add_job j s)"
| step_attach: "attachable s g j \<Longrightarrow> attach_to_job g j s = Inr (s', b) \<Longrightarrow> chain_step E s s'"
| step_start: "start_head_under_claim E now held d reg release only s = Inr (s', r) \<Longrightarrow> chain_step E s s'"
| step_claimless: "claim_next_claimless_job E now held s = Inr (s', t) \<Longrightarrow> chain_step E s s'"
| step_finish: "job_live expect \<Longrightarrow> terminalize E now s k status expect ra result err sd go = Inr (s', w) \<Longrightarrow> chain_step E s s'"
| step_redispose: "(chain_step E)\<^sup>*\<^sup>* s u \<Longrightarrow> terminalize_running E now (\<lambda>_. u) s k status err ra = Inr (s', v) \<Longrightarrow> chain_step E s s'"
| step_bulk: "chain_step E s (fst (terminalize_where p bulk_err s))"
| step_retry: "retry_generation E now gid s = Inr (s', jo) \<Longrightarrow> chain_step E s s'"
| step_reconcile: "reconcile_generation now busy gid s = Inr (s', jo) \<Longrightarrow> chain_step E s s'"
| step_advance: "advance_device_generations now busy d s = Inr (s', jo) \<Longrightarrow> chain_step E s s'"
| step_recover: "recover_generations now busy s = Inr (s', c) \<Longrightarrow> chain_step E s s'"
| step_elsewhere: "st_gens s' = st_gens s \<Longrightarrow> st_gencnt s' = st_gencnt s \<Longrightarrow> st_next_job s' = st_next_job s \<Longrightarrow>
    st_next_gen s' = st_next_gen s \<Longrightarrow> map job_row (st_jobs s') = map job_row (st_jobs s) \<Longrightarrow> chain_step E s s'"

lemma row_by_same_rows:
  assumes "map job_row t' = map job_row t" and "row_by j_id k t' = Some j"
  shows "\<exists>i. row_by j_id k t = Some i \<and> job_row i = job_row j"
  using assms by (induction t' arbitrary: t) (auto simp: job_row_def Cons_eq_map_conv split: if_splits)

lemma chain_elsewhere:
  assumes ok: "chain_ok s" and same: "st_gens s' = st_gens s" "st_gencnt s' = st_gencnt s" "st_next_job s' = st_next_job s"
    "st_next_gen s' = st_next_gen s" "map job_row (st_jobs s') = map job_row (st_jobs s)"
  shows "chain_keeps s s'"
proof (rule chain_keepsI)
  have "map j_id (st_jobs s') = map j_id (st_jobs s)"
    using arg_cong [OF same(5), of "map fst"] by (simp add: job_row_def comp_def)
  then show "chain_ok s'"
    by (rule chain_ok_jobs_die [OF ok same(1) _ same(3,4,2)])
      (use row_by_same_rows [OF same(5)] in \<open>fastforce simp: live_job_def job_row_def\<close>)
qed (simp add: same(1))

lemma chain_step_keeps:
  "chain_step E s s' \<Longrightarrow> chain_ok s \<Longrightarrow> chain_keeps s s'"
proof (induction rule: chain_step.induct)
  case (step_redispose s u now k status err ra s' v)
  have "chain_keeps s u"
    using step_redispose.IH step_redispose.prems
    by (induction rule: rtranclp_induct) (blast intro: chain_keeps_refl chain_keeps_ok chain_keeps_trans)+
  then show ?case
    using chain_terminalize_running [OF step_redispose.prems _ _ step_redispose.hyps] chain_keeps_ok by blast
next
  case (step_bulk s p bulk_err)
  show ?case by (rule chain_terminalize_where [OF step_bulk.prems])
next
  case (step_add_job j s)
  then show ?case by (intro chain_keepsI chain_add_job) (simp_all add: add_job_def)
next
  case step_start
  then show ?case by (rule chain_start_head [rotated])
qed (erule (1) chain_note_write [rotated] chain_lock_projection [rotated] chain_create_generation [rotated] chain_create_reissue [rotated]
    chain_claimless [rotated] chain_retry [rotated] chain_reconcile [rotated] chain_advance [rotated] chain_recover_generations [rotated]
  | blast intro: chain_attach chain_terminalize chain_elsewhere)+

definition chain_start :: "store \<Rightarrow> bool" where
  "chain_start s = (st_gens s = [] \<and> st_jobs s = [])"

interpretation chain: invariant_system chain_start "chain_step E" chain_ok for E
proof
  show "chain_start s \<Longrightarrow> chain_ok s" for s
    by (simp add: chain_start_def chain_ok_def fresh_ok_def ids_ok_def seqs_ok_def carriers_ok_def contiguous_def barrier_def)
  show "chain_step E s s' \<Longrightarrow> chain_ok s \<Longrightarrow> chain_ok s'" for s s'
    by (rule chain_keeps_ok) (rule chain_step_keeps)
qed

lemma chain_steps_keep: "(chain_step E)\<^sup>*\<^sup>* s s' \<Longrightarrow> chain_ok s \<Longrightarrow> chain_keeps s s'"
  by (induction rule: rtranclp_induct)
    (blast intro: chain_keeps_refl chain_keeps_ok chain_step_keeps chain_keeps_trans)+

section \<open>Properties of every run\<close>

text \<open>A run on one device: two generations, a job that carries both, and its start.\<close>

definition run_store :: store where
  "run_store = \<lparr>st_devices = [1], st_jobs = [], st_claims = [sample_claim 1 ''tok'' None 100], st_settle = [\<lparr>n_device = 1, n_last = 0\<rparr>],
     st_gencnt = [], st_streams = [], st_gens = [], st_tombs = [], st_attempts = [], st_outcomes = [],
     st_next_job = 1, st_next_gen = 1, st_next_attempt = 1, st_next_cohort = 1\<rparr>"

definition run_request :: gen_request where
  "run_request = \<lparr>rq_mode = Networked, rq_allowed = [], rq_removal = None, rq_cohort = None, rq_tombs = [], rq_clears = [],
     rq_attempt = None, rq_immediate = []\<rparr>"

definition run_job :: job where
  "run_job = new_job 5 1 JTApply (Some 1) True None None"

definition run_claim :: registration where
  "run_claim = \<lparr>r_device = Some 1, r_token = Some ''tok'', r_attempt = None\<rparr>"

definition reissued :: "store \<Rightarrow> store" where
  "reissued s = fst (projr (create_reissue_generation sample_env 1 run_request s))"

definition carried :: "store \<Rightarrow> nat \<Rightarrow> store" where
  "carried s i = fst (projr (attach_to_job (st_gens s ! i) run_job s))"

definition run_queued :: store where
  "run_queued = carried (carried (add_job run_job (reissued (reissued run_store))) 0) 1"

definition run_started :: store where
  "run_started = fst (projr (start_head_under_claim sample_env 9 (\<lambda>_. False) 1 run_claim None None run_queued))"

lemma Inr_pair: "\<not> isl x \<Longrightarrow> x = Inr (fst (projr x), snd (projr x))"
  by (cases x) auto

lemma step_reissued: "\<not> isl (create_reissue_generation sample_env 1 run_request s) \<Longrightarrow> chain_step sample_env s (reissued s)"
  unfolding reissued_def by (rule step_reissue [OF Inr_pair])

lemma step_carried:
  "attachable s (st_gens s ! i) run_job \<Longrightarrow> \<not> isl (attach_to_job (st_gens s ! i) run_job s) \<Longrightarrow> chain_step sample_env s (carried s i)"
  unfolding carried_def by (rule step_attach [OF _ Inr_pair])

lemma run_reaches:
  "chain_start run_store" "(chain_step sample_env)\<^sup>*\<^sup>* run_store run_queued" "(chain_step sample_env)\<^sup>*\<^sup>* run_queued run_started"
proof -
  let ?a = "reissued run_store" and ?b = "reissued (reissued run_store)"
  let ?c = "add_job run_job ?b"
  show "chain_start run_store"
    by (simp add: chain_start_def run_store_def)
  have "chain_step sample_env run_store ?a"
    by (rule step_reissued) code_simp
  moreover have "chain_step sample_env ?a ?b"
    by (rule step_reissued) code_simp
  moreover have "chain_step sample_env ?b ?c"
    by (rule step_add_job) code_simp
  moreover have "chain_step sample_env ?c (carried ?c 0)"
    by (rule step_carried) code_simp+
  moreover have "chain_step sample_env (carried ?c 0) run_queued"
    unfolding run_queued_def by (rule step_carried) code_simp+
  ultimately show "(chain_step sample_env)\<^sup>*\<^sup>* run_store run_queued"
    by (meson converse_rtranclp_into_rtranclp rtranclp.rtrancl_refl)
  have "\<not> isl (start_head_under_claim sample_env 9 (\<lambda>_. False) 1 run_claim None None run_queued)"
    by code_simp
  then have "chain_step sample_env run_queued run_started"
    unfolding run_started_def by (rule step_start [OF Inr_pair])
  then show "(chain_step sample_env)\<^sup>*\<^sup>* run_queued run_started"
    by blast
qed

text \<open>
  C1. The success barrier, over every interleaving.  Whatever operations ran since the tables were
  empty (writes, creations, admissions, starts, terminal writes, re-dispositions with other
  operations in between, operator exits, advancement, recovery), a generation that runs has only
  settled or abandoned generations before it on its device, or generations that run in the same
  job; and while that job is live, it is running and belongs to the device.
\<close>

theorem success_barrier:
  assumes "chain_start s0" and "(chain_step E)\<^sup>*\<^sup>* s0 s" and "g \<in> set (st_gens s)" and "g_status g = GRunning"
    and "h \<in> set (st_gens s)" and "g_device h = g_device g" and "g_seq h < g_seq g"
  shows "(crossable (g_status h) \<or> g_status h = GRunning \<and> g_job h = g_job g) \<and>
    (\<forall>k j. g_job g = Some k \<and> job_by_id s k = Some j \<and> job_live (j_status j) \<longrightarrow>
       j_status j = JRunning \<and> j_device j = Some (g_device g))"
proof -
  have ok: "chain_ok s"
    by (rule chain.inv_reachable [OF assms(1,2)])
  have "j_status j = JRunning \<and> j_device j = Some (g_device g)" if "g_job g = Some k" "live_job s k j" for k j
    using carrierD [OF chain_okD(3) [OF ok] assms(3) that] that(2) assms(4) by (auto simp: live_job_def job_live_def split: if_splits)
  then show ?thesis
    using barrierD [OF chain_okD(5) [OF ok] assms(3,5,4,6,7)] by (simp add: live_job_def)
qed

theorem success_barrier_witness:
  "g_status (st_gens run_started ! 0) = GRunning \<and> g_status (st_gens run_started ! 1) = GRunning \<and>
   g_job (st_gens run_started ! 0) = g_job (st_gens run_started ! 1)"
proof -
  let ?g = "st_gens run_started ! 1" and ?h = "st_gens run_started ! 0"
  have mem: "?g \<in> set (st_gens run_started) \<and> ?h \<in> set (st_gens run_started)"
    by code_simp
  have "g_status ?g = GRunning \<and> g_device ?h = g_device ?g \<and> g_seq ?h < g_seq ?g \<and> \<not> crossable (g_status ?h)"
    by code_simp
  then show ?thesis
    using success_barrier [OF run_reaches(1) rtranclp_trans [OF run_reaches(2,3)], of ?g ?h] mem by simp
qed

text \<open>
  C8. History is final.  Along every run each stored generation keeps its place in the chain and
  every frozen column (document, digest, mode, authority, revisions, cohort, removal context); a
  settled or abandoned generation never changes its status again; new generations are appended.
\<close>

theorem generation_history_is_final:
  assumes "chain_start s0" and "(chain_step E)\<^sup>*\<^sup>* s0 s" and "(chain_step E)\<^sup>*\<^sup>* s s'" and "i < length (st_gens s)"
  shows "i < length (st_gens s') \<and> gen_identity (st_gens s' ! i) = gen_identity (st_gens s ! i) \<and>
    (crossable (g_status (st_gens s ! i)) \<longrightarrow> g_status (st_gens s' ! i) = g_status (st_gens s ! i))"
proof -
  obtain old new where "st_gens s' = old @ new" and rel: "list_all2 gen_after (st_gens s) old"
    using chain_steps_keep [OF assms(3) chain.inv_reachable [OF assms(1,2)]] by (auto simp: chain_keeps_def)
  moreover have "length old = length (st_gens s)" and "gen_after (st_gens s ! i) (old ! i)"
    using rel assms(4) by (auto simp: list_all2_conv_all_nth)
  ultimately show ?thesis
    using assms(4) by (simp add: nth_append gen_after_def)
qed

theorem generation_history_is_final_witness:
  "gen_identity (st_gens run_started ! 0) = gen_identity (st_gens run_queued ! 0) \<and>
   g_status (st_gens run_queued ! 0) = GPending \<and> g_status (st_gens run_started ! 0) = GRunning"
proof -
  have "0 < length (st_gens run_queued)" "g_status (st_gens run_queued ! 0) = GPending \<and> g_status (st_gens run_started ! 0) = GRunning"
    by code_simp+
  then show ?thesis
    using generation_history_is_final [OF run_reaches, of 0] by simp
qed

end
