(* ===== verification/Chain_Progress.thy ===== *)
theory Chain_Progress
  imports Success_Barrier
begin

text \<open>
  What the chain's operations achieve on the stores a run reaches: startup recovery completes, a
  pending head gets a carrier a worker can start, the operator's retry re-executes the stored
  document, and the worker's scan of the queue implements its specification.
\<close>

section \<open>Startup recovery\<close>

lemma carrier_raises_absorbed:
  "create_dedicated_carrier now g s = Inl e \<Longrightarrow> recovery_absorbs e"
  by (auto simp: create_dedicated_carrier_def create_dedicated_job_def insert_device_job_def attach_to_job_def bindE_eq_Inl Let_def recovery_absorbs_def
      split: option.splits list.splits if_splits)

lemma advance_raises_absorbed:
  assumes "advance_device_generations now busy d s = Inl e"
  shows "recovery_absorbs e"
proof (cases "lock_projection d s")
  case (Inl e')
  then show ?thesis
    using assms by (auto simp: advance_device_generations_def lock_projection_def lock_device_document_def bindE_eq_Inl recovery_absorbs_def split: if_splits)
next
  case (Inr s1)
  then have "advance_generations_locked now busy d s1 = Inl e"
    using assms by (simp add: advance_device_generations_def)
  then show ?thesis
    using carrier_raises_absorbed
    by (auto simp: advance_generations_locked_def Let_def bindE_eq_Inl split: option.splits if_splits) (simp add: recovery_absorbs_def)
qed

lemma recover_device_total: "\<exists>s'. recover_device now busy s d = Inr s'"
  using advance_raises_absorbed [of now busy d s] by (cases "advance_device_generations now busy d s") (auto simp: recover_device_def split: prod.splits)

lemma recover_devices_total: "\<exists>s'. foldE (recover_device now busy) s ds = Inr s'"
  using recover_device_total by (induction ds arbitrary: s) (auto simp: bindE_eq_Inr, metis)

text \<open>Advancement adds at most jobs, and of the generations it binds only pending ones.\<close>

definition advanced :: "store \<Rightarrow> store \<Rightarrow> bool" where
  "advanced s s' = ((\<exists>js. st_jobs s' = st_jobs s @ js) \<and>
     list_all2 (\<lambda>g g'. g_status g' = g_status g \<and> (g_status g = GRunning \<longrightarrow> g' = g)) (st_gens s) (st_gens s'))"

lemma advanced_refl: "advanced s s"
  by (simp add: advanced_def list.rel_refl)

lemma advanced_trans:
  assumes "advanced s s'" and "advanced s' s''"
  shows "advanced s s''"
proof -
  let ?R = "\<lambda>g g'. g_status g' = g_status g \<and> (g_status g = GRunning \<longrightarrow> g' = g)"
  have "list_all2 ?R (st_gens s) (st_gens s'')"
    by (rule list_all2_trans [of ?R ?R ?R "st_gens s" "st_gens s'"]) (use assms in \<open>auto simp: advanced_def\<close>)
  then show ?thesis
    using assms by (auto simp: advanced_def)
qed

lemma advanced_upd:
  assumes "st_jobs s' = st_jobs s @ js" and "st_gens s' = upd_where p (\<lambda>g. g\<lparr>g_job := k\<rparr>) (st_gens s)"
    and "\<And>g. g \<in> set (st_gens s) \<Longrightarrow> p g \<Longrightarrow> g_status g = GPending"
  shows "advanced s s'"
  using assms by (auto simp: advanced_def upd_where_def list_all2_map2 intro!: list.rel_refl_strong)

lemma advance_cases:
  assumes "advance_generations_locked now busy d s = Inr (s', r)"
  obtains (idle) "s' = s" "executable_head s d = None \<and> r = None"
  | (waits) h where "s' = s" "executable_head s d = Some h" "g_status h \<noteq> GPending \<or> (\<exists>k. g_job h = Some k \<and> busy k)" "r = None"
  | (covered) h k j where "s' = s" "executable_head s d = Some h" "g_status h = GPending" "g_job h = Some k" "job_by_id s k = Some j"
      "j_status j = JQueued" "r = Some j"
  | (fresh) h s1 j where "executable_head s d = Some h" "g_status h = GPending" "\<not> live_bound s h"
      "s1 = s \<or> s1 = upd_gens (\<lambda>g. g_id g = g_id h) (\<lambda>g. g\<lparr>g_job := None\<rparr>) s" "create_dedicated_carrier now (h\<lparr>g_job := None\<rparr>) s1 = Inr (s', j)"
      "r = Some j"
proof (cases "executable_head s d")
  case None
  then show ?thesis using assms by (intro idle) (simp_all add: advance_generations_locked_def)
next
  case head: (Some h)
  note run = assms [unfolded advance_generations_locked_def head]
  show ?thesis
  proof (cases "g_status h = GPending \<and> (\<forall>k. g_job h = Some k \<longrightarrow> \<not> busy k)")
    case False
    then show ?thesis
      using run by (cases "g_status h = GPending") (auto simp: Let_def intro!: waits [OF _ head])
  next
    case pend: True
    show ?thesis
    proof (cases "g_job h")
      case None
      then show ?thesis
        using run pend by (auto simp: Let_def bindE_eq_Inr live_bound_def intro!: fresh [OF head])
    next
      case (Some k)
      show ?thesis
      proof (cases "\<exists>j. job_by_id s k = Some j \<and> j_status j = JQueued")
        case True
        then show ?thesis
          using run pend Some by (auto simp: Let_def intro!: covered [OF _ head])
      next
        case False
        then have dead: "\<not> live_bound s h"
          using run pend Some by (auto simp: live_bound_def live_job_def job_live_def Let_def split: if_splits)
        moreover obtain j where "create_dedicated_carrier now (h\<lparr>g_job := None\<rparr>) (upd_gens (\<lambda>g. g_id g = g_id h) (\<lambda>g. g\<lparr>g_job := None\<rparr>) s) = Inr (s', j)"
            "r = Some j"
          using run pend Some False by (auto simp: Let_def bindE_eq_Inr split: option.splits if_splits)
        ultimately show ?thesis
          using fresh [OF head] pend by blast
      qed
    qed
  qed
qed

lemma unbind_chain_ok:
  assumes "chain_ok s" and "executable_head s d = Some h" and "g_status h = GPending" and "\<not> live_bound s h"
  shows "chain_ok (upd_gens (\<lambda>g. g_id g = g_id h) (\<lambda>g. g\<lparr>g_job := None\<rparr>) s)"
  by (rule chain_keeps_ok, rule chain_row_update [OF assms(1) executable_head_SomeD(1) [OF assms(2)] assms(4)])
    (use assms(3) in \<open>simp_all add: gen_identity_def crossable_def\<close>)

lemma fresh_carrier_effect:
  assumes ok: "chain_ok s" and head: "executable_head s d = Some h" "g_status h = GPending" "\<not> live_bound s h"
    and s1: "s1 = s \<or> s1 = upd_gens (\<lambda>g. g_id g = g_id h) (\<lambda>g. g\<lparr>g_job := None\<rparr>) s"
    and run: "create_dedicated_carrier now (h\<lparr>g_job := None\<rparr>) s1 = Inr (s', j)"
  shows "st_jobs s' = st_jobs s @ [j]"
    and "st_gens s' = upd_where (\<lambda>g. g_id g = g_id h) (\<lambda>g. g\<lparr>g_job := Some (j_id j)\<rparr>) (st_gens s)"
    and "j_id j = st_next_job s" and "j_status j = JQueued" and "j_device j = Some d"
proof -
  have ok1: "chain_ok s1"
    using s1 ok unbind_chain_ok [OF ok head] by auto
  note e = create_dedicated_carrier_effect [OF ok1 run]
  show "st_jobs s' = st_jobs s @ [j]"
    and "st_gens s' = upd_where (\<lambda>g. g_id g = g_id h) (\<lambda>g. g\<lparr>g_job := Some (j_id j)\<rparr>) (st_gens s)"
    and "j_id j = st_next_job s" and "j_status j = JQueued" and "j_device j = Some d"
    using e s1 executable_head_SomeD(2) [OF head(1)] by (auto simp: add_job_def upd_where_def)
qed

lemma advance_locked_advanced:
  assumes ok: "chain_ok s" and run: "advance_generations_locked now busy d s = Inr (s', r)"
  shows "advanced s s'"
  using run
proof (cases rule: advance_cases)
  case (fresh h s1 j)
  note e = fresh_carrier_effect [OF ok fresh(1-5)]
  have "g_status g = GPending" if "g \<in> set (st_gens s)" "g_id g = g_id h" for g
    using same_gen [OF chain_okD(6) [OF ok] executable_head_SomeD(1) [OF fresh(1)] that] fresh(2) by simp
  then show ?thesis
    by (rule advanced_upd [OF e(1,2)])
qed (simp_all add: advanced_refl)

lemma recover_device_advanced:
  assumes ok: "chain_ok s" and run: "recover_device now busy s d = Inr s'"
  shows "advanced s s'"
proof (cases "advance_device_generations now busy d s")
  case (Inl e)
  then show ?thesis using run by (auto simp: recover_device_def advanced_refl split: if_splits)
next
  case (Inr r)
  then obtain s1 jo where s1: "lock_projection d s = Inr s1" and adv: "advance_generations_locked now busy d s1 = Inr (s', jo)"
    using run by (auto simp: recover_device_def advance_device_generations_def bindE_eq_Inr split: prod.splits)
  have "advanced s s1"
    using lock_projection_frame(1) [OF s1] by (auto simp: advanced_def list.rel_refl)
  then show ?thesis
    using advance_locked_advanced [OF chain_keeps_ok [OF chain_lock_projection [OF ok s1]] adv] advanced_trans by blast
qed

lemma advanced_not_stranded:
  assumes "advanced s s'" and "\<forall>g\<in>set (st_gens s). \<not> stranded s g" and "g' \<in> set (st_gens s')"
  shows "\<not> stranded s' g'"
proof
  assume st: "stranded s' g'"
  obtain i where i: "i < length (st_gens s')" "g' = st_gens s' ! i"
    using assms(3) by (auto simp: in_set_conv_nth)
  moreover have "length (st_gens s) = length (st_gens s')"
    using assms(1) by (auto simp: advanced_def dest: list_all2_lengthD)
  ultimately obtain g where g: "g \<in> set (st_gens s)" "g_status g' = g_status g" "g_status g = GRunning \<longrightarrow> g' = g"
    using assms(1) list_all2_nthD2 [of _ "st_gens s" "st_gens s'" i] nth_mem [of i "st_gens s"] unfolding advanced_def by fastforce
  then have "g' \<in> set (st_gens s)" "\<not> stranded s g'"
    using st assms(2) by (auto simp: stranded_def)
  then show False
    using st assms(1) by (cases "g_job g'") (auto simp: advanced_def stranded_def split: option.splits)
qed
section \<open>The carrier of the head\<close>

lemma head_job_admissible:
  assumes ok: "chain_ok s" and h: "h \<in> set (st_gens s)" "g_device h = d" "\<not> crossable (g_status h)"
      "\<And>g. g \<in> set (st_gens s) \<Longrightarrow> g_device g = d \<Longrightarrow> g_seq g < g_seq h \<Longrightarrow> crossable (g_status g)"
    and j: "g_job h = Some k" "live_job s k j"
  shows "job_admissible s k d"
proof -
  let ?c = "job_generations s k"
  have hc: "h \<in> set ?c"
    using h(1) j(1) by (simp add: set_job_generations)
  then obtain c cs where c: "?c = c # cs"
    by (cases ?c) auto
  then have cm: "c \<in> set (st_gens s)" "g_job c = Some k"
    using set_job_generations [of s k] by auto
  have "g_seq c \<le> g_seq h"
    using sorted_job_generations [of s k] hc c by auto
  moreover have "g_device c = d"
    using carrierD(2) [OF chain_okD(3) [OF ok] cm j(2)] carrierD(2) [OF chain_okD(3) [OF ok] h(1) j] h(2) by simp
  ultimately have "g_seq c = g_seq h"
    using h(4) [OF cm(1)] carried_open [OF ok cm j(2)] by force
  then have "blocking_predecessor s d (g_seq c) = None"
    using h(4) by (auto simp: blocking_predecessor_def filter_empty_conv)
  then show ?thesis
    by (simp add: job_admissible_def c)
qed

lemma filter_row_single:
  "distinct (map key xs) \<Longrightarrow> x \<in> set xs \<Longrightarrow> P x \<Longrightarrow> filter (\<lambda>y. P y \<and> key y = key x) xs = [x]"
proof (induction xs)
  case (Cons y ys)
  show ?case
  proof (cases "y = x")
    case True
    then have "key x \<notin> key ` set ys"
      using Cons.prems(1) by simp
    then have "filter (\<lambda>z. P z \<and> key z = key x) ys = []"
      by (auto simp: filter_empty_conv) (metis imageI)
    then show ?thesis using True Cons.prems(3) by simp
  next
    case False
    then have "x \<in> set ys" "key y \<noteq> key x"
      using Cons.prems by force+
    then show ?thesis using Cons by simp
  qed
qed simp

lemma start_of_named_job:
  assumes "ids_ok s" and "j \<in> set (st_jobs s)" and "j_device j = Some d" and "j_status j = JQueued" and "job_admissible s (j_id j) d"
    and "lock_claim reg s = Inr ()" and "\<not> held (j_id j)"
  shows "start_head_under_claim E now held d reg None (Some (j_id j)) s =
    Inr (start_job_under_claim now d reg j s, reg\<lparr>r_attempt := Some (j_run_attempt j + 1)\<rparr>, Some (j_id j, j_type j))"
proof -
  have "filter (\<lambda>i. (j_device i = Some d \<and> j_status i = JQueued) \<and> j_id i = j_id j) (st_jobs s) = [j]"
    by (rule filter_row_single) (use assms(1-4) in \<open>simp_all add: ids_ok_def\<close>)
  then show ?thesis
    using assms(5-7) by (simp add: start_head_under_claim_def conj_assoc)
qed

definition run_failed :: store where
  "run_failed = fst (projr (terminalize sample_env 20 run_started 1 JFailed JRunning None None None None None))"

definition run_orphaned :: store where
  "run_orphaned = fst (terminalize_offboard_orphans_bulk 1 [] run_started)"

lemma run_reaches_more:
  "(chain_step sample_env)\<^sup>*\<^sup>* run_store (reissued run_store)" "(chain_step sample_env)\<^sup>*\<^sup>* run_store run_failed"
  "(chain_step sample_env)\<^sup>*\<^sup>* run_store run_orphaned"
proof -
  have start: "(chain_step sample_env)\<^sup>*\<^sup>* run_store run_started"
    by (rule rtranclp_trans [OF run_reaches(2,3)])
  have "chain_step sample_env run_store (reissued run_store)"
    by (rule step_reissued) code_simp
  then show "(chain_step sample_env)\<^sup>*\<^sup>* run_store (reissued run_store)"
    by blast
  have "\<not> isl (terminalize sample_env 20 run_started 1 JFailed JRunning None None None None None)"
    by code_simp
  then have "chain_step sample_env run_started run_failed"
    unfolding run_failed_def by (intro step_finish [OF _ Inr_pair]) (simp_all add: job_live_def)
  then show "(chain_step sample_env)\<^sup>*\<^sup>* run_store run_failed"
    using start by (rule rtranclp.rtrancl_into_rtrancl [rotated])
  have "chain_step sample_env run_started run_orphaned"
    unfolding run_orphaned_def terminalize_offboard_orphans_bulk_def by (rule step_bulk)
  then show "(chain_step sample_env)\<^sup>*\<^sup>* run_store run_orphaned"
    using start by (rule rtranclp.rtrancl_into_rtrancl [rotated])
qed

text \<open>
  C12. Startup recovery always completes.  On every reachable store it returns, whatever rows are
  held and whichever devices are gone; it counts exactly the generations left running without a
  running job and moves them, and no other, to \<open>outcome_unknown\<close>; afterwards no generation is
  left running without a running job.
\<close>

theorem recovery_always_completes:
  assumes "chain_start s0" and "(chain_step E)\<^sup>*\<^sup>* s0 s"
  shows "\<exists>s' n. recover_generations now busy s = Inr (s', n) \<and> n = length (filter (stranded s) (st_gens s)) \<and>
    map g_status (st_gens s') = map (\<lambda>g. if stranded s g then GOutcomeUnknown else g_status g) (st_gens s) \<and>
    (\<forall>g\<in>set (st_gens s'). \<not> stranded s' g)"
proof -
  have ok: "chain_ok s"
    by (rule chain.inv_reachable [OF assms])
  obtain s1 landed where s1: "terminalize_generations s (filter (stranded s) (st_gens s)) GOutcomeUnknown None (Some [GRunning]) now = Inr (s1, landed)"
    by (cases "foldl (terminalize_one GOutcomeUnknown None (Some [GRunning]) now) (s, []) (filter (stranded s) (st_gens s))")
      (simp add: terminalize_generations_def gen_terminal_def)
  note e = terminalize_expected [OF chain_okD(6) [OF ok] _ _ s1]
  have gens: "st_gens s1 = map (\<lambda>g. if stranded s g then terminal_values GOutcomeUnknown None now (Option.bind (g_job g) (job_by_id s)) g else g) (st_gens s)"
    and jobs: "st_jobs s1 = st_jobs s" and n: "length landed = length (filter (stranded s) (st_gens s))"
    using e by (simp_all add: gen_terminal_def stranded_def)
  have clear: "\<forall>g\<in>set (st_gens s1). \<not> stranded s1 g"
    unfolding gens by (auto simp: stranded_def jobs row_simps)
  obtain s' where fold: "foldE (recover_device now busy) s1 (remdups (map g_device (filter (\<lambda>g. g_status g = GPending) (st_gens s1)))) = Inr s'"
    using recover_devices_total by blast
  have "chain_ok s' \<and> advanced s1 s'"
    by (rule foldE_invariant [where P = "\<lambda>t. chain_ok t \<and> advanced s1 t", OF fold])
      (use chain_keeps_ok [OF chain_recover_stranded [OF ok s1]] in
        \<open>auto simp: advanced_refl intro: advanced_trans recover_device_advanced chain_keeps_ok chain_recover_device\<close>)
  moreover have "map g_status (st_gens s') = map g_status (st_gens s1)"
    using calculation by (auto simp: advanced_def list_eq_iff_nth_eq list_all2_conv_all_nth)
  ultimately show ?thesis
    using s1 fold n advanced_not_stranded [OF _ clear]
    by (intro exI [of _ s'] exI [of _ "length landed"]) (auto simp: recover_generations_def gens row_simps comp_def)
qed

theorem recovery_always_completes_witness:
  "\<exists>s'. recover_generations 30 (\<lambda>_. False) run_orphaned = Inr (s', 2) \<and> map g_status (st_gens s') = [GOutcomeUnknown, GOutcomeUnknown]"
proof -
  have "length (filter (stranded run_orphaned) (st_gens run_orphaned)) = 2"
    "map (\<lambda>g. if stranded run_orphaned g then GOutcomeUnknown else g_status g) (st_gens run_orphaned) = [GOutcomeUnknown, GOutcomeUnknown]"
    by code_simp+
  then show ?thesis
    using recovery_always_completes [OF run_reaches(1) run_reaches_more(3), of 30 "\<lambda>_. False"] by auto
qed
lemma carrier_can_be_created:
  assumes ok: "chain_ok s" and dev: "g_device g \<in> set (st_devices s)" and car: "g_removal g \<noteq> None \<and> g_removal g \<noteq> Some [] \<or> g_mode g \<noteq> Detach"
  shows "\<exists>s' j. create_dedicated_carrier now g s = Inr (s', j)"
proof -
  have made: "\<exists>s1 j. create_dedicated_job now (g_device g) ty ctx s = Inr (s1, j)" if "ty = JTApply \<or> ty = JTRemoval" for ty ctx
    using that dev by (auto simp: create_dedicated_job_def insert_device_job_def Let_def)
  have att: "attach_to_job g j s1 = Inr (upd_gens (\<lambda>x. g_id x = g_id g) (\<lambda>x. x\<lparr>g_job := Some (j_id j)\<rparr>) s1, True)"
    if "create_dedicated_job now (g_device g) ty ctx s = Inr (s1, j)" for ty ctx s1 j
  proof -
    note f = insert_device_job_frame [OF create_dedicated_frame [OF that]]
    have "set (job_generations s1 (j_id j)) = {}"
      unfolding set_job_generations using fresh_job_carries_nothing [OF ok] f(1,2) by (auto simp: add_job_def)
    then show ?thesis
      by (simp add: attach_to_job_def)
  qed
  show ?thesis
    using made [of JTApply None] made [of JTRemoval "g_removal g"] att car
    by (cases "g_removal g") (fastforce simp: create_dedicated_carrier_def bindE_eq_Inr split: list.splits)+
qed

lemma advance_gives_carrier:
  assumes ok: "chain_ok s" and head: "executable_head s d = Some h" "g_status h = GPending" and dev: "d \<in> set (st_devices s)"
    and busy: "\<And>k. g_job h = Some k \<Longrightarrow> \<not> busy k" and car: "g_removal h \<noteq> None \<and> g_removal h \<noteq> Some [] \<or> g_mode h \<noteq> Detach"
  shows "\<exists>s' j. advance_generations_locked now busy d s = Inr (s', Some j)"
proof -
  have hd: "g_device h = d" "h \<in> set (st_gens s)"
    using executable_head_SomeD [OF head(1)] by simp_all
  let ?un = "upd_gens (\<lambda>g. g_id g = g_id h) (\<lambda>g. g\<lparr>g_job := None\<rparr>) s"
  have fresh: "\<exists>s' j. create_dedicated_carrier now (h\<lparr>g_job := None\<rparr>) t = Inr (s', j)"
    if "chain_ok t" "st_devices t = st_devices s" for t
    by (rule carrier_can_be_created [OF that(1)]) (use that(2) dev hd car in auto)
  show ?thesis
  proof (cases "g_job h")
    case None
    then show ?thesis
      using fresh [OF ok] head by (auto simp: advance_generations_locked_def Let_def bindE_eq_Inr)
  next
    case (Some k)
    show ?thesis
    proof (cases "live_bound s h")
      case True
      then obtain j where j: "live_job s k j"
        using Some by (auto simp: live_bound_def)
      then have "j_status j = JQueued"
        using carrierD(1) [OF chain_okD(3) [OF ok] hd(2) Some j] head(2) by (simp split: if_splits)
      then show ?thesis
        using j head Some busy by (auto simp: advance_generations_locked_def Let_def live_job_def)
    next
      case False
      obtain s' j where "create_dedicated_carrier now (h\<lparr>g_job := None\<rparr>) ?un = Inr (s', j)"
        using fresh [OF unbind_chain_ok [OF ok head False]] by auto
      moreover have "\<not> job_live (j_status i)" if "job_by_id s k = Some i" for i
        using False that Some by (auto simp: live_bound_def live_job_def)
      ultimately show ?thesis
        using head Some busy by (auto simp: advance_generations_locked_def Let_def job_live_def split: option.splits)
    qed
  qed
qed

lemma carrier_rows:
  assumes "h \<in> set (st_gens s)" and "st_gens s' = st_gens s \<and> g_job h = Some k \<or>
    st_gens s' = upd_where (\<lambda>g. g_id g = g_id h) (\<lambda>g. g\<lparr>g_job := Some k\<rparr>) (st_gens s)"
  shows "\<exists>h'\<in>set (st_gens s'). gen_identity h' = gen_identity h \<and> g_status h' = g_status h \<and> g_job h' = Some k"
    and "g' \<in> set (st_gens s') \<Longrightarrow> \<exists>g\<in>set (st_gens s). gen_identity g' = gen_identity g \<and> g_status g' = g_status g"
proof -
  have keep: "gen_identity (g\<lparr>g_job := Some k\<rparr>) = gen_identity g" for g
    by (simp add: gen_identity_def)
  show "\<exists>h'\<in>set (st_gens s'). gen_identity h' = gen_identity h \<and> g_status h' = g_status h \<and> g_job h' = Some k"
    using assms(2)
  proof
    assume "st_gens s' = upd_where (\<lambda>g. g_id g = g_id h) (\<lambda>g. g\<lparr>g_job := Some k\<rparr>) (st_gens s)"
    then show ?thesis
      using assms(1) by (intro bexI [of _ "h\<lparr>g_job := Some k\<rparr>"]) (auto simp: keep upd_where_def)
  next
    assume "st_gens s' = st_gens s \<and> g_job h = Some k"
    then show ?thesis
      using assms(1) by (intro bexI [of _ h]) simp_all
  qed
  show "\<exists>g\<in>set (st_gens s). gen_identity g' = gen_identity g \<and> g_status g' = g_status g" if "g' \<in> set (st_gens s')"
    using assms(2)
  proof
    assume "st_gens s' = upd_where (\<lambda>g. g_id g = g_id h) (\<lambda>g. g\<lparr>g_job := Some k\<rparr>) (st_gens s)"
    then have "g' \<in> (\<lambda>g. if g_id g = g_id h then g\<lparr>g_job := Some k\<rparr> else g) ` set (st_gens s)"
      using that by (simp add: upd_where_def)
    then obtain g where "g \<in> set (st_gens s)" "g' = (if g_id g = g_id h then g\<lparr>g_job := Some k\<rparr> else g)"
      by (rule imageE)
    then show ?thesis
      by (intro bexI [of _ g]) (simp_all add: keep)
  next
    assume "st_gens s' = st_gens s \<and> g_job h = Some k"
    then show ?thesis
      using that by (intro bexI [of _ g']) simp_all
  qed
qed

lemma advanced_carrier:
  assumes ok: "chain_ok s" and head: "executable_head s d = Some h" "g_status h = GPending"
    and run: "advance_generations_locked now busy d s = Inr (s', Some j)"
  shows "job_by_id s' (j_id j) = Some j" and "j_status j = JQueued" and "j_device j = Some d" and "job_admissible s' (j_id j) d"
    and "\<exists>h'\<in>set (st_gens s'). g_id h' = g_id h \<and> g_job h' = Some (j_id j)"
proof -
  note hd = executable_head_SomeD [OF head(1)]
  have ok': "chain_ok s'"
    by (rule chain_keeps_ok [OF chain_advance_locked [OF ok run]])
  have "job_by_id s' (j_id j) = Some j \<and> j_status j = JQueued \<and> j_device j = Some d \<and>
    (st_gens s' = st_gens s \<and> g_job h = Some (j_id j) \<or>
     st_gens s' = upd_where (\<lambda>g. g_id g = g_id h) (\<lambda>g. g\<lparr>g_job := Some (j_id j)\<rparr>) (st_gens s))"
    using run
  proof (cases rule: advance_cases)
    case (covered h' k i)
    then have hk: "h' = h" "i = j" "g_job h = Some k" "live_job s k j"
      using head by (simp_all add: live_job_def job_live_def)
    have "j_device j = Some d" "j_id j = k"
      using carrierD(2) [OF chain_okD(3) [OF ok] hd(1) hk(3,4)] hd(2) row_by_SomeD [OF covered(5)] hk(2) by simp_all
    then show ?thesis
      unfolding covered(1) using covered(5,6) hk(2,3) by blast
  next
    case (fresh h' s1 i)
    then have hk: "h' = h" "i = j"
      using head by simp_all
    note e = fresh_carrier_effect [OF ok fresh(1-5), unfolded hk]
    have "j \<in> set (st_jobs s')"
      by (simp add: e(1))
    then have "job_by_id s' (j_id j) = Some j"
      by (rule job_by_id_member [OF chain_okD(6) [OF ok']])
    then show ?thesis
      using e(2,4,5) by blast
  qed simp_all
  then have j: "job_by_id s' (j_id j) = Some j" "j_status j = JQueued" "j_device j = Some d"
    and rows: "st_gens s' = st_gens s \<and> g_job h = Some (j_id j) \<or>
     st_gens s' = upd_where (\<lambda>g. g_id g = g_id h) (\<lambda>g. g\<lparr>g_job := Some (j_id j)\<rparr>) (st_gens s)"
    by blast+
  obtain h' where h': "h' \<in> set (st_gens s')" "gen_identity h' = gen_identity h" "g_status h' = g_status h" "g_job h' = Some (j_id j)"
    using carrier_rows(1) [OF hd(1) rows] by blast
  note origin = carrier_rows(2) [OF hd(1) rows]
  show "job_by_id s' (j_id j) = Some j" "j_status j = JQueued" "j_device j = Some d"
    by (rule j)+
  show "\<exists>h'\<in>set (st_gens s'). g_id h' = g_id h \<and> g_job h' = Some (j_id j)"
    using h' gen_identityD(1) by blast
  have before: "crossable (g_status g')" if g': "g' \<in> set (st_gens s')" "g_device g' = d" "g_seq g' < g_seq h'" for g'
    using origin [OF g'(1)] hd(4) g'(2,3) gen_identityD(3) [OF h'(2)] gen_identityD(2,3) by metis
  show "job_admissible s' (j_id j) d"
    by (rule head_job_admissible [where j = j, OF ok' h'(1) _ _ before h'(4)])
      (use gen_identityD(2) [OF h'(2)] h'(3) hd(2,3) j in \<open>simp_all add: live_job_def job_live_def\<close>)
qed

text \<open>
  C11. Progress of a device's chain.  When the first generation that is neither settled nor
  abandoned is pending, its carrier row is not held and it can be carried at all, advancement
  returns a queued job of the device that carries it and that the success barrier admits: the
  job it already has, or a fresh one when its job is gone or over.  A worker that holds the
  device's claim then starts exactly this job.
\<close>

theorem pending_head_can_start:
  assumes "chain_start s0" and "(chain_step E)\<^sup>*\<^sup>* s0 s" and "executable_head s d = Some h" and "g_status h = GPending"
    and "d \<in> set (st_devices s)" and "\<And>k. g_job h = Some k \<Longrightarrow> \<not> busy k"
    and "g_removal h \<noteq> None \<and> g_removal h \<noteq> Some [] \<or> g_mode h \<noteq> Detach"
  shows "\<exists>s' j. advance_device_generations now busy d s = Inr (s', Some j) \<and>
    job_by_id s' (j_id j) = Some j \<and> j_status j = JQueued \<and> j_device j = Some d \<and> job_admissible s' (j_id j) d \<and>
    (\<exists>h'\<in>set (st_gens s'). g_id h' = g_id h \<and> g_job h' = Some (j_id j)) \<and>
    (\<forall>reg held. lock_claim reg s' = Inr () \<and> \<not> held (j_id j) \<longrightarrow>
       (\<exists>s'' reg'. start_head_under_claim E now held d reg None (Some (j_id j)) s' = Inr (s'', reg', Some (j_id j, j_type j))))"
proof -
  obtain s1 where s1: "lock_projection d s = Inr s1"
    using assms(5) by (simp add: lock_projection_def lock_device_document_def)
  have ok: "chain_ok s"
    by (rule chain.inv_reachable [OF assms(1,2)])
  have ok1: "chain_ok s1"
    by (rule chain_keeps_ok [OF chain_lock_projection [OF ok s1]])
  have head: "executable_head s1 d = Some h" and dev: "d \<in> set (st_devices s1)"
    using lock_projection_frame(1) [OF s1] assms(3,5) by (auto simp: executable_head_def)
  obtain s' j where adv: "advance_generations_locked now busy d s1 = Inr (s', Some j)"
    using advance_gives_carrier [OF ok1 head assms(4) dev _ assms(7)] assms(6) by blast
  have run: "advance_device_generations now busy d s = Inr (s', Some j)"
    by (simp add: advance_device_generations_def s1 adv)
  have ok': "chain_ok s'"
    by (rule chain_keeps_ok [OF chain_advance [OF ok run]])
  note c = advanced_carrier [OF ok1 head assms(4) adv]
  have mem: "j \<in> set (st_jobs s')"
    using row_by_SomeD [OF c(1)] by simp
  have "\<exists>s'' reg'. start_head_under_claim E now held d reg None (Some (j_id j)) s' = Inr (s'', reg', Some (j_id j, j_type j))"
    if "lock_claim reg s' = Inr ()" "\<not> held (j_id j)" for reg held
    using start_of_named_job [where held = held, OF chain_okD(6) [OF ok'] mem c(3,2,4) that] by blast
  then show ?thesis
    using run c by blast
qed

theorem pending_head_can_start_witness:
  "\<exists>s' j. advance_device_generations 30 (\<lambda>_. False) 1 (reissued run_store) = Inr (s', Some j) \<and> job_admissible s' (j_id j) 1"
proof -
  let ?h = "st_gens (reissued run_store) ! 0"
  have "executable_head (reissued run_store) 1 = Some ?h" "g_status ?h = GPending" "1 \<in> set (st_devices (reissued run_store))" "g_mode ?h \<noteq> Detach"
    by code_simp+
  then show ?thesis
    using pending_head_can_start [OF run_reaches(1) run_reaches_more(1), of 1 ?h "\<lambda>_. False" 30] by blast
qed
section \<open>The operator's retry\<close>

lemma claim_pending_effect:
  assumes ids: "ids_ok s" and g: "g \<in> set (st_gens s)" and run: "claim_blocked_head now (g_id g) GPending s = Inr s'"
  shows "gen_blocked (g_status g)" and "s' = upd_gens (\<lambda>x. g_id x = g_id g) (\<lambda>x. x\<lparr>g_status := GPending\<rparr>) s"
proof -
  let ?p = "\<lambda>x. g_id x = g_id g \<and> gen_blocked (g_status x)"
  have hit: "exists_where ?p (st_gens s)" and s': "s' = upd_gens ?p (\<lambda>g. g\<lparr>g_status := GPending\<rparr>) s"
    using run by (auto simp: claim_blocked_head_def gen_terminal_def split: if_splits)
  obtain x where "x \<in> set (st_gens s)" "?p x"
    using hit by (auto simp: exists_where_def list_ex_iff)
  then show b: "gen_blocked (g_status g)"
    using same_gen [OF ids g] by auto
  have "?p x = (g_id x = g_id g)" if "x \<in> set (st_gens s)" for x
    using same_gen [OF ids g that] b by auto
  then show "s' = upd_gens (\<lambda>x. g_id x = g_id g) (\<lambda>x. x\<lparr>g_status := GPending\<rparr>) s"
    unfolding s' by (auto simp: upd_gens_def upd_where_def)
qed

lemma create_dedicated_carrier_kind:
  assumes "create_dedicated_carrier now g s = Inr (s', j)"
  shows "\<not> j_coalescible j" and "case g_removal g of Some (kv # c) \<Rightarrow> j_type j = JTRemoval \<and> j_context j = g_removal g | _ \<Rightarrow> j_type j = JTApply \<and> g_mode g \<noteq> Detach"
  using assms
  by (auto simp: create_dedicated_carrier_def create_dedicated_job_def insert_device_job_def new_job_def bindE_eq_Inr Let_def
      split: option.splits list.splits if_splits)

lemma upd_where_twice:
  "(\<And>x. key (f x) = key x) \<Longrightarrow> upd_where (\<lambda>x. key x = k) g (upd_where (\<lambda>x. key x = k) f t) = upd_where (\<lambda>x. key x = k) (\<lambda>x. g (f x)) t"
  by (induction t) auto

text \<open>
  C13. A retry re-executes the same generation.  It succeeds only for the device's first generation
  that is neither settled nor abandoned, when that one is failed or of unknown outcome and its
  digest still matches; then exactly one fresh queued job exists in addition, dedicated to this
  generation (a removal job with the original context when the generation is a removal), and of
  all generations only this one changes, in its status and its job: the document that runs again
  is the stored one.  A generation that does not exist changes nothing.
\<close>

theorem retry_reruns_the_stored_document:
  assumes "chain_start s0" and "(chain_step E)\<^sup>*\<^sup>* s0 s" and "retry_generation E now gid s = Inr (s', r)"
  shows "case r of
      None \<Rightarrow> s' = s \<and> (\<forall>g\<in>set (st_gens s). g_id g \<noteq> gid)
    | Some j \<Rightarrow> \<exists>g\<in>set (st_gens s). g_id g = gid \<and> executable_head s (g_device g) = Some g \<and> gen_blocked (g_status g) \<and>
        verify_generation_digest E g = Inr () \<and>
        st_gens s' = upd_where (\<lambda>x. g_id x = gid) (\<lambda>x. x\<lparr>g_status := GPending, g_job := Some (j_id j)\<rparr>) (st_gens s) \<and>
        st_jobs s' = st_jobs s @ [j] \<and> j_id j = st_next_job s \<and> j_status j = JQueued \<and> j_device j = Some (g_device g) \<and> \<not> j_coalescible j \<and>
        (case g_removal g of Some (kv # c) \<Rightarrow> j_type j = JTRemoval \<and> j_context j = g_removal g | _ \<Rightarrow> j_type j = JTApply)"
proof (cases "row_by g_id gid (st_gens s)")
  case None
  then have "s' = s \<and> r = None"
    using assms(3) by (simp add: retry_generation_def)
  then show ?thesis
    using None by (auto simp: row_by_None_iff)
next
  case (Some g0)
  have ok: "chain_ok s"
    by (rule chain.inv_reachable [OF assms(1,2)])
  obtain s1 g s2 s3 j ids where head: "require_locked_executable_head g0 s = Inr (s1, g)" and dig: "verify_generation_digest E g = Inr ()"
    and claim: "claim_blocked_head now gid GPending s1 = Inr s2" and car: "create_dedicated_carrier now g s2 = Inr (s3, j)"
    and s': "s' = rebind_tombstones ids (g_device g) (g_job g) (j_id j) s3" and r: "r = Some j"
    using assms(3) Some by (auto simp: retry_generation_def bindE_eq_Inr split: if_splits)
  note hd = require_head_SomeD [OF head]
  obtain x where s1: "s1 = s\<lparr>st_gencnt := x\<rparr>"
    using lock_projection_frame(1) [OF hd(1)] by blast
  have ok1: "chain_ok s1"
    by (rule chain_keeps_ok [OF chain_lock_projection [OF ok hd(1)]])
  have gs: "g \<in> set (st_gens s1)" and gid: "g_id g = gid"
    using executable_head_SomeD(1) [OF hd(2)] hd(3) row_by_SomeD [OF Some] by simp_all
  have hs: "executable_head s (g_device g) = Some g"
    using hd(2) executable_head_SomeD(2) [OF hd(2)] by (simp add: s1 executable_head_def)
  note e = claim_pending_effect [OF chain_okD(6) [OF ok1] gs claim [folded gid]]
  have ok2: "chain_ok s2"
    by (rule chain_keeps_ok [OF chain_claim_blocked_head [OF ok1 gs claim [folded gid]]]) simp
  note c = create_dedicated_carrier_effect [OF ok2 car] and k = create_dedicated_carrier_kind [OF car]
  have gens: "st_gens s' = upd_where (\<lambda>x. g_id x = gid) (\<lambda>x. x\<lparr>g_status := GPending, g_job := Some (j_id j)\<rparr>) (st_gens s)"
    by (simp add: s' rebind_tombstones_def c(1) add_job_def e(2) s1 gid upd_where_twice)
  have "st_jobs s' = st_jobs s @ [j]" "j_id j = st_next_job s"
    using c(1,2) by (simp_all add: s' rebind_tombstones_def add_job_def e(2) s1)
  then show ?thesis
    using gs gid hs e(1) dig gens c(3,4) k by (auto simp: r s1 split: option.splits list.splits intro!: bexI [of _ g])
qed

theorem retry_reruns_the_stored_document_witness:
  "\<exists>s' j. retry_generation sample_env 40 1 run_failed = Inr (s', Some j) \<and> st_jobs s' = st_jobs run_failed @ [j] \<and> j_type j = JTApply \<and> j_status j = JQueued"
proof -
  let ?r = "retry_generation sample_env 40 1 run_failed"
  have "\<not> isl ?r \<and> snd (projr ?r) \<noteq> None \<and> list_all (\<lambda>g. g_removal g = None) (st_gens run_failed)"
    by code_simp
  then obtain s' j where run: "?r = Inr (s', Some j)" and rem: "\<forall>g\<in>set (st_gens run_failed). g_removal g = None"
    by (cases ?r) (auto simp: list_all_iff)
  show ?thesis
    using retry_reruns_the_stored_document [OF run_reaches(1) run_reaches_more(2) run] rem run by auto
qed

section \<open>The worker's choice\<close>

text \<open>What a worker may start on a device: the oldest queued job the success barrier admits.\<close>

definition queued_on :: "store \<Rightarrow> int \<Rightarrow> job list" where
  "queued_on s d = filter (\<lambda>j. j_device j = Some d \<and> j_status j = JQueued) (st_jobs s)"

definition next_startable :: "store \<Rightarrow> int \<Rightarrow> job option" where
  "next_startable s d = first_by fifo_key (filter (\<lambda>j. job_admissible s (j_id j) d) (queued_on s d))"

lemma first_admissible_spec:
  assumes "sorted_wrt (\<lambda>i j. fifo_key i < fifo_key j) js"
  shows "first_admissible s held d js =
    (case List.find (\<lambda>j. job_admissible s (j_id j) d) js of
       None \<Rightarrow> None
     | Some j \<Rightarrow> if list_ex (\<lambda>i. held (j_id i) \<and> fifo_key i \<le> fifo_key j) js then None else Some j)"
  using assms
proof (induction js)
  case (Cons j js)
  have later: "fifo_key j < fifo_key i" if "List.find (\<lambda>j. job_admissible s (j_id j) d) js = Some i" for i
    using that Cons.prems by (auto simp: find_Some_iff)
  then show ?case
    using Cons by (auto split: option.splits simp: list_ex_iff dest: later)
qed simp

lemma find_first_of_filter: "List.find P xs = (case filter P xs of [] \<Rightarrow> None | x # _ \<Rightarrow> Some x)"
  by (induction xs) auto

text \<open>
  C14. The start of a device's head refines its specification.  Under a valid claim, the scan over
  the queued rows of the device starts exactly the oldest job the success barrier admits, unless
  another transaction holds that row or an older queued one, in which case nothing is started and
  the store is unchanged.  The started job runs with the next attempt number, all it carries runs
  with it, and the claim names it.
\<close>

theorem worker_starts_oldest_admissible:
  assumes "ids_ok s" and "lock_claim reg s = Inr ()"
  shows "start_head_under_claim E now held d reg None None s =
    (case next_startable s d of
       None \<Rightarrow> Inr (s, reg, None)
     | Some j \<Rightarrow> if \<exists>i\<in>set (queued_on s d). held (j_id i) \<and> fifo_key i \<le> fifo_key j then Inr (s, reg, None)
         else Inr (start_job_under_claim now d reg j s, reg\<lparr>r_attempt := Some (j_run_attempt j + 1)\<rparr>, Some (j_id j, j_type j)))"
proof -
  let ?c = "sort_key fifo_key (queued_on s d)"
  have "sorted (map fifo_key ?c)"
    by simp
  moreover have "distinct (map fifo_key ?c)"
    using assms(1) by (auto simp: distinct_map ids_ok_def queued_on_def inj_on_def fifo_key_def)
  ultimately have sorted: "sorted_wrt (\<lambda>i j. fifo_key i < fifo_key j) ?c"
    using strict_sorted_iff [of "map fifo_key ?c"] unfolding sorted_wrt_map by blast
  have "List.find P ?c = first_by fifo_key (filter P (queued_on s d))" for P
    unfolding first_by_def filter_sort [symmetric] by (simp add: find_first_of_filter)
  then have scan: "first_admissible s held d ?c = (case next_startable s d of None \<Rightarrow> None
      | Some j \<Rightarrow> if \<exists>i\<in>set (queued_on s d). held (j_id i) \<and> fifo_key i \<le> fifo_key j then None else Some j)"
    unfolding first_admissible_spec [OF sorted] next_startable_def list_ex_iff set_sort by simp
  have eq: "start_head_under_claim E now held d reg None None s = (case first_admissible s held d ?c of None \<Rightarrow> Inr (s, reg, None)
      | Some j \<Rightarrow> Inr (start_job_under_claim now d reg j s, reg\<lparr>r_attempt := Some (j_run_attempt j + 1)\<rparr>, Some (j_id j, j_type j)))"
    using assms(2) by (simp add: start_head_under_claim_def queued_on_def cong: option.case_cong)
  show ?thesis
    unfolding eq scan by (auto split: option.splits)
qed

theorem worker_starts_oldest_admissible_witness:
  "\<exists>s' reg'. start_head_under_claim sample_env 9 (\<lambda>_. False) 1 run_claim None None run_queued = Inr (s', reg', Some (1, JTApply))"
proof -
  have "distinct (map j_id (st_jobs run_queued)) \<and> distinct (map g_id (st_gens run_queued))" "lock_claim run_claim run_queued = Inr ()"
    "map_option (\<lambda>j. (j_id j, j_type j)) (next_startable run_queued 1) = Some (1, JTApply)"
    by code_simp+
  then show ?thesis
    using worker_starts_oldest_admissible [of run_queued run_claim sample_env 9 "\<lambda>_. False" 1] by (auto simp: ids_ok_def split: option.splits)
qed

end
