(* ===== verification/Revision_Order.thy ===== *)
theory Revision_Order
  imports Chain_Progress
begin

text \<open>
  The revision triple of a projection stream over every run: what is applied was authorized, and
  what is authorized was written.
\<close>

section \<open>The invariant\<close>

definition in_protocol :: "stream_row \<Rightarrow> bool" where
  "in_protocol r = (s_stream r \<notin> set OUT_OF_PROTOCOL_STREAMS)"

definition triple_ok :: "stream_row \<Rightarrow> bool" where
  "triple_ok r = (0 \<le> s_applied r \<and> s_applied r \<le> s_authorized r \<and> s_authorized r \<le> s_desired r)"

definition row_of :: "int \<Rightarrow> string \<Rightarrow> stream_row \<Rightarrow> bool" where
  "row_of d stream r = (s_device r = d \<and> s_stream r = stream)"

definition carried_ok :: "stream_row list \<Rightarrow> int \<Rightarrow> (string \<times> int) list \<Rightarrow> bool" where
  "carried_ok rows d revs = (\<forall>(stream, n)\<in>set revs. (\<exists>r\<in>set rows. row_of d stream r) \<and>
     (\<forall>r\<in>set rows. row_of d stream r \<and> in_protocol r \<longrightarrow> n \<le> s_authorized r))"

definition stream_key :: "stream_row \<Rightarrow> int \<times> string" where
  "stream_key r = (s_device r, s_stream r)"

definition revisions_ok :: "store \<Rightarrow> bool" where
  "revisions_ok s = (distinct (map stream_key (st_streams s)) \<and> (\<forall>r\<in>set (st_streams s). in_protocol r \<longrightarrow> triple_ok r) \<and>
     (\<forall>g\<in>set (st_gens s). carried_ok (st_streams s) (g_device g) (g_revisions g)))"

text \<open>A row after an operation: it names the same stream and its authorized revision did not fall.\<close>

definition row_step :: "stream_row \<Rightarrow> stream_row \<Rightarrow> bool" where
  "row_step r r' = (s_device r' = s_device r \<and> s_stream r' = s_stream r \<and>
     (in_protocol r \<and> triple_ok r \<longrightarrow> s_authorized r \<le> s_authorized r' \<and> triple_ok r'))"

lemma row_step_refl: "row_step r r"
  by (simp add: row_step_def)

lemma row_stepD:
  assumes "row_step r r'"
  shows "row_of d stream r' = row_of d stream r" and "in_protocol r' = in_protocol r"
    and "in_protocol r' \<Longrightarrow> triple_ok r \<Longrightarrow> s_authorized r \<le> s_authorized r' \<and> triple_ok r'"
  using assms by (simp_all add: row_step_def in_protocol_def row_of_def)

lemma list_all2_member1: "list_all2 R xs ys \<Longrightarrow> x \<in> set xs \<Longrightarrow> \<exists>y\<in>set ys. R x y"
  by (induction rule: list_all2_induct) auto

lemma list_all2_member2: "list_all2 R xs ys \<Longrightarrow> y \<in> set ys \<Longrightarrow> \<exists>x\<in>set xs. R x y"
  by (induction rule: list_all2_induct) auto

lemma carried_okD:
  assumes "carried_ok rows d revs" and "(stream, n) \<in> set revs"
  shows "\<exists>r\<in>set rows. row_of d stream r" and "r \<in> set rows \<Longrightarrow> row_of d stream r \<Longrightarrow> in_protocol r \<Longrightarrow> n \<le> s_authorized r"
  using assms unfolding carried_ok_def by blast+

lemma carried_ok_step:
  assumes rel: "list_all2 row_step rows rows'" and ok: "\<forall>r\<in>set rows. in_protocol r \<longrightarrow> triple_ok r" and car: "carried_ok rows d revs"
  shows "carried_ok rows' d revs"
  unfolding carried_ok_def
proof (intro ballI, clarify)
  fix stream n assume "(stream, n) \<in> set revs"
  then have some: "\<exists>r\<in>set rows. row_of d stream r" and all: "\<forall>r\<in>set rows. row_of d stream r \<and> in_protocol r \<longrightarrow> n \<le> s_authorized r"
    using car by (auto simp: carried_ok_def)
  obtain r where r: "r \<in> set rows" "row_of d stream r"
    using some by blast
  then obtain r' where "r' \<in> set rows'" "row_step r r'"
    using list_all2_member1 [OF rel r(1)] by blast
  then have "\<exists>r'\<in>set rows'. row_of d stream r'"
    using r(2) row_stepD(1) by blast
  moreover have "n \<le> s_authorized r'" if r': "r' \<in> set rows'" "row_of d stream r'" "in_protocol r'" for r'
  proof -
    obtain q where q: "q \<in> set rows" "row_step q r'"
      using list_all2_member2 [OF rel r'(1)] by blast
    have "in_protocol q" "row_of d stream q"
      using r' row_stepD(1,2) [OF q(2)] by simp_all
    then have "n \<le> s_authorized q" "triple_ok q"
      using all ok q(1) by blast+
    then show ?thesis
      using row_stepD(3) [OF q(2) r'(3)] by linarith
  qed
  ultimately show "(\<exists>r\<in>set rows'. row_of d stream r) \<and> (\<forall>r\<in>set rows'. row_of d stream r \<and> in_protocol r \<longrightarrow> n \<le> s_authorized r)"
    by blast
qed

lemma revisions_ok_step:
  assumes ok: "revisions_ok s" and rel: "list_all2 row_step (st_streams s) (st_streams s')"
    and gens: "\<And>g'. g' \<in> set (st_gens s') \<Longrightarrow> \<exists>g\<in>set (st_gens s). g_device g' = g_device g \<and> g_revisions g' = g_revisions g"
  shows "revisions_ok s'"
proof -
  have rows: "\<forall>r\<in>set (st_streams s). in_protocol r \<longrightarrow> triple_ok r"
    using ok by (simp add: revisions_ok_def)
  have "triple_ok r'" if r': "r' \<in> set (st_streams s')" "in_protocol r'" for r'
  proof -
    obtain q where q: "q \<in> set (st_streams s)" "row_step q r'"
      using list_all2_member2 [OF rel r'(1)] by blast
    then show ?thesis
      using rows row_stepD(2,3) [OF q(2)] r'(2) by blast
  qed
  moreover have "carried_ok (st_streams s') (g_device g') (g_revisions g')" if g': "g' \<in> set (st_gens s')" for g'
  proof -
    obtain g where g: "g \<in> set (st_gens s)" "g_device g' = g_device g" "g_revisions g' = g_revisions g"
      using gens [OF g'] by blast
    then show ?thesis
      using ok carried_ok_step [OF rel rows] by (simp add: revisions_ok_def)
  qed
  moreover have "map stream_key (st_streams s') = map stream_key (st_streams s)"
    using rel by (induction rule: list_all2_induct) (simp_all add: stream_key_def row_step_def)
  ultimately show ?thesis
    using ok by (simp add: revisions_ok_def)
qed

lemma revisions_ok_frame:
  "revisions_ok s \<Longrightarrow> list_all2 row_step (st_streams s) (st_streams s') \<Longrightarrow> st_gens s' = st_gens s \<Longrightarrow> revisions_ok s'"
  by (erule (1) revisions_ok_step) auto

lemma row_steps_upd:
  "(\<And>r. r \<in> set t \<Longrightarrow> p r \<Longrightarrow> row_step r (f r)) \<Longrightarrow> list_all2 row_step t (upd_where p f t)"
  by (auto simp: upd_where_def list_all2_map2 row_step_refl intro!: list.rel_refl_strong)

section \<open>The operations\<close>

lemma revisions_lock:
  assumes "revisions_ok s" and "lock_projection d s = Inr s'"
  shows "revisions_ok s'"
proof -
  obtain x where "s' = s\<lparr>st_gencnt := x\<rparr>"
    using lock_projection_frame(1) [OF assms(2)] by blast
  then show ?thesis
    using assms(1) by (simp add: revisions_ok_def)
qed

lemma stream_at_NoneD: "stream_at s d stream = None \<Longrightarrow> r \<in> set (st_streams s) \<Longrightarrow> \<not> row_of d stream r"
  by (auto simp: stream_at_def find_None_iff row_of_def)

lemma revisions_new_row:
  assumes ok: "revisions_ok s" and none: "stream_at s d stream = None"
    and r: "row_of d stream r" "triple_ok r"
  shows "revisions_ok (s\<lparr>st_streams := st_streams s @ [r]\<rparr>)"
proof -
  have "carried_ok (st_streams s @ [r]) (g_device g) (g_revisions g)" if g: "g \<in> set (st_gens s)" for g
    unfolding carried_ok_def
  proof (intro ballI, clarify)
    fix st n assume "(st, n) \<in> set (g_revisions g)"
    moreover have "carried_ok (st_streams s) (g_device g) (g_revisions g)"
      using ok g by (simp add: revisions_ok_def)
    ultimately have some: "\<exists>q\<in>set (st_streams s). row_of (g_device g) st q"
      and all: "\<forall>q\<in>set (st_streams s). row_of (g_device g) st q \<and> in_protocol q \<longrightarrow> n \<le> s_authorized q"
      by (auto dest: carried_okD)
    obtain q where q: "q \<in> set (st_streams s)" "row_of (g_device g) st q"
      using some by blast
    then have "\<not> row_of (g_device g) st r"
      using stream_at_NoneD [OF none q(1)] r(1) by (auto simp: row_of_def)
    then show "(\<exists>q\<in>set (st_streams s @ [r]). row_of (g_device g) st q) \<and>
        (\<forall>q\<in>set (st_streams s @ [r]). row_of (g_device g) st q \<and> in_protocol q \<longrightarrow> n \<le> s_authorized q)"
      using some all by auto
  qed
  moreover have "stream_key r \<notin> stream_key ` set (st_streams s)"
  proof
    assume "stream_key r \<in> stream_key ` set (st_streams s)"
    then obtain q where q: "q \<in> set (st_streams s)" "stream_key r = stream_key q"
      by blast
    then show False
      using stream_at_NoneD [OF none q(1)] r(1) by (simp add: stream_key_def row_of_def)
  qed
  ultimately show ?thesis
    using ok r(2) by (auto simp: revisions_ok_def)
qed

lemma revisions_note_write:
  assumes ok: "revisions_ok s" and run: "note_write d stream push s = Inr (s', n)"
  shows "revisions_ok s'"
proof -
  obtain s1 where s1: "lock_projection d s = Inr s1"
    using run by (auto simp: note_write_def bindE_eq_Inr split: if_splits)
  note ok1 = revisions_lock [OF ok s1]
  show ?thesis
  proof (cases "stream_at s1 d stream")
    case None
    then show ?thesis
      using run s1 revisions_new_row [OF ok1 None] by (auto simp: note_write_def row_of_def triple_ok_def split: if_splits)
  next
    case (Some r)
    then have s': "s' = upd_streams (\<lambda>r. s_device r = d \<and> s_stream r = stream) (\<lambda>r. r\<lparr>s_desired := s_desired r + 1, s_push_seq := push\<rparr>) s1"
      using run s1 by (auto simp: note_write_def split: if_splits)
    show ?thesis
      by (rule revisions_ok_frame [OF ok1])
        (auto simp: s' row_step_def triple_ok_def in_protocol_def intro!: row_steps_upd)
  qed
qed

lemma refresh_rows:
  assumes "refresh_consumed_carriers d ids s = Inr (s', fs)"
  shows "list_all2 row_step (st_streams s) (st_streams s')" and "st_gens s' = st_gens s"
proof -
  obtain ex rows where rows: "mapE (refresh_row d ex) (st_streams s) = Inr rows" and s': "s' = s\<lparr>st_streams := rows\<rparr>"
    using assms by (auto simp: refresh_consumed_carriers_def bindE_eq_Inr Let_def split: if_splits)
  have "row_step r r'" if "refresh_row d ex r = Inr r'" for r r'
    using that by (auto simp: refresh_row_def bindE_eq_Inr row_step_def triple_ok_def in_protocol_def split: if_splits option.splits)
  then show "list_all2 row_step (st_streams s) (st_streams s')"
    using rows by (auto simp: s' mapE_eq_Inr elim: list_all2_mono)
  show "st_gens s' = st_gens s"
    by (simp add: s')
qed

definition promoting :: "int \<Rightarrow> store \<Rightarrow> store \<times> promoted_streams \<Rightarrow> bool" where
  "promoting d s acc = (case acc of (t, p) \<Rightarrow> revisions_ok t \<and> st_gens t = st_gens s \<and> carried_ok (st_streams t) d (pr_revisions p))"

lemma promote_stream_effect:
  assumes "promote_stream snap frozen d (t, p) stream = Inr (t', p')"
  shows "\<exists>r f n. stream_at t d stream = Some r \<and> t' = upd_streams (\<lambda>r. s_device r = d \<and> s_stream r = stream) f t \<and>
    pr_revisions p' = pr_revisions p @ [(stream, n)] \<and> (\<forall>q. s_device (f q) = s_device q \<and> s_stream (f q) = s_stream q) \<and>
    (stream \<notin> set OUT_OF_PROTOCOL_STREAMS \<longrightarrow> f = (\<lambda>q. q\<lparr>s_authorized := s_desired q\<rparr>) \<and> n = s_desired r)"
proof (cases "stream \<in> set OUT_OF_PROTOCOL_STREAMS")
  case True
  obtain frag where frag: "dget frozen stream = Some frag"
    using assms True by (auto simp: promote_stream_def split: option.splits)
  obtain rv where rv: "Option.bind (stream_at t d stream) s_prepared = Some rv"
    using assms True frag by (auto simp: promote_stream_def split: option.splits)
  then obtain r where "stream_at t d stream = Some r"
    by (auto simp: bind_eq_Some_conv)
  then show ?thesis
    using assms True frag rv
    by (intro exI [of _ r] exI [of _ "\<lambda>r. r\<lparr>s_authorized := rv\<rparr>"] exI [of _ rv]) (auto simp: promote_stream_def)
next
  case False
  obtain r where r: "stream_at t d stream = Some r"
    using assms False by (auto simp: promote_stream_def split: option.splits)
  show ?thesis
    using assms False r
    by (intro exI [of _ r] exI [of _ "\<lambda>q. q\<lparr>s_authorized := s_desired q\<rparr>"] exI [of _ "s_desired r"]) (auto simp: promote_stream_def bindE_eq_Inr)
qed

lemma promote_one:
  assumes inv: "promoting d s (t, p)" and run: "promote_stream snap frozen d (t, p) stream = Inr (t', p')"
  shows "promoting d s (t', p')"
proof -
  let ?here = "\<lambda>r. s_device r = d \<and> s_stream r = stream"
  have ok: "revisions_ok t" and gens: "st_gens t = st_gens s" and car: "carried_ok (st_streams t) d (pr_revisions p)"
    using inv by (simp_all add: promoting_def)
  obtain r f n where r: "stream_at t d stream = Some r" and t': "t' = upd_streams ?here f t"
    and p': "pr_revisions p' = pr_revisions p @ [(stream, n)]" and f: "\<forall>q. s_device (f q) = s_device q \<and> s_stream (f q) = s_stream q"
    and up: "stream \<notin> set OUT_OF_PROTOCOL_STREAMS \<longrightarrow> f = (\<lambda>q. q\<lparr>s_authorized := s_desired q\<rparr>) \<and> n = s_desired r"
    using promote_stream_effect [OF run] by blast
  have steps: "list_all2 row_step (st_streams t) (st_streams t')"
    unfolding t' using f up by (auto simp: row_step_def in_protocol_def triple_ok_def intro!: row_steps_upd)
  have r': "r \<in> set (st_streams t)" "row_of d stream r"
    using r by (auto simp: stream_at_def find_Some_iff row_of_def)
  have only: "q = r" if "q \<in> set (st_streams t)" "row_of d stream q" for q
    using ok that r' distinct_key_eq [of stream_key "st_streams t" q r] by (simp add: revisions_ok_def stream_key_def row_of_def)
  have "carried_ok (st_streams t') d [(stream, n)]"
    unfolding carried_ok_def
  proof (clarsimp, intro conjI ballI impI)
    show "\<exists>q\<in>set (st_streams t'). row_of d stream q"
      using list_all2_member1 [OF steps r'(1)] r'(2) row_stepD(1) by blast
    fix q' assume q': "q' \<in> set (st_streams t')" "row_of d stream q' \<and> in_protocol q'"
    then have "q' \<in> set (upd_where ?here f (st_streams t))"
      by (simp add: t')
    then obtain q where q: "q \<in> set (st_streams t)" "q' = (if ?here q then f q else q)"
      by (rule in_upd_whereE)
    have "row_of d stream q"
      using q(2) q'(2) f by (auto simp: row_of_def split: if_splits)
    then have "q = r" "?here q"
      using only [OF q(1)] by (simp_all add: row_of_def)
    moreover have "stream \<notin> set OUT_OF_PROTOCOL_STREAMS"
      using q'(2) by (auto simp: row_of_def in_protocol_def)
    ultimately show "n \<le> s_authorized q'"
      using q(2) up by simp
  qed
  moreover have "carried_ok (st_streams t') d (pr_revisions p)"
    using carried_ok_step [OF steps _ car] ok by (simp add: revisions_ok_def)
  ultimately have "carried_ok (st_streams t') d (pr_revisions p')"
    by (auto simp: p' carried_ok_def)
  then show ?thesis
    using revisions_ok_frame [OF ok steps] gens by (simp add: promoting_def t')
qed

lemma promote_all:
  assumes "promoting d s acc" and "foldE (promote_stream snap frozen d) acc streams = Inr (t', p')"
  shows "promoting d s (t', p')"
  by (rule foldE_invariant [where P = "promoting d s", OF assms(2,1)]) (auto intro: promote_one)

lemma authorize_rows:
  assumes "revisions_ok s" and "authorize_fragment d s sf = Inr s'"
  shows "list_all2 row_step (st_streams s) (st_streams s')" and "st_gens s' = st_gens s"
proof -
  obtain stream doc where s': "s' = upd_streams (\<lambda>r. s_device r = d \<and> s_stream r = stream) (\<lambda>r. r\<lparr>s_document := Some doc\<rparr>) s"
    using assms(2) by (auto simp: authorize_fragment_def bindE_eq_Inr split: prod.splits)
  show "list_all2 row_step (st_streams s) (st_streams s')" and "st_gens s' = st_gens s"
    unfolding s' by (auto simp: row_step_def in_protocol_def triple_ok_def intro!: row_steps_upd)
qed

definition freezing :: "int \<Rightarrow> (string \<times> int) list \<Rightarrow> store \<Rightarrow> store \<Rightarrow> bool" where
  "freezing d revs s t = (revisions_ok t \<and> st_gens t = st_gens s \<and> carried_ok (st_streams t) d revs)"

lemma freezing_step:
  assumes "freezing d revs s t" and "list_all2 row_step (st_streams t) (st_streams t')" and "st_gens t' = st_gens t"
  shows "freezing d revs s t'"
proof -
  have ok: "revisions_ok t" and gens: "st_gens t = st_gens s" and car: "carried_ok (st_streams t) d revs"
    using assms(1) by (simp_all add: freezing_def)
  have "carried_ok (st_streams t') d revs"
    by (rule carried_ok_step [OF assms(2) _ car]) (use ok in \<open>simp add: revisions_ok_def\<close>)
  then show ?thesis
    using revisions_ok_frame [OF ok assms(2,3)] gens assms(3) by (simp add: freezing_def)
qed

lemma authorize_all:
  assumes "freezing d revs s t" and "foldE (authorize_fragment d) t fs = Inr t'"
  shows "freezing d revs s t'"
  by (rule foldE_invariant [where P = "freezing d revs s", OF assms(2,1)])
    (meson authorize_rows freezing_def freezing_step)

lemma revisions_store:
  assumes inv: "freezing d revs s t" and run: "store_generation E d rq doc pushes revs t = Inr (s', g)"
  shows "revisions_ok s'"
proof -
  obtain s1 sq where sq: "next_seq d t = Inr (s1, sq)"
    and s': "s' = s1\<lparr>st_gens := st_gens s1 @ [g], st_next_gen := st_next_gen s1 + 1\<rparr>" and g: "g_device g = d" "g_revisions g = revs"
    using run by (auto simp: store_generation_def bindE_eq_Inr Let_def)
  obtain c x where "s1 = t\<lparr>st_gencnt := x\<rparr>"
    by (rule next_seq_frame [OF sq])
  then show ?thesis
    using inv g by (auto simp: s' freezing_def revisions_ok_def)
qed

lemma revisions_create:
  assumes ok: "revisions_ok s" and run: "create_generation E so snap d streams rq document frozen s = Inr (s', g)"
  shows "revisions_ok s'"
proof -
  obtain s1 s2 s3 s4 s5 fs p body where s1: "lock_projection d s = Inr s1" and s2: "refresh_consumed_carriers d (rq_tombs rq) s1 = Inr (s2, fs)"
    and s3: "foldE (promote_stream snap frozen d) (s2, \<lparr>pr_revisions = [], pr_push = [], pr_fragments = []\<rparr>) (sort (remdups streams)) = Inr (s3, p)"
    and s4: "foldE (authorize_fragment d) s3 (pr_fragments p) = Inr s4"
    and s5: "(case document of Some doc \<Rightarrow> Inr (s4, doc) | None \<Rightarrow> compose_authorized_document d (pr_fragments p) s4) = Inr (s5, body)"
    and st: "store_generation E d rq body (pr_push p) (pr_revisions p) s5 = Inr (s', g)"
    using run by (auto simp: create_generation_def bindE_eq_Inr split: if_splits)
  have "revisions_ok s2"
    using revisions_ok_frame [OF revisions_lock [OF ok s1]] refresh_rows [OF s2] by blast
  then have "promoting d s2 (s3, p)"
    by (intro promote_all [OF _ s3]) (simp add: promoting_def carried_ok_def)
  then have "freezing d (pr_revisions p) s2 s4"
    by (intro authorize_all [OF _ s4]) (simp add: promoting_def freezing_def)
  moreover have "s5 = s4 \<or> (\<exists>ids fs. refresh_consumed_carriers d ids s4 = Inr (s5, fs))"
    using s5 by (auto simp: compose_authorized_document_def bindE_eq_Inr split: option.splits)
  ultimately have "freezing d (pr_revisions p) s2 s5"
    using refresh_rows freezing_step by blast
  then show ?thesis
    by (rule revisions_store [OF _ st])
qed

lemma revisions_reissue:
  assumes ok: "revisions_ok s" and run: "create_reissue_generation E d rq s = Inr (s', g)"
  shows "revisions_ok s'"
proof -
  obtain s1 s2 fs rq' doc pu where s: "lock_projection d s = Inr s1" "refresh_consumed_carriers d (rq_tombs rq) s1 = Inr (s2, fs)"
    and st: "store_generation E d rq' doc pu [] s2 = Inr (s', g)"
    using run by (auto simp: create_reissue_generation_def bindE_eq_Inr)
  have "revisions_ok s2"
    using revisions_ok_frame [OF revisions_lock [OF ok s(1)]] refresh_rows [OF s(2)] by blast
  then have "freezing d [] s2 s2"
    by (simp add: freezing_def carried_ok_def)
  then show ?thesis
    by (rule revisions_store [OF _ st])
qed

text \<open>Settlement moves an applied revision only to one a stored generation carries.\<close>

lemma revisions_settled:
  assumes ok: "revisions_ok s" and adv: "stream_advance (revision_proved s') s s'"
    and gens: "\<And>g'. g' \<in> set (st_gens s') \<Longrightarrow> \<exists>g\<in>set (st_gens s). g_device g' = g_device g \<and> g_revisions g' = g_revisions g"
  shows "revisions_ok s'"
proof (rule revisions_ok_step [OF ok _ gens])
  have "row_step r r'" if r: "r \<in> set (st_streams s)" and a: "row_advance (revision_proved s') r r'" for r r'
  proof (cases "in_protocol r \<and> s_applied r' \<noteq> s_applied r")
    case False
    then show ?thesis
      using row_advance_cols [OF a] by (auto simp: row_step_def triple_ok_def)
  next
    case True
    then have "revision_proved s' (s_device r) (s_stream r) (s_applied r')"
      using a by (auto simp: row_advance_def)
    then obtain g' where g': "g' \<in> set (st_gens s')" "g_device g' = s_device r" "(s_stream r, s_applied r') \<in> set (g_revisions g')"
      by (auto simp: revision_proved_def)
    obtain g where g: "g \<in> set (st_gens s)" "g_device g' = g_device g" "g_revisions g' = g_revisions g"
      using gens [OF g'(1)] by blast
    have "carried_ok (st_streams s) (g_device g) (g_revisions g)"
      using ok g(1) by (simp add: revisions_ok_def)
    then have "s_applied r' \<le> s_authorized r"
      using carried_okD(2) [of "st_streams s" "g_device g" "g_revisions g" "s_stream r" "s_applied r'" r] g g' r True by (simp add: row_of_def)
    then show ?thesis
      using row_advance_cols [OF a] by (auto simp: row_step_def triple_ok_def)
  qed
  then show "list_all2 row_step (st_streams s) (st_streams s')"
    using adv by (auto simp: stream_advance_def elim: list.rel_mono_strong)
qed

lemma kept_rows:
  assumes "chain_keeps s s'" and "length (st_gens s') = length (st_gens s)" and "g' \<in> set (st_gens s')"
  shows "\<exists>g\<in>set (st_gens s). g_device g' = g_device g \<and> g_revisions g' = g_revisions g"
proof -
  obtain old new where old: "st_gens s' = old @ new" "list_all2 gen_after (st_gens s) old"
    using assms(1) by (auto simp: chain_keeps_def)
  then have "new = []"
    using assms(2) list_all2_lengthD [OF old(2)] by simp
  then obtain g where "g \<in> set (st_gens s)" "gen_after g g'"
    using list_all2_member2 [OF old(2)] old(1) assms(3) by auto
  then show ?thesis
    using gen_identityD(2,9) by (metis gen_after_def)
qed

lemma revisions_finish:
  assumes chain: "chain_ok s" and ok: "revisions_ok s" and live: "job_live expect"
    and run: "terminalize E now s k status expect ra result err sd go = Inr (s', w)"
  shows "revisions_ok s'"
proof (cases w)
  case None
  have "s' = s"
    using run [unfolded None] by (cases rule: terminalize_cases) simp_all
  then show ?thesis using ok by simp
next
  case (Some v)
  note keeps = chain_terminalize [OF chain live run]
  show ?thesis
    by (rule terminalize_written [OF chain_okD(6) [OF chain] run [unfolded Some]])
      (rule revisions_settled [OF ok], assumption, rule kept_rows [OF keeps], simp_all add: upd_where_def)
qed

lemma advance_locked_streams:
  assumes chain: "chain_ok s" and run: "advance_generations_locked now busy d s = Inr (s', r)"
  shows "st_streams s' = st_streams s" and "length (st_gens s') = length (st_gens s)"
proof -
  show "length (st_gens s') = length (st_gens s)"
    using advance_locked_advanced [OF chain run] by (auto simp: advanced_def dest: list_all2_lengthD)
  show "st_streams s' = st_streams s"
    using run
  proof (cases rule: advance_cases)
    case (fresh h s1 j)
    have "chain_ok s1"
      using fresh(4) chain unbind_chain_ok [OF chain fresh(1-3)] by auto
    then show ?thesis
      using create_dedicated_carrier_effect(1) [OF _ fresh(5)] fresh(4) by (auto simp: add_job_def)
  qed simp_all
qed

lemma revisions_reconcile:
  assumes chain: "chain_ok s" and ok: "revisions_ok s" and run: "reconcile_generation now busy gid s = Inr (s', r)"
  shows "revisions_ok s'"
proof (cases "row_by g_id gid (st_gens s)")
  case None
  then show ?thesis using ok run by (simp add: reconcile_generation_def)
next
  case (Some g0)
  obtain s1 g s2 s3 where head: "require_locked_executable_head g0 s = Inr (s1, g)"
    and claim: "claim_blocked_head now gid GAbandoned s1 = Inr s2"
    and s3: "s3 = (case g_cohort g of None \<Rightarrow> s2 | Some c \<Rightarrow> stamp_settled_cohort s2 c)"
    and adv: "advance_generations_locked now busy (g_device g) s3 = Inr (s', r)"
    using run Some by (auto simp: reconcile_generation_def bindE_eq_Inr Let_def split: if_splits)
  note hd = require_head_SomeD [OF head]
  have ok1: "chain_ok s1" "revisions_ok s1"
    using chain_keeps_ok [OF chain_lock_projection [OF chain hd(1)]] revisions_lock [OF ok hd(1)] by simp_all
  have gs: "g \<in> set (st_gens s1)" and gid: "g_id g = gid"
    using executable_head_SomeD(1) [OF hd(2)] hd(3) row_by_SomeD [OF Some] by simp_all
  have k2: "chain_keeps s1 s2"
    by (rule chain_claim_blocked_head [OF ok1(1) gs claim [folded gid]]) simp
  obtain f where s2: "s2 = upd_gens (\<lambda>x. g_id x = g_id g) f s1"
    by (rule claim_blocked_head_effect [OF chain_okD(6) [OF ok1(1)] gs claim [folded gid]])
  have ok2: "revisions_ok s2"
    by (rule revisions_ok_step [OF ok1(2)]) (use kept_rows [OF k2] in \<open>simp_all add: s2 list.rel_refl row_step_refl upd_where_def\<close>)
  have adv3: "stream_advance (revision_proved s2) s2 s3" and gens3: "st_gens s3 = st_gens s2"
    using stamp_settled_cohort_advance s3 by (auto split: option.splits)
  have ok3: "revisions_ok s3"
    by (rule revisions_settled [OF ok2]) (use adv3 gens3 revision_proved_gens [of s2 s3] in auto)
  have c3: "chain_ok s3"
    using chain_keeps_ok [OF chain_streams_only [OF chain_keeps_ok [OF k2]]] s3 stamp_cohort_streams_only by (auto split: option.splits)
  show ?thesis
    by (rule revisions_ok_step [OF ok3])
      (use advance_locked_streams [OF c3 adv] kept_rows [OF chain_advance_locked [OF c3 adv]] in \<open>simp_all add: list.rel_refl row_step_refl\<close>)
qed

section \<open>Every run\<close>

text \<open>
  The operations that move a revision, and every other step of the chain that leaves the streams
  alone and stores no generation.
\<close>

inductive revision_step :: "env \<Rightarrow> store \<Rightarrow> store \<Rightarrow> bool" for E :: env where
  rev_write: "note_write d stream push s = Inr (s', n) \<Longrightarrow> revision_step E s s'"
| rev_create: "create_generation E so snap d streams rq document frozen s = Inr (s', g) \<Longrightarrow> revision_step E s s'"
| rev_reissue: "create_reissue_generation E d rq s = Inr (s', g) \<Longrightarrow> revision_step E s s'"
| rev_finish: "job_live expect \<Longrightarrow> terminalize E now s k status expect ra result err sd go = Inr (s', w) \<Longrightarrow> revision_step E s s'"
| rev_reconcile: "reconcile_generation now busy gid s = Inr (s', jo) \<Longrightarrow> revision_step E s s'"
| rev_quiet: "chain_step E s s' \<Longrightarrow> st_streams s' = st_streams s \<Longrightarrow> length (st_gens s') = length (st_gens s) \<Longrightarrow> revision_step E s s'"

definition revision_start :: "store \<Rightarrow> bool" where
  "revision_start s = (chain_start s \<and> st_streams s = [])"

lemma revision_step_chain: "revision_step E s s' \<Longrightarrow> chain_step E s s'"
  by (induction rule: revision_step.induct) (auto intro: chain_step.intros)

lemma revision_step_ok:
  "revision_step E s s' \<Longrightarrow> chain_ok s \<Longrightarrow> revisions_ok s \<Longrightarrow> revisions_ok s'"
proof (induction rule: revision_step.induct)
  case (rev_quiet s s')
  show ?case
    by (rule revisions_ok_step [OF rev_quiet.prems(2)])
      (use rev_quiet kept_rows [OF chain_step_keeps [OF rev_quiet.hyps(1) rev_quiet.prems(1)]] in \<open>simp_all add: list.rel_refl row_step_refl\<close>)
qed (auto intro: revisions_note_write revisions_create revisions_reissue revisions_finish revisions_reconcile)

interpretation revs: invariant_system revision_start "revision_step E" "\<lambda>s. chain_ok s \<and> revisions_ok s" for E
proof
  show "revision_start s \<Longrightarrow> chain_ok s \<and> revisions_ok s" for s
    using chain.inv_start by (simp add: revision_start_def revisions_ok_def chain_start_def)
  show "revision_step E s s' \<Longrightarrow> chain_ok s \<and> revisions_ok s \<Longrightarrow> chain_ok s' \<and> revisions_ok s'" for s s'
    using revision_step_ok chain.inv_step [OF revision_step_chain] by blast
qed


definition write_run :: store where
  "write_run = fst (projr (note_write 1 ''ip'' (Some 4) run_store))"

definition promote_run :: store where
  "promote_run = fst (projr (create_generation sample_env False (\<lambda>_. Inl CarrierGone) 1 [''ip''] run_request
     (Some []) [(''ip'', [(EXECUTION_KEY, JObj [(''context'', JObj [])])])] write_run))"


end
