(* ===== verification/Intent_Identity.thy ===== *)
theory Intent_Identity
  imports Static_Route_Plan
begin

text \<open>
  Durable identities of intent rows (\<open>core/projection.py\<close>): the identity of a row is its logical
  key with the identity of its parent in front, so a writer that deletes and re-inserts a
  subtree under new database ids leaves every identity as it was.  Also the row state the
  renderer consumes, and the snapshot of a stream's live rows.

  Identity columns hold strings, integers or null, so the equality of JSON values is the
  equality of the Python values.  A model class is named by its table.
\<close>

section \<open>Refusals of AS values\<close>

definition lift_asn :: "asn_error + 'a \<Rightarrow> exn + 'a" where
  "lift_asn m = (case m of Inr x \<Rightarrow> Inr x
     | Inl (AsnRuleViolation t i f v other) \<Rightarrow> Inl (AsnRefused t i f v other)
     | Inl (BgpSourceAsRequired ned) \<Rightarrow> Inl (BgpSourceAsMissing ned)
     | Inl AsnTypeError \<Rightarrow> Inl (TypeError ''reference is not a string''))"

lemma lift_asn_Inr [simp]: "lift_asn (Inr x) = Inr x"
  by (simp add: lift_asn_def)

lemma lift_asn_eq_Inr [simp]: "lift_asn m = Inr x \<longleftrightarrow> m = Inr x"
  by (auto simp: lift_asn_def split: sum.splits asn_error.splits)

section \<open>Lineage\<close>

definition spec_of :: "string \<Rightarrow> exn + table_spec" where
  "spec_of table = (case spec_or_refuse table of
     None \<Rightarrow> Inl (ValueError ''unknown projection table'') | Some spec \<Rightarrow> Inr spec)"

text \<open>The projected parent; \<open>interfaces\<close> is outside the projection.\<close>

definition parent_spec :: "table_spec \<Rightarrow> table_spec option" where
  "parent_spec spec = (case ts_parent spec of None \<Rightarrow> None | Some (p, _) \<Rightarrow> spec_or_refuse p)"

text \<open>The height of a table above the device: parents are lower than their children.\<close>

definition table_height :: "string \<Rightarrow> nat" where
  "table_height t = (if t = ''bgp_scope_intent'' then 2 else if t = ''bgp_peer_intent'' then 3
     else if t = ''bgp_af_intent'' then 3 else if t = ''bgp_peer_af_intent'' then 4
     else if t = ''switchport_tagged_vlan_intent'' \<or> t = ''lag_member_intent'' \<or> t = ''interface_intent'' \<or> t = ''interface_ip_intent''
     then 2 else 1)"

definition spec_height :: "table_spec \<Rightarrow> nat" where
  "spec_height spec = (case ts_parent spec of None \<Rightarrow> 0 | Some (p, _) \<Rightarrow> table_height p)"

definition all_specs :: "table_spec list" where
  "all_specs = concat (map (\<lambda>(_, e). sec_tables e) SECTION_REGISTRY)"

definition heights_ok :: bool where
  "heights_ok = list_all (\<lambda>spec. spec_height spec < table_height (ts_table spec)) all_specs"

lemma heights_ok_holds: heights_ok
  by code_simp

lemma spec_or_refuse_SomeD: "spec_or_refuse t = Some spec \<Longrightarrow> spec \<in> set all_specs \<and> ts_table spec = t"
  unfolding spec_or_refuse_def all_specs_def [symmetric] by (auto simp: find_Some_iff)

lemma spec_of_InrD: "spec_of t = Inr spec \<Longrightarrow> spec_or_refuse t = Some spec"
  by (auto simp: spec_of_def split: option.splits)

lemma parent_height: "parent_spec spec = Some p \<Longrightarrow> spec_height p < spec_height spec"
  using heights_ok_holds
  by (auto simp: parent_spec_def spec_height_def [of spec] heights_ok_def list_all_iff dest!: spec_or_refuse_SomeD
      split: option.splits)

function identity_lineage :: "table_spec \<Rightarrow> table_spec list" where
  "identity_lineage spec = (case parent_spec spec of None \<Rightarrow> [spec] | Some p \<Rightarrow> identity_lineage p @ [spec])"
  by auto
termination by (relation "measure spec_height") (auto simp: parent_height)

declare identity_lineage.simps [simp del]

section \<open>Row identities\<close>

type_synonym row_index = "(json list \<times> jdict) list"
type_synonym id_index = "(json \<times> json list) list"

definition table_rows :: "jdict \<Rightarrow> string \<Rightarrow> jdict list" where
  "table_rows fragment t = rows_of (dget fragment t)"

definition parent_identity :: "table_spec \<Rightarrow> jdict \<Rightarrow> (string \<times> id_index) list \<Rightarrow> exn + json list" where
  "parent_identity spec row ids = (case ts_parent spec of None \<Rightarrow> Inr []
     | Some (p, fk) \<Rightarrow> (case spec_or_refuse p of None \<Rightarrow> Inr [row_get row fk]
         | Some _ \<Rightarrow> (case dget (case dget ids p of None \<Rightarrow> [] | Some m \<Rightarrow> m) (row_get row fk) of
             None \<Rightarrow> Inl (RuntimeError ''row references a missing parent'') | Some i \<Rightarrow> Inr i)))"

definition identity_values :: "table_spec \<Rightarrow> jdict \<Rightarrow> json list option \<Rightarrow> exn + json list" where
  "identity_values spec row canonical =
     (if ts_table spec = ''bgp_router_intent'' then
        (case canonical of Some [JInt n] \<Rightarrow> Inr [JStr (dec n)] | _ \<Rightarrow> Inl (RuntimeError ''assertion failed''))
      else if ts_table spec = ''redistribution_intent'' then
        (case canonical of Some [_, dest, _, src] \<Rightarrow>
           Inr (map (\<lambda>f. if f = ''dest_ref'' then dest else if f = ''source_ref'' then src else row_get row f) (ts_identity spec))
         | _ \<Rightarrow> Inl (RuntimeError ''assertion failed''))
      else Inr (map (row_get row) (ts_identity spec)))"

definition row_identity :: "table_spec \<Rightarrow> jdict \<Rightarrow> (string \<times> id_index) list \<Rightarrow> exn + json list" where
  "row_identity spec row ids =
     bindE (parent_identity spec row ids) (\<lambda>parent.
     bindE (lift_asn (asn_row_identity (ts_table spec) row)) (\<lambda>canonical.
     bindE (identity_values spec row canonical) (\<lambda>values. Inr (parent @ values))))"

definition index_row ::
  "table_spec \<Rightarrow> (string \<times> id_index) list \<Rightarrow> row_index \<times> id_index \<Rightarrow> jdict \<Rightarrow> exn + row_index \<times> id_index" where
  "index_row spec ids acc row = bindE (row_identity spec row ids) (\<lambda>i.
     if dhas (fst acc) i then Inl (RuntimeError ''projection contains a duplicate durable identity'')
     else Inr (dset (fst acc) i row, dset (snd acc) (row_get row ''id'') i))"

definition index_table ::
  "jdict \<Rightarrow> (string \<times> row_index) list \<times> (string \<times> id_index) list \<Rightarrow> table_spec \<Rightarrow>
   exn + (string \<times> row_index) list \<times> (string \<times> id_index) list" where
  "index_table fragment acc spec =
     (let t = ts_table spec; rows = table_rows fragment t in
      bindE (lift_asn (validate_asn_rows t None rows)) (\<lambda>_.
      bindE (foldE (index_row spec (snd acc)) ([], []) rows) (\<lambda>(indexed, by_id).
        Inr (dset (fst acc) t indexed, dset (snd acc) t by_id))))"

definition identity_indexes :: "jdict \<Rightarrow> table_spec list \<Rightarrow> exn + (string \<times> row_index) list" where
  "identity_indexes fragment specs = bindE (foldE (index_table fragment) ([], []) specs) (\<lambda>acc. Inr (fst acc))"

definition rows_by_intent_identity :: "jdict \<Rightarrow> string \<Rightarrow> exn + row_index" where
  "rows_by_intent_identity fragment table = bindE (spec_of table) (\<lambda>spec.
     bindE (identity_indexes fragment (identity_lineage spec)) (\<lambda>ix.
       case dget ix (ts_table spec) of None \<Rightarrow> Inl (KeyError table) | Some rows \<Rightarrow> Inr rows))"

definition is_intent_deletion :: "string \<Rightarrow> json list \<Rightarrow> row_index \<Rightarrow> exn + bool" where
  "is_intent_deletion table identity desired = bindE (spec_of table) (\<lambda>spec.
     Inr (\<not> ts_lifecycle spec \<and> \<not> dhas desired identity))"

section \<open>Row state\<close>

definition APPLY_BOOKKEEPING_COLUMNS :: "string list" where
  "APPLY_BOOKKEEPING_COLUMNS = [''last_apply_at'', ''last_apply_error'', ''pending_clear'', ''deployed_key'']"

definition excluded_columns :: "table_spec \<Rightarrow> string list" where
  "excluded_columns spec = [''id'', ''device_id'', ''accepted_at''] @ APPLY_BOOKKEEPING_COLUMNS @
     (case ts_parent spec of None \<Rightarrow> [] | Some (_, fk) \<Rightarrow> [fk])"

definition canonical_peer_field :: "string \<Rightarrow> json \<Rightarrow> jdict \<Rightarrow> string \<Rightarrow> exn + jdict" where
  "canonical_peer_field table rid state f =
     (if row_get state f = JNull then Inr state
      else bindE (lift_asn (checked_asn (row_get state f) table rid f)) (\<lambda>n. Inr (dset state f (JInt n))))"

definition projection_row_state :: "string \<Rightarrow> jdict \<Rightarrow> exn + jdict" where
  "projection_row_state table row = bindE (spec_of table) (\<lambda>spec.
     if table = ''static_route_intent'' then static_route_entry row
     else let rid = row_get row ''id'';
              state = filter (\<lambda>(k, _). k \<notin> set (excluded_columns spec)) row in
       if table = ''bgp_router_intent'' then
         bindE (required state ''asn'') (\<lambda>v. bindE (lift_asn (checked_asn v table rid ''asn'')) (\<lambda>n.
           Inr (dset state ''asn'' (JInt n))))
       else if table = ''bgp_peer_intent'' then
         foldE (canonical_peer_field table rid) state [''remote_as'', ''local_as'']
       else if table = ''redistribution_intent'' then
         bindE (lift_asn (asn_row_identity table row)) (\<lambda>canonical. case canonical of
             Some [_, dest, _, src] \<Rightarrow> Inr (dset (dset state ''dest_ref'' dest) ''source_ref'' src)
           | _ \<Rightarrow> Inl (RuntimeError ''assertion failed''))
       else Inr state)"

section \<open>Snapshots of live rows\<close>

text \<open>
  The live tables: each table's rows in the order of their ids.  A table outside the registry
  (\<open>interfaces\<close>) and a table without parent carry \<open>device_id\<close>.
\<close>

type_synonym live_tables = "string \<Rightarrow> jdict list"

definition device_rows :: "live_tables \<Rightarrow> int \<Rightarrow> string \<Rightarrow> jdict list" where
  "device_rows tabs d t = filter (\<lambda>r. row_get r ''device_id'' = JInt d) (tabs t)"

text \<open>The rows of a table that belong to a device, through the chain of its parents.\<close>

function scope_rows :: "live_tables \<Rightarrow> int \<Rightarrow> table_spec \<Rightarrow> jdict list" where
  "scope_rows tabs d spec = (case ts_parent spec of None \<Rightarrow> device_rows tabs d (ts_table spec)
     | Some (p, fk) \<Rightarrow>
         (let parents = (case spec_or_refuse p of None \<Rightarrow> device_rows tabs d p | Some ps \<Rightarrow> scope_rows tabs d ps)
          in filter (\<lambda>r. row_get r fk \<in> set (map (\<lambda>q. row_get q ''id'') parents)) (tabs (ts_table spec))))"
  by auto
termination
  by (relation "measure (\<lambda>(_, _, spec). spec_height spec)")
    (auto intro!: parent_height simp: parent_spec_def)

declare scope_rows.simps [simp del]

definition rows_for :: "live_tables \<Rightarrow> int \<Rightarrow> table_spec \<Rightarrow> jdict list" where
  "rows_for tabs d spec = filter (\<lambda>r. case ts_discriminator spec of None \<Rightarrow> True
     | Some (f, v) \<Rightarrow> row_get r f = JStr v) (scope_rows tabs d spec)"

definition stream_specs :: "string \<Rightarrow> exn + table_spec list" where
  "stream_specs stream = (case (stream_tables stream, stream_tables_map) of
     (Some _, Some m) \<Rightarrow> (case dget m stream of Some specs \<Rightarrow> Inr specs | None \<Rightarrow> Inl (KeyError stream))
   | _ \<Rightarrow> Inl (ValueError ''unknown projection stream''))"

text \<open>The specs of a stream without the startup checks, which always accept.\<close>

definition checked_specs :: "string \<Rightarrow> table_spec list" where
  "checked_specs stream = (let sec = (case dget STREAM_SECTIONS stream of None \<Rightarrow> [] | Some sec \<Rightarrow> sec);
       tables = (case dget SECTION_REGISTRY sec of None \<Rightarrow> [] | Some e \<Rightarrow> sec_tables e)
     in case dget SPLIT_SECTION_STREAMS sec of None \<Rightarrow> tables
        | Some sp \<Rightarrow> (case dget (sp_streams sp) stream of None \<Rightarrow> []
            | Some models \<Rightarrow> concat (map (\<lambda>m. filter (\<lambda>t. ts_table t = m) tables) models)))"

definition checked_specs_agree :: bool where
  "checked_specs_agree = (case stream_tables_map of None \<Rightarrow> False
     | Some m \<Rightarrow> list_all (\<lambda>s. dget m s = Some (checked_specs s)) STREAMS)"

lemma checked_specs_agree_holds: checked_specs_agree
  by code_simp

lemma stream_specs_eq:
  "stream_specs stream = (if stream \<in> set STREAMS then Inr (checked_specs stream) else Inl (ValueError ''unknown projection stream''))"
proof -
  obtain m where m: "stream_tables_map = Some m" "list_all (\<lambda>s. dget m s = Some (checked_specs s)) STREAMS"
    using checked_specs_agree_holds by (auto simp: checked_specs_agree_def split: option.splits)
  show ?thesis
  proof (cases "stream \<in> set STREAMS")
    case True
    then have "dget m stream = Some (checked_specs stream)" using m(2) unfolding list_all_iff by blast
    then show ?thesis using True by (simp add: stream_specs_def stream_tables_eq m(1))
  next
    case False
    then show ?thesis by (simp add: stream_specs_def stream_tables_eq)
  qed
qed

declare projection_streams_eq [code] stream_specs_eq [code]

definition snapshot_stream :: "live_tables \<Rightarrow> string option \<Rightarrow> int \<Rightarrow> string \<Rightarrow> exn + jdict" where
  "snapshot_stream tabs ned d stream = bindE (stream_specs stream) (\<lambda>specs.
     let tables = map (\<lambda>spec. (ts_table spec, rows_for tabs d spec)) specs in
     bindE (mapE (\<lambda>(t, rows). lift_asn (validate_asn_rows t (Some ned) rows)) tables) (\<lambda>_.
       Inr (map (\<lambda>(t, rows). (t, JList (map JObj rows))) tables)))"

section \<open>Every row is indexed once\<close>

lemma index_rows:
  "foldE (index_row spec ids) (ix, by_id) rows = Inr (ix', by_id') \<Longrightarrow>
   distinct (map fst ix) \<Longrightarrow>
   map snd ix' = map snd ix @ rows \<and> distinct (map fst ix')"
proof (induction rows arbitrary: ix by_id)
  case (Cons row rows)
  obtain i where i: "\<not> dhas ix i"
    and rest: "foldE (index_row spec ids) (dset ix i row, dset by_id (row_get row ''id'') i) rows = Inr (ix', by_id')"
    using Cons.prems(1) by (auto simp: index_row_def [of spec ids "(ix, by_id)" row] bindE_eq_Inr split: if_splits)
  have "map snd ix' = map snd (dset ix i row) @ rows \<and> distinct (map fst ix')"
    by (rule Cons.IH [OF rest]) (simp add: Cons.prems(2))
  then show ?case using i by (simp add: dset_fresh)
qed simp

lemma index_last_table:
  assumes "identity_indexes fragment (specs @ [spec]) = Inr ix"
  shows "\<exists>rows. dget ix (ts_table spec) = Some rows \<and> map snd rows = table_rows fragment (ts_table spec) \<and> distinct (map fst rows)"
proof -
  have app: "foldE f acc (xs @ [x]) = bindE (foldE f acc xs) (\<lambda>acc'. f acc' x)" for f acc xs and x :: table_spec
    by (induction xs arbitrary: acc) (auto simp: bindE_def split: sum.splits)
  obtain acc out where out: "index_table fragment acc spec = Inr out" "ix = fst out"
    using assms unfolding identity_indexes_def app bindE_eq_Inr by auto
  then obtain rows by_id where "foldE (index_row spec (snd acc)) ([], []) (table_rows fragment (ts_table spec)) = Inr (rows, by_id)"
    "out = (dset (fst acc) (ts_table spec) rows, dset (snd acc) (ts_table spec) by_id)"
    by (auto simp: index_table_def Let_def bindE_eq_Inr)
  with index_rows [OF this(1)] out(2) show ?thesis by simp
qed

lemma lineage_snoc: "\<exists>ancestors. identity_lineage spec = ancestors @ [spec]"
  by (subst identity_lineage.simps) (auto split: option.splits)

lemma rows_by_identity_complete:
  assumes "rows_by_intent_identity fragment t = Inr ix"
  shows "map snd ix = table_rows fragment t" "distinct (map fst ix)"
proof -
  obtain spec ixs where spec: "spec_of t = Inr spec" and ixs: "identity_indexes fragment (identity_lineage spec) = Inr ixs"
    "dget ixs (ts_table spec) = Some ix"
    using assms by (auto simp: rows_by_intent_identity_def bindE_eq_Inr split: option.splits)
  have "ts_table spec = t" using spec_or_refuse_SomeD [OF spec_of_InrD [OF spec]] by simp
  moreover obtain ancestors where "identity_lineage spec = ancestors @ [spec]" using lineage_snoc by blast
  ultimately show "map snd ix = table_rows fragment t" "distinct (map fst ix)"
    using index_last_table [of fragment ancestors spec ixs] ixs by auto
qed

section \<open>New database ids\<close>

text \<open>
  A writer that replaces a subtree gives its rows new ids: \<open>renaming\<close> maps the old ids of a
  table to the new ones, in the rows' \<open>id\<close> and in the foreign keys that point at them.
\<close>

definition rename_value :: "(string \<Rightarrow> json \<Rightarrow> json) \<Rightarrow> table_spec \<Rightarrow> string \<Rightarrow> json \<Rightarrow> json" where
  "rename_value ren spec k v = (if k = ''id'' then ren (ts_table spec) v
     else case ts_parent spec of None \<Rightarrow> v
       | Some (p, fk) \<Rightarrow> if k = fk \<and> spec_or_refuse p \<noteq> None then ren p v else v)"

definition rename_row :: "(string \<Rightarrow> json \<Rightarrow> json) \<Rightarrow> table_spec \<Rightarrow> jdict \<Rightarrow> jdict" where
  "rename_row ren spec row = map (\<lambda>(k, v). (k, rename_value ren spec k v)) row"

definition rename_rows :: "(string \<Rightarrow> json \<Rightarrow> json) \<Rightarrow> string \<Rightarrow> json \<Rightarrow> json" where
  "rename_rows ren t j = (case spec_or_refuse t of None \<Rightarrow> j
     | Some spec \<Rightarrow> JList (map (\<lambda>r. JObj (rename_row ren spec r)) (rows_of (Some j))))"

definition rename_fragment :: "(string \<Rightarrow> json \<Rightarrow> json) \<Rightarrow> jdict \<Rightarrow> jdict" where
  "rename_fragment ren fragment = map (\<lambda>(t, j). (t, rename_rows ren t j)) fragment"

definition renaming :: "(string \<Rightarrow> json \<Rightarrow> json) \<Rightarrow> bool" where
  "renaming ren = (\<forall>t. inj (ren t) \<and> ren t JNull = JNull)"

definition ASN_FIELDS :: "string list" where
  "ASN_FIELDS = [''asn'', ''remote_as'', ''local_as'', ''dest_protocol'', ''dest_ref'', ''source_protocol'', ''source_ref'']"

definition columns_apart :: "table_spec \<Rightarrow> bool" where
  "columns_apart spec = (''id'' \<notin> set (ts_identity spec) \<and> (case ts_parent spec of None \<Rightarrow> True
     | Some (_, fk) \<Rightarrow> fk \<noteq> ''id'' \<and> fk \<notin> set (ts_identity spec) \<and> fk \<notin> set ASN_FIELDS))"

definition columns_apart_everywhere :: bool where
  "columns_apart_everywhere = list_all columns_apart all_specs"

lemma columns_apart_holds: columns_apart_everywhere
  by code_simp

lemma columns_apartD: "spec_or_refuse t = Some spec \<Longrightarrow> columns_apart spec"
  using columns_apart_holds by (auto simp: columns_apart_everywhere_def list_all_iff dest: spec_or_refuse_SomeD)

lemma dget_map_value: "dget (map (\<lambda>(k, v). (k, f k v)) d) k = map_option (f k) (dget d k)"
  by (induction d) auto

lemma dget_rename_row: "dget (rename_row ren spec row) k = map_option (rename_value ren spec k) (dget row k)"
  by (simp add: rename_row_def dget_map_value)

lemma rename_value_JNull [simp]: "renaming ren \<Longrightarrow> rename_value ren spec k JNull = JNull"
  by (auto simp: renaming_def rename_value_def split: option.splits)

lemma row_get_rename_row:
  "renaming ren \<Longrightarrow> row_get (rename_row ren spec row) k = rename_value ren spec k (row_get row k)"
  by (simp add: row_get_def dget_rename_row split: option.splits)

lemma dget_rename_kept:
  assumes "columns_apart spec" and "k \<in> set (ts_identity spec) \<or> k \<in> set ASN_FIELDS"
  shows "dget (rename_row ren spec row) k = dget row k"
  using assms
  by (auto simp: dget_rename_row rename_value_def columns_apart_def ASN_FIELDS_def map_option_case split: option.splits)

lemma checked_asn_Inr: "checked_asn v t i f = Inr n \<longleftrightarrow> parse_asn v = Some n"
  by (auto simp: checked_asn_def split: option.splits)

lemma asn_fields_agree:
  assumes "\<forall>k \<in> set ASN_FIELDS. dget a k = dget b k"
  shows "row_get b ''asn'' = row_get a ''asn''" "row_get b ''remote_as'' = row_get a ''remote_as''"
    "row_get b ''local_as'' = row_get a ''local_as''" "row_get b ''dest_protocol'' = row_get a ''dest_protocol''"
    "row_get b ''dest_ref'' = row_get a ''dest_ref''" "row_get b ''source_ref'' = row_get a ''source_ref''"
    "row_get b ''source_protocol'' = row_get a ''source_protocol''"
    "row_get_or b ''dest_ref'' v = row_get_or a ''dest_ref'' v" "row_get_or b ''source_ref'' v = row_get_or a ''source_ref'' v"
    "dhas b ''asn'' = dhas a ''asn''"
  using assms by (simp_all add: ASN_FIELDS_def row_get_def row_get_or_def dhas_iff)

lemma check_peer_field_cong:
  "row_get b f = row_get a f \<Longrightarrow> check_peer_field t a f = Inr u \<Longrightarrow> check_peer_field t b f = Inr u"
  by (auto simp: check_peer_field_def bindE_eq_Inr checked_asn_Inr split: if_splits)

lemma destination_identity_cong:
  assumes "\<forall>k \<in> set ASN_FIELDS. dget a k = dget b k" and "destination_identity t a = Inr x"
  shows "destination_identity t b = Inr x"
proof (cases "row_get a ''dest_protocol'' \<noteq> JStr ''bgp''")
  case True
  then show ?thesis using assms(2) unfolding destination_identity_def Let_def asn_fields_agree [OF assms(1)] by simp
next
  case False
  then show ?thesis
    using assms(2) unfolding destination_identity_def Let_def asn_fields_agree [OF assms(1)]
    by (cases "row_get_or a ''dest_ref'' (JStr [])") (simp_all add: bindE_eq_Inr checked_asn_Inr split: if_splits)
qed

lemma source_identity_cong:
  assumes "\<forall>k \<in> set ASN_FIELDS. dget a k = dget b k" and "source_identity t a = Inr x"
  shows "source_identity t b = Inr x"
  using assms(2) unfolding source_identity_def Let_def asn_fields_agree [OF assms(1)] checked_device_source_ref_def
  by (simp add: bindE_eq_Inr checked_asn_Inr split: if_splits)

lemma asn_row_identity_cong:
  assumes "\<forall>k \<in> set ASN_FIELDS. dget a k = dget b k" and "asn_row_identity t a = Inr x"
  shows "asn_row_identity t b = Inr x"
proof -
  note agree = asn_fields_agree [OF assms(1)]
  define r p s where "r \<longleftrightarrow> t = ''bgp_router_intent'' \<or> t = ''device_bgp_router''"
    and "p \<longleftrightarrow> t = ''bgp_peer_intent'' \<or> t = ''device_bgp_peer'' \<or> t = ''device_bgp_peer_group''"
    and "s \<longleftrightarrow> t = ''redistribution_intent'' \<or> t = ''device_redistribution''"
  note tables = asn_row_identity_def r_def [symmetric] p_def [symmetric] s_def [symmetric]
  show ?thesis
  proof (cases r)
    case True
    with assms(2) agree(1) show ?thesis unfolding tables by (simp add: bindE_eq_Inr checked_asn_Inr)
  next
    case False
    show ?thesis
    proof (cases p)
      case True
      with False assms(2) have "check_peer_field t a ''remote_as'' = Inr ()" "check_peer_field t a ''local_as'' = Inr ()" "x = None"
        unfolding tables by (simp_all add: bindE_eq_Inr)
      then show ?thesis
        using True False check_peer_field_cong [OF agree(2)] check_peer_field_cong [OF agree(3)] unfolding tables by simp
    next
      case np: False
      show ?thesis
      proof (cases s)
        case True
        with False np assms(2) obtain d src where "destination_identity t a = Inr d" "source_identity t a = Inr src"
          "x = Some [row_get a ''dest_protocol'', d, row_get a ''source_protocol'', src]"
          unfolding tables by (auto simp only: bindE_eq_Inr if_False if_True sum.inject)
        then show ?thesis
          using True False np destination_identity_cong [OF assms(1)] source_identity_cong [OF assms(1)] agree(4,7)
          unfolding tables by simp
      next
        case ns: False
        with False np assms(2) show ?thesis unfolding tables by simp
      qed
    qed
  qed
qed

lemma rename_asn_fields:
  "columns_apart spec \<Longrightarrow> \<forall>k \<in> set ASN_FIELDS. dget row k = dget (rename_row ren spec row) k"
  by (simp add: dget_rename_kept)

lemma same_spelling_rename:
  assumes "columns_apart spec"
  shows "same_spelling (rename_row ren spec a) (rename_row ren spec b) = same_spelling a b"
  unfolding same_spelling_def
  using asn_fields_agree [OF rename_asn_fields [OF assms, of a ren]] asn_fields_agree [OF rename_asn_fields [OF assms, of b ren]]
  by simp

lemma dset_map_snd_fun: "map (\<lambda>(k, v). (k, f v)) (dset d k v) = dset (map (\<lambda>(k, v). (k, f v)) d) k (f v)"
  by (induction d k v rule: dset.induct) auto

lemma validate_rename:
  assumes apart: "columns_apart spec" and "foldE (validate_asn_row t None) seen rows = Inr out"
  shows "foldE (validate_asn_row t None) (map (\<lambda>(i, r). (i, rename_row ren spec r)) seen) (map (rename_row ren spec) rows) =
    Inr (map (\<lambda>(i, r). (i, rename_row ren spec r)) out)"
  using assms(2)
proof (induction rows arbitrary: seen)
  case (Cons row rows)
  obtain mid where mid: "validate_asn_row t None seen row = Inr mid" and rest: "foldE (validate_asn_row t None) mid rows = Inr out"
    using Cons.prems by (auto simp: bindE_eq_Inr)
  obtain i where i: "asn_row_identity t row = Inr i"
    using mid by (auto simp: validate_asn_row_def bindE_eq_Inr)
  have "validate_asn_row t None (map (\<lambda>(i, r). (i, rename_row ren spec r)) seen) (rename_row ren spec row) =
      Inr (map (\<lambda>(i, r). (i, rename_row ren spec r)) mid)"
    using mid i asn_row_identity_cong [OF rename_asn_fields [OF apart] i]
    by (auto simp: validate_asn_row_def check_intent_source_def dget_map_snd dset_map_snd_fun same_spelling_rename [OF apart]
        Let_def split: option.splits if_splits)
  with Cons.IH [OF rest] show ?case by simp
qed simp

definition rename_ids :: "(string \<Rightarrow> json \<Rightarrow> json) \<Rightarrow> (string \<times> id_index) list \<Rightarrow> (string \<times> id_index) list" where
  "rename_ids ren ids = map (\<lambda>(t, m). (t, map (\<lambda>(k, i). (ren t k, i)) m)) ids"

lemma dget_rename_ids: "dget (rename_ids ren ids) t = map_option (map (\<lambda>(k, i). (ren t k, i))) (dget ids t)"
  by (induction ids) (auto simp: rename_ids_def)

lemma dget_inj_keys: "inj f \<Longrightarrow> dget (map (\<lambda>(k, i). (f k, i)) m) (f k) = dget m k"
  by (induction m) (auto simp: inj_eq)

lemma dset_inj_keys: "inj f \<Longrightarrow> map (\<lambda>(k, i). (f k, i)) (dset m k v) = dset (map (\<lambda>(k, i). (f k, i)) m) (f k) v"
  by (induction m k v rule: dset.induct) (auto simp: inj_eq)

lemma dset_rename_ids: "rename_ids ren (dset ids t m) = dset (rename_ids ren ids) t (map (\<lambda>(k, i). (ren t k, i)) m)"
  by (induction ids t m rule: dset.induct) (auto simp: rename_ids_def)

lemma parent_identity_rename:
  assumes ren: "renaming ren" and apart: "columns_apart spec"
  shows "parent_identity spec (rename_row ren spec row) (rename_ids ren ids) = parent_identity spec row ids"
proof (cases "ts_parent spec")
  case None
  then show ?thesis by (simp add: parent_identity_def)
next
  case (Some pf)
  obtain p fk where pf: "pf = (p, fk)" by (cases pf)
  have fk: "row_get (rename_row ren spec row) fk = (if spec_or_refuse p \<noteq> None then ren p (row_get row fk) else row_get row fk)"
    using apart by (auto simp: row_get_rename_row [OF ren] rename_value_def Some pf columns_apart_def)
  have "inj (ren p)" using ren by (simp add: renaming_def)
  then show ?thesis
    by (auto simp: parent_identity_def Some pf fk dget_rename_ids dget_inj_keys split: option.splits)
qed

lemma identity_values_rename:
  assumes "columns_apart spec"
  shows "identity_values spec (rename_row ren spec row) canonical = identity_values spec row canonical"
proof -
  have "row_get (rename_row ren spec row) k = row_get row k" if "k \<in> set (ts_identity spec)" for k
    using that by (simp add: row_get_def dget_rename_kept [OF assms])
  then have "map (row_get (rename_row ren spec row)) (ts_identity spec) = map (row_get row) (ts_identity spec)"
    "map (\<lambda>f. if f = ''dest_ref'' then d else if f = ''source_ref'' then src else row_get (rename_row ren spec row) f) (ts_identity spec) =
     map (\<lambda>f. if f = ''dest_ref'' then d else if f = ''source_ref'' then src else row_get row f) (ts_identity spec)" for d src
    by simp_all
  then show ?thesis unfolding identity_values_def by presburger
qed

lemma row_identity_rename:
  assumes "renaming ren" and "columns_apart spec" and "row_identity spec row ids = Inr i"
  shows "row_identity spec (rename_row ren spec row) (rename_ids ren ids) = Inr i"
proof -
  obtain p c v where "parent_identity spec row ids = Inr p" and c: "asn_row_identity (ts_table spec) row = Inr c"
    and "identity_values spec row c = Inr v" "i = p @ v"
    using assms(3) by (auto simp: row_identity_def bindE_eq_Inr)
  then show ?thesis
    using asn_row_identity_cong [OF rename_asn_fields [OF assms(2)] c]
    by (simp add: row_identity_def parent_identity_rename [OF assms(1,2)] identity_values_rename [OF assms(2)])
qed

abbreviation renamed_index :: "(string \<Rightarrow> json \<Rightarrow> json) \<Rightarrow> table_spec \<Rightarrow> row_index \<Rightarrow> row_index" where
  "renamed_index ren spec ix \<equiv> map (\<lambda>(i, r). (i, rename_row ren spec r)) ix"

lemma dhas_renamed [simp]: "dhas (map (\<lambda>(i, r). (i, f r)) ix) i = dhas ix i"
  by (induction ix) (auto simp: dhas_def)

lemma index_rows_rename:
  assumes ren: "renaming ren" and apart: "columns_apart spec"
    and "foldE (index_row spec ids) (ix, by_id) rows = Inr (ix', by_id')"
  shows "foldE (index_row spec (rename_ids ren ids)) (renamed_index ren spec ix, map (\<lambda>(k, i). (ren (ts_table spec) k, i)) by_id)
      (map (rename_row ren spec) rows) =
    Inr (renamed_index ren spec ix', map (\<lambda>(k, i). (ren (ts_table spec) k, i)) by_id')"
  using assms(3)
proof (induction rows arbitrary: ix by_id)
  case (Cons row rows)
  obtain i where i: "row_identity spec row ids = Inr i" "\<not> dhas ix i"
    and rest: "foldE (index_row spec ids) (dset ix i row, dset by_id (row_get row ''id'') i) rows = Inr (ix', by_id')"
    using Cons.prems by (auto simp: index_row_def [of spec ids "(ix, by_id)" row] bindE_eq_Inr split: if_splits)
  have inj: "inj (ren (ts_table spec))" using ren by (simp add: renaming_def)
  have "row_get (rename_row ren spec row) ''id'' = ren (ts_table spec) (row_get row ''id'')"
    by (simp add: row_get_rename_row [OF ren] rename_value_def)
  then have "index_row spec (rename_ids ren ids)
      (renamed_index ren spec ix, map (\<lambda>(k, i). (ren (ts_table spec) k, i)) by_id) (rename_row ren spec row) =
    Inr (renamed_index ren spec (dset ix i row), map (\<lambda>(k, i). (ren (ts_table spec) k, i)) (dset by_id (row_get row ''id'') i))"
    using i(2) by (simp add: index_row_def row_identity_rename [OF ren apart i(1)] dset_map_snd_fun dset_inj_keys [OF inj])
  with Cons.IH [OF rest] show ?case by simp
qed simp

lemma table_rows_rename:
  assumes "spec_or_refuse t = Some spec"
  shows "table_rows (rename_fragment ren fragment) t = map (rename_row ren spec) (table_rows fragment t)"
proof -
  have "dget (rename_fragment ren fragment) t = map_option (rename_rows ren t) (dget fragment t)"
    by (simp add: rename_fragment_def dget_map_value)
  then show ?thesis
    using assms by (auto simp: table_rows_def rename_rows_def rows_of_def jdict_of_def split: option.splits)
qed

definition registered :: "table_spec \<Rightarrow> bool" where
  "registered spec = (spec_or_refuse (ts_table spec) = Some spec)"

lemma lineage_registered: "registered spec \<Longrightarrow> list_all registered (identity_lineage spec)"
proof (induction spec rule: identity_lineage.induct)
  case (1 spec)
  show ?case
  proof (cases "parent_spec spec")
    case None
    with 1 show ?thesis by (simp add: identity_lineage.simps [of spec])
  next
    case (Some p)
    have "registered p"
      using Some spec_or_refuse_SomeD by (force simp: parent_spec_def registered_def split: option.splits)
    with 1 Some show ?thesis by (simp add: identity_lineage.simps [of spec])
  qed
qed

definition renamed_indexes :: "(string \<Rightarrow> json \<Rightarrow> json) \<Rightarrow> (string \<times> row_index) list \<Rightarrow> (string \<times> row_index) list" where
  "renamed_indexes ren ixs = map (\<lambda>(t, ix). (t, case spec_or_refuse t of None \<Rightarrow> ix | Some spec \<Rightarrow> renamed_index ren spec ix)) ixs"

lemma index_table_rename:
  assumes ren: "renaming ren" and reg: "registered spec" and "index_table fragment (ixs, ids) spec = Inr (ixs', ids')"
  shows "index_table (rename_fragment ren fragment) (renamed_indexes ren ixs, rename_ids ren ids) spec =
    Inr (renamed_indexes ren ixs', rename_ids ren ids')"
proof -
  let ?t = "ts_table spec"
  have spec: "spec_or_refuse ?t = Some spec" using reg by (simp add: registered_def)
  note apart = columns_apartD [OF spec]
  obtain ix by_id u where v: "validate_asn_rows ?t None (table_rows fragment ?t) = Inr u"
    and f: "foldE (index_row spec ids) ([], []) (table_rows fragment ?t) = Inr (ix, by_id)"
    and out: "ixs' = dset ixs ?t ix" "ids' = dset ids ?t by_id"
    using assms(3) by (auto simp: index_table_def Let_def bindE_eq_Inr)
  have "validate_asn_rows ?t None (map (rename_row ren spec) (table_rows fragment ?t)) = Inr u"
    using v validate_rename [OF apart, of ?t "[]" "table_rows fragment ?t" _ ren] by (auto simp: validate_asn_rows_def bindE_eq_Inr)
  moreover have "dset (renamed_indexes ren ixs) ?t (renamed_index ren spec ix) = renamed_indexes ren ixs'"
    unfolding out(1) by (induction ixs ?t ix rule: dset.induct) (auto simp: renamed_indexes_def spec)
  ultimately show ?thesis
    using index_rows_rename [OF ren apart f]
    by (simp add: index_table_def Let_def table_rows_rename [OF spec] out(2) dset_rename_ids)
qed

lemma index_tables_rename:
  assumes "renaming ren" and "list_all registered specs" and "foldE (index_table fragment) (ixs, ids) specs = Inr (ixs', ids')"
  shows "foldE (index_table (rename_fragment ren fragment)) (renamed_indexes ren ixs, rename_ids ren ids) specs =
    Inr (renamed_indexes ren ixs', rename_ids ren ids')"
  using assms(2,3)
proof (induction specs arbitrary: ixs ids)
  case (Cons spec specs)
  then obtain ixs1 ids1 where one: "index_table fragment (ixs, ids) spec = Inr (ixs1, ids1)"
    and rest: "foldE (index_table fragment) (ixs1, ids1) specs = Inr (ixs', ids')"
    by (auto simp: bindE_eq_Inr)
  from Cons.IH [OF _ rest] Cons.prems(1) index_table_rename [OF assms(1) _ one] show ?case by simp
qed simp

lemma rows_by_identity_rename:
  assumes ren: "renaming ren" and "rows_by_intent_identity fragment t = Inr ix" and spec: "spec_or_refuse t = Some spec"
  shows "rows_by_intent_identity (rename_fragment ren fragment) t = Inr (renamed_index ren spec ix)"
proof -
  have t: "ts_table spec = t" "registered spec" "spec_of t = Inr spec"
    using spec_or_refuse_SomeD [OF spec] spec by (auto simp: registered_def spec_of_def)
  obtain ixs ids where f: "foldE (index_table fragment) ([], []) (identity_lineage spec) = Inr (ixs, ids)"
    and ix: "dget ixs t = Some ix"
    using assms(2) by (auto simp: rows_by_intent_identity_def identity_indexes_def t bindE_eq_Inr split: option.splits)
  have "dget (renamed_indexes ren ixs) t = Some (renamed_index ren spec ix)"
    using ix spec by (simp add: renamed_indexes_def dget_map_value)
  with index_tables_rename [OF ren lineage_registered [OF t(2)] f] show ?thesis
    by (simp add: rows_by_intent_identity_def identity_indexes_def t renamed_indexes_def rename_ids_def)
qed

lemma filter_rename:
  assumes "\<forall>k. k = ''id'' \<or> (\<exists>p. ts_parent spec = Some (p, k)) \<longrightarrow> k \<in> set ex"
  shows "filter (\<lambda>(k, _). k \<notin> set ex) (rename_row ren spec row) = filter (\<lambda>(k, _). k \<notin> set ex) row"
  unfolding rename_row_def
proof (induction row)
  case (Cons kv row)
  obtain k v where [simp]: "kv = (k, v)" by (cases kv)
  have "k \<notin> set ex \<Longrightarrow> rename_value ren spec k v = v"
    using assms by (auto simp: rename_value_def split: option.splits)
  then show ?case using Cons by simp
qed simp

lemma static_entry_rename:
  assumes "spec_or_refuse ''static_route_intent'' = Some spec"
  shows "static_route_entry (rename_row ren spec row) = static_route_entry row"
proof -
  have "ts_parent spec = None" using assms by (auto simp: spec_or_refuse_def SECTION_REGISTRY_def snmp_section_def
    static_route_section_def section_of_def root_table_def)
  then have "dget (rename_row ren spec row) k = dget row k" if "k \<noteq> ''id''" for k
    using that by (simp add: dget_rename_row rename_value_def map_option_case split: option.splits)
  then show ?thesis by (simp add: static_route_entry_def required_def row_get_def)
qed

lemma canonical_peer_id:
  "foldE (canonical_peer_field t i) st fs = Inr out \<Longrightarrow> foldE (canonical_peer_field t i') st fs = Inr out"
proof (induction fs arbitrary: st)
  case (Cons f fs)
  then obtain st1 where "canonical_peer_field t i st f = Inr st1" "foldE (canonical_peer_field t i) st1 fs = Inr out"
    by (auto simp: bindE_eq_Inr)
  moreover from this have "canonical_peer_field t i' st f = Inr st1"
    by (auto simp: canonical_peer_field_def bindE_eq_Inr checked_asn_Inr split: if_splits)
  ultimately show ?case using Cons.IH by simp
qed simp

lemma row_state_rename:
  assumes spec: "spec_or_refuse t = Some spec" and st: "projection_row_state t row = Inr st"
  shows "projection_row_state t (rename_row ren spec row) = Inr st"
proof -
  have s: "spec_of t = Inr spec" using spec by (simp add: spec_of_def)
  note apart = columns_apartD [OF spec]
  have "\<forall>k. k = ''id'' \<or> (\<exists>p. ts_parent spec = Some (p, k)) \<longrightarrow> k \<in> set (excluded_columns spec)"
    by (auto simp: excluded_columns_def)
  note kept = filter_rename [OF this, of ren row]
  consider (sr) "t = ''static_route_intent''" | (router) "t = ''bgp_router_intent''" | (peer) "t = ''bgp_peer_intent''"
    | (redist) "t = ''redistribution_intent''"
    | (other) "t \<noteq> ''static_route_intent''" "t \<noteq> ''bgp_router_intent''" "t \<noteq> ''bgp_peer_intent''" "t \<noteq> ''redistribution_intent''"
    by blast
  then show ?thesis
  proof cases
    case sr
    with st spec show ?thesis by (simp add: projection_row_state_def s static_entry_rename)
  next
    case router
    with st s show ?thesis by (auto simp: projection_row_state_def Let_def kept bindE_eq_Inr checked_asn_Inr)
  next
    case peer
    with st s show ?thesis by (auto simp: projection_row_state_def Let_def kept simp del: foldE.simps intro: canonical_peer_id)
  next
    case redist
    obtain c where c: "asn_row_identity t row = Inr c"
      using st s by (auto simp: projection_row_state_def Let_def bindE_eq_Inr redist)
    with st s asn_row_identity_cong [OF rename_asn_fields [OF apart] c, of ren] show ?thesis
      by (auto simp: projection_row_state_def Let_def kept redist split: option.splits list.splits)
  next
    case other
    with st s show ?thesis by (simp add: projection_row_state_def Let_def kept)
  qed
qed

section \<open>Identities outlive database ids\<close>

text \<open>
  C18. New database ids change nothing.  Indexing a table finds every one of its rows under its
  own identity, in order; and when the rows of the fragment get new ids, consistently in their
  \<open>id\<close> and in the foreign keys of their children, the same identities are found, none of them
  reads as an operator's deletion, and each has the row state it had.
\<close>

theorem identities_survive_new_ids:
  assumes "renaming ren" and ix: "rows_by_intent_identity fragment t = Inr ix"
  shows "\<exists>ix'. rows_by_intent_identity (rename_fragment ren fragment) t = Inr ix' \<and>
     map snd ix = table_rows fragment t \<and> distinct (map fst ix) \<and> map fst ix' = map fst ix \<and>
     (\<forall>i row st. (i, row) \<in> set ix \<and> projection_row_state t row = Inr st \<longrightarrow>
        is_intent_deletion t i ix' = Inr False \<and>
        (\<exists>row'. dget ix' i = Some row' \<and> projection_row_state t row' = Inr st))"
proof -
  obtain spec where spec: "spec_or_refuse t = Some spec"
    using ix by (auto simp: rows_by_intent_identity_def bindE_eq_Inr dest: spec_of_InrD)
  let ?ix' = "renamed_index ren spec ix"
  have keys: "map fst ?ix' = map fst ix" by (induction ix) auto
  have "is_intent_deletion t i ?ix' = Inr False \<and> (\<exists>row'. dget ?ix' i = Some row' \<and> projection_row_state t row' = Inr st)"
    if "(i, row) \<in> set ix" "projection_row_state t row = Inr st" for i row st
  proof -
    have "dget ix i = Some row" using that(1) rows_by_identity_complete(2) [OF ix] by (simp add: dget_def)
    then have "dget ?ix' i = Some (rename_row ren spec row)" by (simp add: dget_map_snd)
    moreover from this have "dhas ?ix' i" unfolding dhas_iff by simp
    ultimately show ?thesis using row_state_rename [OF spec that(2), of ren] spec
      by (simp add: is_intent_deletion_def spec_of_def)
  qed
  then have "\<forall>i row st. (i, row) \<in> set ix \<and> projection_row_state t row = Inr st \<longrightarrow>
      is_intent_deletion t i ?ix' = Inr False \<and> (\<exists>row'. dget ?ix' i = Some row' \<and> projection_row_state t row' = Inr st)"
    by (intro allI impI) (elim conjE, assumption)
  then show ?thesis
    by (intro exI [of _ ?ix'] conjI rows_by_identity_rename [OF assms spec] rows_by_identity_complete [OF ix] keys)
qed

definition sample_bgp :: jdict where
  "sample_bgp = [
     (''bgp_router_intent'', JList [JObj [(''id'', JInt 3), (''device_id'', JInt 1), (''asn'', JStr ''65000'')]]),
     (''bgp_scope_intent'', JList [JObj [(''id'', JInt 5), (''router_id'', JInt 3), (''vrf'', JStr ''blue'')],
        JObj [(''id'', JInt 6), (''router_id'', JInt 3), (''vrf'', JStr [])]]),
     (''bgp_peer_intent'', JList [JObj [(''id'', JInt 8), (''scope_id'', JInt 6), (''peer_address'', JStr ''10.0.0.2''),
        (''remote_as'', JStr ''1.10''), (''local_as'', JNull)]])]"

definition shifted :: "string \<Rightarrow> json \<Rightarrow> json" where
  "shifted t v = (case v of JInt n \<Rightarrow> JInt (n + 40) | _ \<Rightarrow> v)"

lemma shifted_renaming: "renaming shifted"
proof -
  have "x = y" if "shifted t x = shifted t y" for t x y
    using that by (cases x; cases y) (auto simp: shifted_def)
  then have "inj (shifted t)" for t by (rule injI)
  moreover have "shifted t JNull = JNull" for t by (simp add: shifted_def)
  ultimately show ?thesis unfolding renaming_def by blast
qed

theorem identities_survive_new_ids_witness:
  "rows_by_intent_identity (rename_fragment shifted sample_bgp) ''bgp_peer_intent'' =
     Inr [([JStr ''65000'', JStr [], JStr ''10.0.0.2''],
       [(''id'', JInt 48), (''scope_id'', JInt 46), (''peer_address'', JStr ''10.0.0.2''), (''remote_as'', JStr ''1.10''), (''local_as'', JNull)])]"
proof -
  have "rows_by_intent_identity sample_bgp ''bgp_peer_intent'' = Inr [([JStr ''65000'', JStr [], JStr ''10.0.0.2''],
       [(''id'', JInt 8), (''scope_id'', JInt 6), (''peer_address'', JStr ''10.0.0.2''), (''remote_as'', JStr ''1.10''), (''local_as'', JNull)])]"
    by code_simp
  from identities_survive_new_ids [OF shifted_renaming this]
  obtain ix' where ix': "rows_by_intent_identity (rename_fragment shifted sample_bgp) ''bgp_peer_intent'' = Inr ix'"
    "map fst ix' = [[JStr ''65000'', JStr [], JStr ''10.0.0.2'']]" by auto
  have "table_rows (rename_fragment shifted sample_bgp) ''bgp_peer_intent'' =
      [[(''id'', JInt 48), (''scope_id'', JInt 46), (''peer_address'', JStr ''10.0.0.2''), (''remote_as'', JStr ''1.10''), (''local_as'', JNull)]]"
    by code_simp
  with rows_by_identity_complete(1) [OF ix'(1)] have "map snd ix' =
      [[(''id'', JInt 48), (''scope_id'', JInt 46), (''peer_address'', JStr ''10.0.0.2''), (''remote_as'', JStr ''1.10''), (''local_as'', JNull)]]"
    by (rule trans)
  with ix'(2) have "zip (map fst ix') (map snd ix') = [([JStr ''65000'', JStr [], JStr ''10.0.0.2''],
       [(''id'', JInt 48), (''scope_id'', JInt 46), (''peer_address'', JStr ''10.0.0.2''), (''remote_as'', JStr ''1.10''), (''local_as'', JNull)])]"
    by simp
  then show ?thesis unfolding ix'(1) zip_map_fst_snd by simp
qed

end
