(* ===== verification/Push_Receipts.thy ===== *)
theory Push_Receipts
  imports Generation_Chain Intent_Identity
begin

text \<open>
  Receipt admission of keyed intent pushes (\<open>core/receipt.py\<close>), the request flags
  (\<open>core/request_flags.py\<close>) and the delivery seam of the intent endpoints
  (\<open>api/intent_push.py\<close>).  One receipt per device and stream decides whether a delivery is new,
  a replay of the last one, or refused; its private data (the keys that start with an
  underscore) carries the deletion markings a promotion has not consumed yet.

  The request-scoped flags are arguments.  A transaction that raises or is rolled back leaves
  the database as it was.
\<close>

section \<open>Request flags\<close>

definition DELETE_ORIGIN_MARKING :: string where
  "DELETE_ORIGIN_MARKING = ''delete_origin''"

definition DETACH_MARKING :: string where
  "DETACH_MARKING = ''detach''"

definition MIN_PUSH_SEQ :: int where
  "MIN_PUSH_SEQ = 1"

definition MAX_PUSH_SEQ :: int where
  "MAX_PUSH_SEQ = 2 ^ 63 - 1"

definition parse_request_flag :: "string option \<Rightarrow> exn + bool" where
  "parse_request_flag raw = (case raw of None \<Rightarrow> Inr False
     | Some s \<Rightarrow> (let n = map lower_char (strip s) in
         if n \<in> set [''1'', ''true'', ''yes'', ''on''] then Inr True
         else if n \<in> set [''0'', ''false'', ''no'', ''off''] then Inr False
         else Inl (ValueError ''invalid boolean query value'')))"

definition request_marking :: "bool \<Rightarrow> string" where
  "request_marking delete_origin = (if delete_origin then DELETE_ORIGIN_MARKING else DETACH_MARKING)"

section \<open>Receipts and deliveries\<close>

record push_identity =
  pi_seq :: int
  pi_digest :: string
  pi_store_only :: bool
  pi_delete_origin :: bool
  pi_backfill_only :: bool

record delivery =
  dl_stream :: string
  dl_identity :: push_identity

record receipt =
  rc_device :: int
  rc_section :: string
  rc_push_seq :: int
  rc_digest :: string
  rc_store_only :: bool
  rc_delete_origin :: bool
  rc_backfill_only :: bool
  rc_response :: "jdict option"
  rc_status :: int
  rc_generation :: "int option"

definition is_private :: "string \<Rightarrow> bool" where
  "is_private k = starts_with ''_'' k"

definition private_response :: "jdict option \<Rightarrow> jdict" where
  "private_response r = (case r of None \<Rightarrow> [] | Some d \<Rightarrow> filter (\<lambda>(k, _). is_private k) d)"

definition public_response :: "jdict \<Rightarrow> jdict" where
  "public_response d = filter (\<lambda>(k, _). \<not> is_private k) d"

section \<open>Deletion records\<close>

abbreviation DELETIONS_KEY :: string where
  "DELETIONS_KEY \<equiv> ''_promotion_deletions''"

text \<open>The three kinds of durable identity; a boolean is an \<open>int\<close> in Python.\<close>

datatype del_identity = DelRoute string int | DelKey string "json list" | DelId string int

fun del_table :: "del_identity \<Rightarrow> string" where
  "del_table (DelRoute t _) = t"
| "del_table (DelKey t _) = t"
| "del_table (DelId t _) = t"

definition json_int :: "json \<Rightarrow> int option" where
  "json_int v = (case v of JInt i \<Rightarrow> Some i | JBool b \<Rightarrow> Some (if b then 1 else 0) | _ \<Rightarrow> None)"

definition promotion_deletion_identity :: "json \<Rightarrow> del_identity option" where
  "promotion_deletion_identity r = (case r of
       JObj d \<Rightarrow> (case row_get d ''table'' of
           JStr t \<Rightarrow> (case json_int (row_get d ''route_id'') of
               Some i \<Rightarrow> Some (DelRoute t i)
             | None \<Rightarrow> (case row_get d ''key'' of
                 JList ks \<Rightarrow> Some (DelKey t ks)
               | _ \<Rightarrow> map_option (DelId t) (json_int (row_get d ''id''))))
         | _ \<Rightarrow> None)
     | _ \<Rightarrow> None)"

text \<open>The private field is absent, null or an array.\<close>

definition deletion_records :: "jdict \<Rightarrow> json list" where
  "deletion_records d = (case dget d DELETIONS_KEY of Some (JList rs) \<Rightarrow> rs | _ \<Rightarrow> [])"

definition add_record :: "del_identity list \<Rightarrow> (del_identity \<times> json) list \<Rightarrow> json \<Rightarrow> (del_identity \<times> json) list" where
  "add_record retired acc r = (case promotion_deletion_identity r of None \<Rightarrow> acc
     | Some i \<Rightarrow> if i \<in> set retired then acc else dset acc i r)"

definition default_record :: "(del_identity \<times> json) list \<Rightarrow> json \<Rightarrow> (del_identity \<times> json) list" where
  "default_record acc r = (case promotion_deletion_identity r of None \<Rightarrow> acc
     | Some i \<Rightarrow> if dhas acc i then acc else dset acc i r)"

definition merge_private_response :: "jdict \<Rightarrow> jdict \<Rightarrow> del_identity list \<Rightarrow> jdict" where
  "merge_private_response previous response retired =
     (let merged = ddel (dmerge previous response) DELETIONS_KEY;
          by_identity = foldl default_record (foldl (add_record retired) [] (deletion_records previous)) (deletion_records response)
      in if by_identity = [] then merged else dset merged DELETIONS_KEY (JList (map snd by_identity)))"

definition or_blank :: "json \<Rightarrow> json" where
  "or_blank v = (if truthy v then v else JStr [])"

definition route_key :: "jdict \<Rightarrow> json list" where
  "route_key row = map (\<lambda>f. or_blank (row_get row f)) [''vrf'', ''prefix'', ''next_hop'']"

fun record_matches_row :: "del_identity \<Rightarrow> jdict \<Rightarrow> bool" where
  "record_matches_row (DelRoute _ v) row = (json_int (row_get row ''route_id'') = Some v)"
| "record_matches_row (DelKey _ v) row = (route_key row = v)"
| "record_matches_row (DelId _ v) row = (json_int (row_get row ''id'') = Some v)"

definition is_restored :: "jdict \<Rightarrow> jdict \<Rightarrow> del_identity \<Rightarrow> exn + bool" where
  "is_restored authorized desired i =
     bindE (rows_by_intent_identity desired (del_table i)) (\<lambda>desired_rows.
     bindE (rows_by_intent_identity authorized (del_table i)) (\<lambda>authorized_rows.
       Inr ((case i of DelId _ _ \<Rightarrow> False | _ \<Rightarrow> list_ex (\<lambda>(_, row). record_matches_row i row) desired_rows) \<or>
         (case List.find (\<lambda>(_, row). record_matches_row i row) authorized_rows of
            None \<Rightarrow> False | Some (identity, _) \<Rightarrow> dhas desired_rows identity))))"

definition restored_deletion_identities :: "jdict \<Rightarrow> jdict \<Rightarrow> jdict \<Rightarrow> exn + del_identity list" where
  "restored_deletion_identities previous authorized desired =
     foldE (\<lambda>retired r. case promotion_deletion_identity r of None \<Rightarrow> Inr retired
       | Some i \<Rightarrow> bindE (is_restored authorized desired i) (\<lambda>b. Inr (if b then i # retired else retired)))
       [] (deletion_records previous)"

text \<open>The record a disappeared row gets unless the endpoint named one for it.\<close>

definition mark_row ::
  "string \<Rightarrow> string \<Rightarrow> row_index \<Rightarrow> (del_identity \<times> json) list \<Rightarrow> json list \<times> jdict \<Rightarrow> exn + (del_identity \<times> json) list" where
  "mark_row marking table desired_rows explicit ir = (case ir of (identity, row) \<Rightarrow>
     (case json_int (row_get row ''id'') of None \<Rightarrow> Inr explicit
      | Some rid \<Rightarrow> bindE (is_intent_deletion table identity desired_rows) (\<lambda>gone.
          Inr (if \<not> gone \<or>
                 (case json_int (row_get row ''route_id'') of None \<Rightarrow> False | Some v \<Rightarrow> dhas explicit (DelRoute table v)) \<or>
                 dhas explicit (DelKey table (route_key row)) \<or> dhas explicit (DelId table rid)
               then explicit
               else dset explicit (DelId table rid)
                 (JObj [(''table'', JStr table), (''id'', row_get row ''id''), (''marking'', JStr marking)])))))"

definition mark_table ::
  "string \<Rightarrow> jdict \<Rightarrow> jdict \<Rightarrow> (del_identity \<times> json) list \<Rightarrow> string \<Rightarrow> exn + (del_identity \<times> json) list" where
  "mark_table marking desired authorized explicit table =
     bindE (rows_by_intent_identity desired table) (\<lambda>desired_rows.
     bindE (rows_by_intent_identity authorized table) (\<lambda>authorized_rows.
       foldE (mark_row marking table desired_rows) explicit authorized_rows))"

section \<open>The database of one push\<close>

record pending_clear =
  pc_id :: int
  pc_device :: int
  pc_stream :: string
  pc_provenance :: string
  pc_revision :: int

record push_db =
  p_store :: store
  p_receipts :: "receipt list"
  p_clears :: "pending_clear list"
  p_next_clear :: int
  p_tabs :: live_tables
  p_ned :: "int \<Rightarrow> string option"

definition snapshot_of :: "push_db \<Rightarrow> int \<Rightarrow> string \<Rightarrow> exn + jdict" where
  "snapshot_of db d stream = snapshot_stream (p_tabs db) (p_ned db d) d stream"

definition record_projection_deletions ::
  "push_db \<Rightarrow> int \<Rightarrow> delivery \<Rightarrow> receipt \<Rightarrow> jdict \<Rightarrow> exn + jdict \<times> del_identity list" where
  "record_projection_deletions db d dl rc response =
     (case Option.bind (stream_at (p_store db) d (dl_stream dl)) authorized_fragment of
        None \<Rightarrow> Inr (response, [])
      | Some doc \<Rightarrow>
          bindE (snapshot_of db d (dl_stream dl)) (\<lambda>desired.
          let authorized = fragment_tables (Some doc) in
          bindE (restored_deletion_identities (private_response (rc_response rc)) authorized desired) (\<lambda>retired.
          bindE (foldE (mark_table (request_marking (rc_delete_origin rc)) desired authorized)
                   (foldl (add_record []) [] (deletion_records response)) (map fst authorized)) (\<lambda>explicit.
            Inr (if explicit = [] then response else dset response DELETIONS_KEY (JList (map snd explicit)), retired)))))"

section \<open>Admission\<close>

definition for_stream :: "int \<Rightarrow> string \<Rightarrow> receipt \<Rightarrow> bool" where
  "for_stream d stream r = (rc_device r = d \<and> rc_section r = stream)"

definition latest_receipt :: "receipt list \<Rightarrow> int \<Rightarrow> string \<Rightarrow> receipt option" where
  "latest_receipt rs d stream = List.find (for_stream d stream) rs"

definition latest_receipts :: "receipt list \<Rightarrow> int \<Rightarrow> string list \<Rightarrow> (string \<times> receipt) list" where
  "latest_receipts rs d streams = map (\<lambda>r. (rc_section r, r)) (filter (\<lambda>r. rc_device r = d \<and> rc_section r \<in> set streams) rs)"

definition receipt_mode :: "receipt \<Rightarrow> bool \<times> bool \<times> bool" where
  "receipt_mode r = (rc_store_only r, rc_delete_origin r, rc_backfill_only r)"

definition identity_mode :: "push_identity \<Rightarrow> bool \<times> bool \<times> bool" where
  "identity_mode i = (pi_store_only i, pi_delete_origin i, pi_backfill_only i)"

definition new_receipt :: "int \<Rightarrow> delivery \<Rightarrow> receipt" where
  "new_receipt d dl = (let i = dl_identity dl in
     \<lparr>rc_device = d, rc_section = dl_stream dl, rc_push_seq = pi_seq i, rc_digest = pi_digest i,
      rc_store_only = pi_store_only i, rc_delete_origin = pi_delete_origin i, rc_backfill_only = pi_backfill_only i,
      rc_response = None, rc_status = 200, rc_generation = None\<rparr>)"

definition advanced_receipt :: "delivery \<Rightarrow> receipt \<Rightarrow> receipt" where
  "advanced_receipt dl r = (new_receipt (rc_device r) dl)\<lparr>rc_section := rc_section r,
     rc_response := (case private_response (rc_response r) of [] \<Rightarrow> None | p \<Rightarrow> Some p)\<rparr>"

definition admit_push ::
  "receipt list \<Rightarrow> int \<Rightarrow> delivery \<Rightarrow> exn + receipt list \<times> (jdict option \<times> int) option" where
  "admit_push rs d dl = (let stream = dl_stream dl; i = dl_identity dl in
     if stream \<notin> set INTENT_STREAMS then Inl (RuntimeError ''not an in-protocol intent stream'')
     else case latest_receipt rs d stream of
       None \<Rightarrow> Inr (rs @ [new_receipt d dl], None)
     | Some r \<Rightarrow>
         if rc_push_seq r = pi_seq i then
           (if rc_digest r = pi_digest i \<and> receipt_mode r = identity_mode i
            then Inr (rs, Some (rc_response r, rc_status r))
            else Inl (PushSequenceConflict ''sequence_reuse''
              [(''section'', JStr stream), (''push_seq'', JInt (pi_seq i)), (''admitted_digest'', JStr (rc_digest r)),
               (''admitted_store_only'', JBool (rc_store_only r)), (''admitted_delete_origin'', JBool (rc_delete_origin r)),
               (''admitted_backfill_only'', JBool (rc_backfill_only r))]))
         else if pi_seq i < rc_push_seq r then Inl (PushSequenceConflict ''stale''
              [(''section'', JStr stream), (''push_seq'', JInt (pi_seq i)), (''admitted_push_seq'', JInt (rc_push_seq r))])
         else Inr (upd_where (for_stream d stream) (advanced_receipt dl) rs, None))"

definition consume_promotion_provenance :: "receipt \<Rightarrow> receipt" where
  "consume_promotion_provenance r = (case rc_response r of
     Some d \<Rightarrow> if dhas d DELETIONS_KEY then r\<lparr>rc_response := Some (ddel d DELETIONS_KEY)\<rparr> else r | None \<Rightarrow> r)"

definition carried_deletions :: "jdict \<Rightarrow> del_identity list \<Rightarrow> json list" where
  "carried_deletions previous retired = filter (\<lambda>r. case promotion_deletion_identity r of
     None \<Rightarrow> False | Some i \<Rightarrow> i \<notin> set retired) (deletion_records previous)"

text \<open>
  \<open>enqueued\<close> is the last generation the request enqueued; an explicit id wins.
\<close>

definition record_response ::
  "push_db \<Rightarrow> int \<Rightarrow> delivery \<Rightarrow> jdict \<Rightarrow> int option \<Rightarrow> int option \<Rightarrow> int \<Rightarrow> exn + push_db" where
  "record_response db d dl response generation enqueued code =
     (case latest_receipt (p_receipts db) d (dl_stream dl) of
        None \<Rightarrow> Inl (RuntimeError ''no admitted receipt'')
      | Some r \<Rightarrow>
          if rc_push_seq r \<noteq> pi_seq (dl_identity dl) then Inl (RuntimeError ''no admitted receipt'')
          else let previous = private_response (rc_response r) in
            bindE (record_projection_deletions db d dl r response) (\<lambda>(response', retired).
            let merged = r\<lparr>rc_response := Some (merge_private_response previous response' retired)\<rparr>;
                promoted = (case stream_at (p_store db) d (dl_stream dl) of None \<Rightarrow> False
                  | Some row \<Rightarrow> s_desired row \<le> s_authorized row) in
            if promoted \<and> carried_deletions previous retired \<noteq> [] then Inl (PromotionProvenanceUnexecutable (dl_stream dl))
            else let final = (if promoted then consume_promotion_provenance merged else merged)
                     \<lparr>rc_status := code, rc_generation := (case generation of Some g \<Rightarrow> Some g | None \<Rightarrow> enqueued)\<rparr> in
              Inr (db\<lparr>p_receipts := upd_where (for_stream d (dl_stream dl)) (\<lambda>_. final) (p_receipts db)\<rparr>)))"

section \<open>Delivery\<close>

definition BACKFILL_ONLY_STREAM :: string where
  "BACKFILL_ONLY_STREAM = ''static_route''"

text \<open>
  The matched route's path, the header value and the parsed body's digest identify a delivery.
  A header outside the declared domain and an unsupported mode are refused with 422.
\<close>

definition get_intent_delivery ::
  "string \<Rightarrow> int option \<Rightarrow> string \<Rightarrow> bool \<Rightarrow> bool \<Rightarrow> bool \<Rightarrow> exn + delivery" where
  "get_intent_delivery path header digest store_only delete_origin backfill_only =
     (case (header, intent_endpoint path) of
        (None, _) \<Rightarrow> Inl (ValueError ''X-Push-Seq is required'')
      | (_, None) \<Rightarrow> Inl (KeyError path)
      | (Some seq, Some (stream, _)) \<Rightarrow>
          if seq < MIN_PUSH_SEQ \<or> MAX_PUSH_SEQ < seq then Inl (ValueError ''X-Push-Seq is out of range'')
          else if backfill_only \<and> stream \<noteq> BACKFILL_ONLY_STREAM then Inl (ValueError ''backfill_only_unsupported'')
          else Inr \<lparr>dl_stream = stream, dl_identity = \<lparr>pi_seq = seq, pi_digest = digest, pi_store_only = store_only,
                 pi_delete_origin = delete_origin, pi_backfill_only = backfill_only\<rparr>\<rparr>)"

text \<open>\<open>None\<close> means "do the work"; a replay is the status and the public part of the stored response.\<close>

definition admit_or_replay :: "push_db \<Rightarrow> int \<Rightarrow> delivery \<Rightarrow> exn + push_db \<times> (int \<times> jdict) option" where
  "admit_or_replay db d dl = bindE (admit_push (p_receipts db) d dl) (\<lambda>(rs, admitted).
     case admitted of Some (Some stored, code) \<Rightarrow> Inr (db, Some (code, public_response stored))
     | _ \<Rightarrow> Inr (db\<lparr>p_receipts := rs\<rparr>, None))"

definition check_authorized :: "push_db \<Rightarrow> int \<Rightarrow> string \<Rightarrow> exn + unit" where
  "check_authorized db d stream = (case stream_at (p_store db) d stream of None \<Rightarrow> Inr ()
     | Some row \<Rightarrow> let tables = fragment_tables (s_document row) in
         foldE (\<lambda>_ t. bindE (lift_asn (validate_asn_rows t (Some (p_ned db d)) (table_rows tables t))) (\<lambda>_.
           bindE (rows_by_intent_identity tables t) (\<lambda>_. Inr ()))) () (map fst tables))"

definition begin_delivery :: "push_db \<Rightarrow> int \<Rightarrow> delivery \<Rightarrow> exn + push_db \<times> (int \<times> jdict) option" where
  "begin_delivery db d dl =
     bindE (note_write d (dl_stream dl) (Some (pi_seq (dl_identity dl))) (p_store db)) (\<lambda>(s, _).
     let db1 = db\<lparr>p_store := s\<rparr> in
     bindE (if dl_stream dl \<in> set [''bgp'', ''ospf'', ''isis''] then bindE (snapshot_of db1 d (dl_stream dl)) (\<lambda>_. Inr ()) else Inr ()) (\<lambda>_.
     bindE (check_authorized db1 d (dl_stream dl)) (\<lambda>_.
     admit_or_replay db1 d dl)))"

text \<open>
  One intent PUT: the endpoint's own reads and writes are \<open>work\<close>, which returns the response
  and the last generation it enqueued.  A replay is answered from the receipt and rolled back.
\<close>

type_synonym endpoint_work = "push_db \<Rightarrow> exn + push_db \<times> jdict \<times> int option"

definition deliver :: "endpoint_work \<Rightarrow> int \<Rightarrow> delivery \<Rightarrow> push_db \<Rightarrow> exn + push_db \<times> bool \<times> int \<times> jdict" where
  "deliver work d dl db = bindE (begin_delivery db d dl) (\<lambda>(db1, replay).
     case replay of Some (code, body) \<Rightarrow> Inr (db, False, code, body)
     | None \<Rightarrow> bindE (work db1) (\<lambda>(db2, result, enqueued).
         bindE (record_response db2 d dl result None enqueued 200) (\<lambda>db3.
           Inr (db3, True, 200, public_response result))))"

section \<open>The public part of a response\<close>

lemma public_dset: "public_response (dset d k v) = (if is_private k then public_response d else dset (public_response d) k v)"
  by (induction d k v rule: dset.induct) (auto simp: public_response_def)

lemma public_dmerge: "public_response (dmerge a b) = dmerge (public_response a) (public_response b)"
proof (induction b arbitrary: a)
  case Nil
  then show ?case by (simp add: dmerge_def public_response_def)
next
  case (Cons kv b)
  obtain k v where [simp]: "kv = (k, v)" by (cases kv)
  have "public_response ((k, v) # b) = (if is_private k then public_response b else (k, v) # public_response b)"
    by (simp add: public_response_def)
  then show ?case using Cons by (simp add: dmerge_Cons public_dset)
qed

lemma public_private [simp]: "public_response (private_response r) = []"
  by (auto simp: public_response_def private_response_def filter_empty_conv split: option.splits)

lemma is_private_deletions [simp]: "is_private DELETIONS_KEY"
  by (simp add: is_private_def starts_with_def)

lemma public_ddel [simp]: "public_response (ddel d DELETIONS_KEY) = public_response d"
proof -
  have "\<And>k. \<not> is_private k \<Longrightarrow> k \<noteq> DELETIONS_KEY" using is_private_deletions by blast
  then show ?thesis by (auto simp: public_response_def ddel_def intro!: filter_cong)
qed

lemma dmerge_fresh: "distinct (map fst a @ map fst b) \<Longrightarrow> dmerge a b = a @ b"
proof (induction b arbitrary: a)
  case (Cons kv b)
  obtain k v where [simp]: "kv = (k, v)" by (cases kv)
  have "dset a k v = a @ [(k, v)]" using Cons.prems by (intro dset_fresh) (auto simp: dhas_def)
  with Cons show ?case by (simp add: dmerge_Cons)
qed (simp add: dmerge_def)

lemma public_merge:
  assumes "distinct (map fst response)"
  shows "public_response (merge_private_response (private_response p) response retired) = public_response response"
proof -
  have "distinct (map fst (public_response response))"
    using assms by (simp add: public_response_def distinct_map_filter)
  then have "dmerge [] (public_response response) = public_response response" using dmerge_fresh [of "[]"] by simp
  then show ?thesis by (simp add: merge_private_response_def Let_def public_dset public_dmerge)
qed

section \<open>Receipts under admission\<close>

lemma latest_receiptD: "latest_receipt rs d stream = Some r \<Longrightarrow> r \<in> set rs \<and> rc_device r = d \<and> rc_section r = stream"
  by (auto simp: latest_receipt_def for_stream_def find_Some_iff)

lemma latest_upd:
  assumes "\<And>r. for_stream d stream (f r) = for_stream d stream r"
  shows "latest_receipt (upd_where (for_stream d stream) f rs) d stream = map_option f (latest_receipt rs d stream)"
  using assms unfolding latest_receipt_def by (induction rs) auto

lemma latest_upd_other:
  assumes "(d', stream') \<noteq> (d, stream)" and "\<And>r. for_stream d stream r \<Longrightarrow> for_stream d stream (f r)"
  shows "latest_receipt (upd_where (for_stream d stream) f rs) d' stream' = latest_receipt rs d' stream'"
proof -
  have "\<not> for_stream d' stream' r" if "for_stream d stream r" for r
    using that assms(1) by (auto simp: for_stream_def)
  then show ?thesis using assms(2) unfolding latest_receipt_def by (induction rs) auto
qed

lemma advanced_receipt_cols [simp]:
  "rc_device (advanced_receipt dl r) = rc_device r" "rc_section (advanced_receipt dl r) = rc_section r"
  "rc_push_seq (advanced_receipt dl r) = pi_seq (dl_identity dl)" "rc_digest (advanced_receipt dl r) = pi_digest (dl_identity dl)"
  "receipt_mode (advanced_receipt dl r) = identity_mode (dl_identity dl)"
  by (simp_all add: advanced_receipt_def new_receipt_def Let_def receipt_mode_def identity_mode_def)

lemma new_receipt_cols [simp]:
  "rc_device (new_receipt d dl) = d" "rc_section (new_receipt d dl) = dl_stream dl"
  "rc_push_seq (new_receipt d dl) = pi_seq (dl_identity dl)" "rc_digest (new_receipt d dl) = pi_digest (dl_identity dl)"
  "receipt_mode (new_receipt d dl) = identity_mode (dl_identity dl)"
  by (simp_all add: new_receipt_def Let_def receipt_mode_def identity_mode_def)

lemma admit_push_new:
  assumes "admit_push rs d dl = Inr (rs', None)"
  shows "\<exists>r. latest_receipt rs' d (dl_stream dl) = Some r \<and> rc_push_seq r = pi_seq (dl_identity dl) \<and>
      rc_digest r = pi_digest (dl_identity dl) \<and> receipt_mode r = identity_mode (dl_identity dl)"
    and "\<forall>r. latest_receipt rs d (dl_stream dl) = Some r \<longrightarrow> rc_push_seq r < pi_seq (dl_identity dl)"
    and "\<And>d' st. (d', st) \<noteq> (d, dl_stream dl) \<Longrightarrow> latest_receipt rs' d' st = latest_receipt rs d' st"
    and "dl_stream dl \<in> set INTENT_STREAMS"
proof -
  let ?l = "latest_receipt rs d (dl_stream dl)"
  show member: "dl_stream dl \<in> set INTENT_STREAMS"
    using assms by (auto simp: admit_push_def Let_def split: if_splits)
  consider (first) "?l = None" "rs' = rs @ [new_receipt d dl]"
    | (next_one) r where "?l = Some r" "rc_push_seq r < pi_seq (dl_identity dl)"
        "rs' = upd_where (for_stream d (dl_stream dl)) (advanced_receipt dl) rs"
    using assms member by (cases ?l) (auto simp: admit_push_def Let_def split: if_splits)
  note cases = this
  from cases show "\<exists>r. latest_receipt rs' d (dl_stream dl) = Some r \<and> rc_push_seq r = pi_seq (dl_identity dl) \<and>
      rc_digest r = pi_digest (dl_identity dl) \<and> receipt_mode r = identity_mode (dl_identity dl)"
  proof cases
    case first
    then have "latest_receipt rs' d (dl_stream dl) = Some (new_receipt d dl)"
      unfolding latest_receipt_def by (induction rs arbitrary: rs') (auto simp: for_stream_def split: if_splits)
    then show ?thesis by simp
  next
    case (next_one r)
    then show ?thesis by (simp add: latest_upd for_stream_def)
  qed
  from cases show "\<forall>r. ?l = Some r \<longrightarrow> rc_push_seq r < pi_seq (dl_identity dl)" by cases auto
  fix d' st
  assume other: "(d', st) \<noteq> (d, dl_stream dl)"
  from cases show "latest_receipt rs' d' st = latest_receipt rs d' st"
  proof cases
    case first
    then show ?thesis
      using other unfolding latest_receipt_def by (induction rs arbitrary: rs') (auto simp: for_stream_def split: if_splits)
  next
    case (next_one r)
    show ?thesis unfolding next_one(3) by (rule latest_upd_other [OF other]) (simp add: for_stream_def)
  qed
qed

lemma latest_upd_const:
  assumes "latest_receipt rs d stream = Some r" and "for_stream d stream r'"
  shows "latest_receipt (upd_where (for_stream d stream) (\<lambda>_. r') rs) d stream = Some r'"
  using assms unfolding latest_receipt_def by (induction rs) (auto split: if_splits)

lemma consume_cols [simp]:
  "rc_device (consume_promotion_provenance r) = rc_device r" "rc_section (consume_promotion_provenance r) = rc_section r"
  "rc_push_seq (consume_promotion_provenance r) = rc_push_seq r" "rc_digest (consume_promotion_provenance r) = rc_digest r"
  "receipt_mode (consume_promotion_provenance r) = receipt_mode r"
  by (auto simp: consume_promotion_provenance_def receipt_mode_def split: option.splits)

lemma receipt_mode_upd [simp]:
  "receipt_mode (r\<lparr>rc_response := x\<rparr>) = receipt_mode r"
  "receipt_mode (r\<lparr>rc_status := c, rc_generation := g\<rparr>) = receipt_mode r"
  by (simp_all add: receipt_mode_def)

lemma consume_response:
  "rc_response r = Some d \<Longrightarrow> \<exists>d'. rc_response (consume_promotion_provenance r) = Some d' \<and> public_response d' = public_response d"
  by (auto simp: consume_promotion_provenance_def)

lemma record_deletions_public:
  assumes "record_projection_deletions db d dl r response = Inr (response', retired)"
  shows "response' = response \<or> (\<exists>rs. response' = dset response DELETIONS_KEY (JList rs))"
  using assms by (auto simp: record_projection_deletions_def Let_def bindE_eq_Inr split: option.splits if_splits)

text \<open>What a recorded response leaves in the receipt.\<close>

lemma record_response_receipt:
  assumes "record_response db d dl response g enq code = Inr db'"
  obtains r response' retired final where "latest_receipt (p_receipts db) d (dl_stream dl) = Some r"
    "rc_push_seq r = pi_seq (dl_identity dl)"
    "record_projection_deletions db d dl r response = Inr (response', retired)"
    "final = r\<lparr>rc_response := Some (merge_private_response (private_response (rc_response r)) response' retired)\<rparr> \<or>
     final = consume_promotion_provenance
       (r\<lparr>rc_response := Some (merge_private_response (private_response (rc_response r)) response' retired)\<rparr>)"
    "(\<forall>row. stream_at (p_store db) d (dl_stream dl) = Some row \<longrightarrow> s_authorized row < s_desired row) \<Longrightarrow>
     final = r\<lparr>rc_response := Some (merge_private_response (private_response (rc_response r)) response' retired)\<rparr>"
    "\<exists>gen. db' = db\<lparr>p_receipts := upd_where (for_stream d (dl_stream dl))
       (\<lambda>_. final\<lparr>rc_status := code, rc_generation := gen\<rparr>) (p_receipts db)\<rparr>"
proof -
  obtain r where r: "latest_receipt (p_receipts db) d (dl_stream dl) = Some r" "rc_push_seq r = pi_seq (dl_identity dl)"
    using assms by (auto simp: record_response_def split: option.splits if_splits)
  then obtain response' retired where rd: "record_projection_deletions db d dl r response = Inr (response', retired)"
    using assms by (auto simp: record_response_def Let_def bindE_eq_Inr)
  let ?m = "r\<lparr>rc_response := Some (merge_private_response (private_response (rc_response r)) response' retired)\<rparr>"
  let ?p = "case stream_at (p_store db) d (dl_stream dl) of None \<Rightarrow> False | Some row \<Rightarrow> s_desired row \<le> s_authorized row"
  have db': "\<exists>gen. db' = db\<lparr>p_receipts := upd_where (for_stream d (dl_stream dl))
       (\<lambda>_. (if ?p then consume_promotion_provenance ?m else ?m)\<lparr>rc_status := code, rc_generation := gen\<rparr>) (p_receipts db)\<rparr>"
    using assms r rd by (auto simp: record_response_def Let_def split: if_splits)
  show thesis
    by (rule that [OF r rd _ _ db']) (auto split: option.splits)
qed

lemma record_response_effect:
  assumes "record_response db d dl response g enq code = Inr db'"
  shows "\<exists>r r' resp. latest_receipt (p_receipts db) d (dl_stream dl) = Some r \<and>
     latest_receipt (p_receipts db') d (dl_stream dl) = Some r' \<and> rc_push_seq r = pi_seq (dl_identity dl) \<and>
     rc_push_seq r' = rc_push_seq r \<and> rc_digest r' = rc_digest r \<and> receipt_mode r' = receipt_mode r \<and> rc_status r' = code \<and>
     rc_response r' = Some resp \<and> (distinct (map fst response) \<longrightarrow> public_response resp = public_response response)"
    and "\<And>d' st. (d', st) \<noteq> (d, dl_stream dl) \<Longrightarrow> latest_receipt (p_receipts db') d' st = latest_receipt (p_receipts db) d' st"
proof -
  from assms obtain r response' retired final gen where r: "latest_receipt (p_receipts db) d (dl_stream dl) = Some r"
    "rc_push_seq r = pi_seq (dl_identity dl)"
    and rd: "record_projection_deletions db d dl r response = Inr (response', retired)"
    and final: "final = r\<lparr>rc_response := Some (merge_private_response (private_response (rc_response r)) response' retired)\<rparr> \<or>
     final = consume_promotion_provenance
       (r\<lparr>rc_response := Some (merge_private_response (private_response (rc_response r)) response' retired)\<rparr>)"
    and db': "db' = db\<lparr>p_receipts := upd_where (for_stream d (dl_stream dl))
       (\<lambda>_. final\<lparr>rc_status := code, rc_generation := gen\<rparr>) (p_receipts db)\<rparr>"
    by (elim record_response_receipt) blast
  let ?f = "final\<lparr>rc_status := code, rc_generation := gen\<rparr>"
  have cols: "rc_device final = d" "rc_section final = dl_stream dl" "rc_push_seq final = rc_push_seq r"
    "rc_digest final = rc_digest r" "receipt_mode final = receipt_mode r"
    using final latest_receiptD [OF r(1)] by auto
  have pub: "distinct (map fst response) \<Longrightarrow>
      public_response (merge_private_response (private_response (rc_response r)) response' retired) = public_response response"
    using record_deletions_public [OF rd] by (auto simp: public_merge public_dset)
  obtain resp where resp: "rc_response final = Some resp"
    "distinct (map fst response) \<longrightarrow> public_response resp = public_response response"
    using final pub consume_response [of "r\<lparr>rc_response := Some (merge_private_response (private_response (rc_response r)) response' retired)\<rparr>"]
    by fastforce
  have own: "for_stream d (dl_stream dl) ?f" using cols by (simp add: for_stream_def)
  have new: "latest_receipt (p_receipts db') d (dl_stream dl) = Some ?f"
    using latest_upd_const [OF r(1) own] by (simp add: db')
  show "\<exists>r r' resp. latest_receipt (p_receipts db) d (dl_stream dl) = Some r \<and>
     latest_receipt (p_receipts db') d (dl_stream dl) = Some r' \<and> rc_push_seq r = pi_seq (dl_identity dl) \<and>
     rc_push_seq r' = rc_push_seq r \<and> rc_digest r' = rc_digest r \<and> receipt_mode r' = receipt_mode r \<and> rc_status r' = code \<and>
     rc_response r' = Some resp \<and> (distinct (map fst response) \<longrightarrow> public_response resp = public_response response)"
    using r new cols resp by (intro exI [of _ r] exI [of _ ?f] exI [of _ resp]) simp
  show "latest_receipt (p_receipts db') d' st = latest_receipt (p_receipts db) d' st" if "(d', st) \<noteq> (d, dl_stream dl)" for d' st
    unfolding db' using latest_upd_other [OF that, of "\<lambda>_. ?f"] own by simp
qed

section \<open>Runs of deliveries\<close>

text \<open>
  A committed receipt has the response of its push.  An endpoint's own work does not touch the
  receipts; another transaction may only rewrite responses (a promotion consumes markings).
\<close>

definition recorded :: "push_db \<Rightarrow> bool" where
  "recorded db = (\<forall>d stream r. latest_receipt (p_receipts db) d stream = Some r \<longrightarrow> rc_response r \<noteq> None)"

definition leaves_receipts :: "endpoint_work \<Rightarrow> bool" where
  "leaves_receipts work = (\<forall>db db' result enqueued. work db = Inr (db', result, enqueued) \<longrightarrow> p_receipts db' = p_receipts db)"

definition same_pushes :: "push_db \<Rightarrow> push_db \<Rightarrow> bool" where
  "same_pushes db db' = (\<forall>d stream. rel_option (\<lambda>r r'. rc_push_seq r' = rc_push_seq r \<and> (rc_response r \<noteq> None \<longrightarrow> rc_response r' \<noteq> None))
     (latest_receipt (p_receipts db) d stream) (latest_receipt (p_receipts db') d stream))"

datatype push_event = Deliver endpoint_work int delivery | Elsewhere "push_db \<Rightarrow> push_db"

fun push_step :: "push_event \<Rightarrow> push_db \<Rightarrow> push_db \<times> (int \<times> string \<times> int) list" where
  "push_step (Deliver work d dl) db = (case deliver work d dl db of
     Inl _ \<Rightarrow> (db, [])
   | Inr (db', worked, _) \<Rightarrow> (db', if worked then [(d, dl_stream dl, pi_seq (dl_identity dl))] else []))"
| "push_step (Elsewhere f) db = (f db, [])"

fun event_ok :: "push_event \<Rightarrow> bool" where
  "event_ok (Deliver work _ _) = leaves_receipts work"
| "event_ok (Elsewhere f) = (\<forall>db. same_pushes db (f db))"

fun run_pushes :: "push_event list \<Rightarrow> push_db \<Rightarrow> push_db \<times> (int \<times> string \<times> int) list" where
  "run_pushes [] db = (db, [])"
| "run_pushes (e # es) db = (case push_step e db of (db1, log) \<Rightarrow> (case run_pushes es db1 of (db2, rest) \<Rightarrow> (db2, log @ rest)))"

definition admitted :: "int \<Rightarrow> string \<Rightarrow> (int \<times> string \<times> int) list \<Rightarrow> int list" where
  "admitted d stream log = map (\<lambda>(_, _, n). n) (filter (\<lambda>(d', st, _). d' = d \<and> st = stream) log)"

lemma begin_delivery_new:
  assumes "begin_delivery db d dl = Inr (db1, None)" and "recorded db"
  shows "admit_push (p_receipts db) d dl = Inr (p_receipts db1, None)"
proof -
  obtain s rs a where a: "admit_push (p_receipts db) d dl = Inr (rs, a)"
    and db1: "admit_or_replay (db\<lparr>p_store := s\<rparr>) d dl = Inr (db1, None)"
    using assms(1) by (auto simp: begin_delivery_def Let_def bindE_eq_Inr admit_or_replay_def)
  have "a = None"
  proof (rule ccontr)
    assume "a \<noteq> None"
    then obtain r where "latest_receipt (p_receipts db) d (dl_stream dl) = Some r" "a = Some (rc_response r, rc_status r)"
      using a by (auto simp: admit_push_def Let_def split: option.splits if_splits)
    moreover from this(1) have "rc_response r \<noteq> None" using assms(2) unfolding recorded_def by blast
    ultimately show False using db1 a by (auto simp: admit_or_replay_def)
  qed
  with a db1 show ?thesis by (auto simp: admit_or_replay_def)
qed

lemma begin_delivery_replay:
  assumes "begin_delivery db d dl = Inr x" and "latest_receipt (p_receipts db) d (dl_stream dl) = Some r"
    and "rc_push_seq r = pi_seq (dl_identity dl)" and "rc_digest r = pi_digest (dl_identity dl)"
    and "receipt_mode r = identity_mode (dl_identity dl)" and "rc_response r = Some resp"
  shows "\<exists>db1. x = (db1, Some (rc_status r, public_response resp))"
  using assms
  by (auto simp: begin_delivery_def Let_def bindE_eq_Inr admit_or_replay_def admit_push_def split: if_splits)

text \<open>What an admitted delivery leaves behind.\<close>

lemma deliver_worked:
  assumes "deliver work d dl db = Inr (db3, True, code, body)" and "leaves_receipts work" and "recorded db"
  shows "\<exists>r resp response. latest_receipt (p_receipts db3) d (dl_stream dl) = Some r \<and> rc_push_seq r = pi_seq (dl_identity dl) \<and>
      rc_digest r = pi_digest (dl_identity dl) \<and> receipt_mode r = identity_mode (dl_identity dl) \<and> rc_status r = code \<and>
      rc_response r = Some resp \<and> body = public_response response \<and>
      (distinct (map fst response) \<longrightarrow> public_response resp = public_response response) \<and>
      (\<exists>db1 db2 enq. begin_delivery db d dl = Inr (db1, None) \<and> work db1 = Inr (db2, response, enq))"
    and "\<forall>r. latest_receipt (p_receipts db) d (dl_stream dl) = Some r \<longrightarrow> rc_push_seq r < pi_seq (dl_identity dl)"
    and "\<And>d' st. (d', st) \<noteq> (d, dl_stream dl) \<Longrightarrow> latest_receipt (p_receipts db3) d' st = latest_receipt (p_receipts db) d' st"
    and "dl_stream dl \<in> set INTENT_STREAMS"
proof -
  obtain db1 db2 response enq where b: "begin_delivery db d dl = Inr (db1, None)" and w: "work db1 = Inr (db2, response, enq)"
    and rr: "record_response db2 d dl response None enq 200 = Inr db3" and out: "code = 200" "body = public_response response"
    using assms(1) by (fastforce simp: deliver_def bindE_eq_Inr split: option.splits)
  note adm = admit_push_new [OF begin_delivery_new [OF b assms(3)]]
  have same: "p_receipts db2 = p_receipts db1" using assms(2) w by (auto simp: leaves_receipts_def)
  from adm(1) obtain r1 where r1: "latest_receipt (p_receipts db1) d (dl_stream dl) = Some r1" "rc_push_seq r1 = pi_seq (dl_identity dl)"
    "rc_digest r1 = pi_digest (dl_identity dl)" "receipt_mode r1 = identity_mode (dl_identity dl)" by blast
  from record_response_effect(1) [OF rr] r1 same obtain r' resp where
    "latest_receipt (p_receipts db3) d (dl_stream dl) = Some r'" "rc_push_seq r' = rc_push_seq r1" "rc_digest r' = rc_digest r1"
    "receipt_mode r' = receipt_mode r1" "rc_status r' = 200" "rc_response r' = Some resp"
    "distinct (map fst response) \<longrightarrow> public_response resp = public_response response" by auto
  with r1 out b w show "\<exists>r resp response. latest_receipt (p_receipts db3) d (dl_stream dl) = Some r \<and> rc_push_seq r = pi_seq (dl_identity dl) \<and>
      rc_digest r = pi_digest (dl_identity dl) \<and> receipt_mode r = identity_mode (dl_identity dl) \<and> rc_status r = code \<and>
      rc_response r = Some resp \<and> body = public_response response \<and>
      (distinct (map fst response) \<longrightarrow> public_response resp = public_response response) \<and>
      (\<exists>db1 db2 enq. begin_delivery db d dl = Inr (db1, None) \<and> work db1 = Inr (db2, response, enq))"
    by (intro exI [of _ r'] exI [of _ resp] exI [of _ response] conjI exI [of _ db1] exI [of _ db2] exI [of _ enq]) simp_all
  show "\<forall>r. latest_receipt (p_receipts db) d (dl_stream dl) = Some r \<longrightarrow> rc_push_seq r < pi_seq (dl_identity dl)"
    "dl_stream dl \<in> set INTENT_STREAMS" by (rule adm)+
  show "latest_receipt (p_receipts db3) d' st = latest_receipt (p_receipts db) d' st" if "(d', st) \<noteq> (d, dl_stream dl)" for d' st
    using record_response_effect(2) [OF rr that] adm(3) [OF that] same by simp
qed

lemma deliver_replayed: "deliver work d dl db = Inr (db', False, x) \<Longrightarrow> db' = db"
  by (auto simp: deliver_def bindE_eq_Inr split: option.splits)

lemma recorded_step:
  assumes "event_ok e" and "recorded db"
  shows "recorded (fst (push_step e db))"
proof (cases e)
  case (Elsewhere f)
  have same: "same_pushes db (f db)" using assms(1) Elsewhere by simp
  have "rc_response r' \<noteq> None" if r': "latest_receipt (p_receipts (f db)) d st = Some r'" for d st r'
  proof -
    have "rel_option (\<lambda>r r'. rc_push_seq r' = rc_push_seq r \<and> (rc_response r \<noteq> None \<longrightarrow> rc_response r' \<noteq> None))
        (latest_receipt (p_receipts db) d st) (Some r')"
      using same unfolding same_pushes_def r' [symmetric] by blast
    then obtain r where "latest_receipt (p_receipts db) d st = Some r" "rc_response r \<noteq> None \<longrightarrow> rc_response r' \<noteq> None"
      unfolding option_rel_Some2 by blast
    moreover from this(1) have "rc_response r \<noteq> None" using assms(2) unfolding recorded_def by blast
    ultimately show ?thesis by blast
  qed
  then show ?thesis unfolding recorded_def Elsewhere by simp
next
  case (Deliver work d dl)
  show ?thesis
  proof (cases "deliver work d dl db")
    case (Inl x)
    then show ?thesis using assms(2) Deliver by simp
  next
    case (Inr out)
    obtain db' worked code body where out: "out = (db', worked, code, body)" by (cases out)
    show ?thesis
    proof (cases worked)
      case False
      have "db' = db" by (rule deliver_replayed [of work d dl db db' "(code, body)"]) (use Inr out False in simp)
      then show ?thesis using Inr out Deliver assms(2) by simp
    next
      case True
      have w: "deliver work d dl db = Inr (db', True, code, body)" using Inr out True by simp
      have "leaves_receipts work" using assms(1) Deliver by simp
      note eff = deliver_worked [OF w this assms(2)]
      have "rc_response r \<noteq> None" if "latest_receipt (p_receipts db') d' st = Some r" for d' st r
      proof (cases "(d', st) = (d, dl_stream dl)")
        case True
        with eff(1) that show ?thesis by auto
      next
        case False
        have "latest_receipt (p_receipts db) d' st = Some r" using eff(3) [OF False] that by simp
        then show ?thesis using assms(2) unfolding recorded_def by blast
      qed
      then show ?thesis using w by (simp add: Deliver recorded_def)
    qed
  qed
qed

text \<open>A step admits only a sequence above the receipt's, and the receipt's never decreases.\<close>

definition seq_at :: "push_db \<Rightarrow> int \<Rightarrow> string \<Rightarrow> int option" where
  "seq_at db d stream = map_option rc_push_seq (latest_receipt (p_receipts db) d stream)"

lemma seq_step:
  assumes "event_ok e" and "recorded db" and "push_step e db = (db', log)"
  shows "(admitted d stream log = [] \<and> seq_at db' d stream = seq_at db d stream) \<or>
    (\<exists>n. admitted d stream log = [n] \<and> seq_at db' d stream = Some n \<and> (\<forall>m. seq_at db d stream = Some m \<longrightarrow> m < n))"
proof (cases e)
  case (Elsewhere f)
  then have f: "same_pushes db db'" "log = []" using assms(1,3) by auto
  then have "rel_option (\<lambda>r r'. rc_push_seq r' = rc_push_seq r \<and> (rc_response r \<noteq> None \<longrightarrow> rc_response r' \<noteq> None))
     (latest_receipt (p_receipts db) d stream) (latest_receipt (p_receipts db') d stream)"
    unfolding same_pushes_def by blast
  then have "seq_at db' d stream = seq_at db d stream" unfolding seq_at_def by (cases rule: option.rel_cases) auto
  with f show ?thesis by (simp add: admitted_def)
next
  case (Deliver work d0 dl)
  show ?thesis
  proof (cases "deliver work d0 dl db")
    case (Inl x)
    then show ?thesis using assms(3) Deliver by (simp add: admitted_def)
  next
    case (Inr out)
    obtain db1 worked code body where out: "out = (db1, worked, code, body)" by (cases out)
    show ?thesis
    proof (cases worked)
      case False
      have "db1 = db" by (rule deliver_replayed [of work d0 dl db db1 "(code, body)"]) (use Inr out False in simp)
      with False show ?thesis using Inr out Deliver assms(3) by (simp add: admitted_def)
    next
      case True
      have w: "deliver work d0 dl db = Inr (db', True, code, body)" and log: "log = [(d0, dl_stream dl, pi_seq (dl_identity dl))]"
        using Inr out True Deliver assms(3) by auto
      have "leaves_receipts work" using assms(1) Deliver by simp
      note eff = deliver_worked [OF w this assms(2)]
      show ?thesis
      proof (cases "(d, stream) = (d0, dl_stream dl)")
        case True
        then show ?thesis using eff(1,2) by (auto simp: log admitted_def seq_at_def)
      next
        case False
        then show ?thesis using eff(3) [OF False] by (auto simp: log admitted_def seq_at_def)
      qed
    qed
  qed
qed

lemma admitted_append [simp]: "admitted d stream (a @ b) = admitted d stream a @ admitted d stream b"
  by (simp add: admitted_def)

lemma run_pushes_increase:
  assumes "list_all event_ok es" and "recorded db" and "run_pushes es db = (db', log)"
  shows "sorted_wrt (<) (admitted d stream log) \<and> (\<forall>m. seq_at db d stream = Some m \<longrightarrow> (\<forall>n \<in> set (admitted d stream log). m < n)) \<and>
    seq_at db' d stream = (if admitted d stream log = [] then seq_at db d stream else Some (last (admitted d stream log)))"
  using assms
proof (induction es arbitrary: db log)
  case Nil
  then show ?case by (simp add: admitted_def)
next
  case (Cons e es)
  obtain db1 log1 rest where step: "push_step e db = (db1, log1)" and run: "run_pushes es db1 = (db', rest)" and log: "log = log1 @ rest"
    using Cons.prems(3) by (auto split: prod.splits)
  have ok: "event_ok e" "list_all event_ok es" using Cons.prems(1) by auto
  have "recorded db1" using recorded_step [OF ok(1) Cons.prems(2)] step by simp
  note ih = Cons.IH [OF ok(2) this run]
  consider (none) "admitted d stream log1 = []" "seq_at db1 d stream = seq_at db d stream"
    | (one) n where "admitted d stream log1 = [n]" "seq_at db1 d stream = Some n" "\<forall>m. seq_at db d stream = Some m \<longrightarrow> m < n"
    using seq_step [OF ok(1) Cons.prems(2) step, of d stream] by blast
  then show ?case
  proof cases
    case none
    then show ?thesis using ih by (simp add: log)
  next
    case (one n)
    then have above: "\<forall>k \<in> set (admitted d stream rest). n < k" using ih by blast
    have "m < k" if "seq_at db d stream = Some m" "k = n \<or> k \<in> set (admitted d stream rest)" for m k
      using that above one(3) by force
    with above one ih show ?thesis by (auto simp: log)
  qed
qed

section \<open>Deletion markings\<close>

definition keyed :: "(del_identity \<times> json) list \<Rightarrow> bool" where
  "keyed acc = (distinct (map fst acc) \<and> (\<forall>(i, r) \<in> set acc. promotion_deletion_identity r = Some i))"

lemma keyed_Nil [simp]: "keyed []"
  by (simp add: keyed_def)

lemma set_dset: "set (dset d k v) \<subseteq> insert (k, v) (set d)"
  by (induction d k v rule: dset.induct) auto

lemma keyed_dset: "keyed acc \<Longrightarrow> promotion_deletion_identity r = Some i \<Longrightarrow> keyed (dset acc i r)"
  using set_dset [of acc i r] by (auto simp: keyed_def)

lemma keyed_add: "keyed acc \<Longrightarrow> keyed (foldl (add_record retired) acc rs)"
  by (induction rs arbitrary: acc) (auto simp: add_record_def keyed_dset split: option.splits)

lemma keyed_default: "keyed acc \<Longrightarrow> keyed (foldl default_record acc rs)"
  by (induction rs arbitrary: acc) (auto simp: default_record_def keyed_dset split: option.splits)

lemma dget_default_kept: "dget acc i = Some r \<Longrightarrow> dget (foldl default_record acc rs) i = Some r"
proof (induction rs arbitrary: acc)
  case (Cons x rs)
  have "dget (default_record acc x) i = Some r"
    using Cons.prems by (auto simp: default_record_def dhas_iff split: option.splits)
  then show ?case using Cons.IH by simp
qed simp

lemma dhas_default:
  assumes "r \<in> set rs" and "promotion_deletion_identity r = Some i"
  shows "dhas (foldl default_record acc rs) i"
  using assms
proof (induction rs arbitrary: acc)
  case (Cons x rs)
  show ?case
  proof (cases "r = x")
    case True
    then have "dhas (default_record acc x) i"
      using Cons.prems(2) by (auto simp: default_record_def dhas_iff)
    then obtain y where "dget (default_record acc x) i = Some y" unfolding dhas_iff by blast
    from dget_default_kept [OF this, of rs] show ?thesis by (simp add: dhas_iff)
  next
    case False
    with Cons show ?thesis by simp
  qed
qed simp

lemma dget_add_other:
  "\<forall>x \<in> set rs. promotion_deletion_identity x \<noteq> Some i \<Longrightarrow> dget (foldl (add_record retired) acc rs) i = dget acc i"
  by (induction rs arbitrary: acc) (auto simp: add_record_def split: option.splits)

lemma dget_add:
  assumes "r \<in> set rs" and "promotion_deletion_identity r = Some i" and "i \<notin> set retired"
    and "distinct (map promotion_deletion_identity rs)"
  shows "dget (foldl (add_record retired) acc rs) i = Some r"
  using assms
proof (induction rs arbitrary: acc)
  case (Cons x rs)
  show ?case
  proof (cases "r = x")
    case True
    have "\<forall>y \<in> set rs. promotion_deletion_identity y \<noteq> Some i"
      using Cons.prems(2,4) True by (metis distinct.simps(2) image_eqI list.set_map list.simps(9))
    then show ?thesis using True Cons.prems by (simp add: dget_add_other add_record_def [of retired acc x])
  next
    case False
    with Cons show ?thesis by simp
  qed
qed simp

lemma dhas_add_mono: "dhas acc i \<Longrightarrow> dhas (foldl (add_record retired) acc rs) i"
  by (induction rs arbitrary: acc) (auto simp: add_record_def dhas_iff split: option.splits)

lemma dhas_add:
  "r \<in> set rs \<Longrightarrow> promotion_deletion_identity r = Some i \<Longrightarrow> dhas (foldl (add_record []) acc rs) i"
proof (induction rs arbitrary: acc)
  case (Cons x rs)
  have "dhas (add_record [] acc x) i" if "r = x" using that Cons.prems(2) by (simp add: add_record_def dhas_iff)
  then show ?case using Cons dhas_add_mono by (cases "r = x") auto
qed simp

lemma deletion_records_dset [simp]: "deletion_records (dset d DELETIONS_KEY (JList rs)) = rs"
  by (simp add: deletion_records_def)

lemma merged_records:
  "deletion_records (merge_private_response previous response retired) =
     map snd (foldl default_record (foldl (add_record retired) [] (deletion_records previous)) (deletion_records response))"
proof -
  have "dget (ddel d k) k = None" for d :: jdict and k by (induction d) (auto simp: ddel_def)
  then show ?thesis by (simp add: merge_private_response_def Let_def deletion_records_def)
qed

lemma keyed_record_iff:
  assumes "keyed acc"
  shows "dget acc i = Some r \<longleftrightarrow> r \<in> set (map snd acc) \<and> promotion_deletion_identity r = Some i"
proof -
  have "r \<in> set (map snd acc) \<and> promotion_deletion_identity r = Some i \<longleftrightarrow> (i, r) \<in> set acc"
    using assms by (force simp: keyed_def)
  then show ?thesis using assms by (simp add: keyed_def dget_def)
qed

text \<open>The identities under which a deletion record can name a row.\<close>

definition deletion_names :: "string \<Rightarrow> jdict \<Rightarrow> del_identity list" where
  "deletion_names t row = (case json_int (row_get row ''route_id'') of None \<Rightarrow> [] | Some v \<Rightarrow> [DelRoute t v]) @
     [DelKey t (route_key row)] @ (case json_int (row_get row ''id'') of None \<Rightarrow> [] | Some v \<Rightarrow> [DelId t v])"

definition named :: "(del_identity \<times> json) list \<Rightarrow> string \<Rightarrow> jdict \<Rightarrow> bool" where
  "named acc t row = list_ex (dhas acc) (deletion_names t row)"

lemma named_mono: "(\<And>i. dhas acc i \<Longrightarrow> dhas acc' i) \<Longrightarrow> named acc t row \<Longrightarrow> named acc' t row"
  by (auto simp: named_def list_ex_iff)

lemma dhas_dset [simp]: "dhas (dset d k v) k' \<longleftrightarrow> k' = k \<or> dhas d k'"
  by (auto simp: dhas_iff)

lemma mark_row_mono: "mark_row m t want acc x = Inr acc' \<Longrightarrow> dhas acc i \<Longrightarrow> dhas acc' i"
  by (auto simp: mark_row_def bindE_eq_Inr split: prod.splits option.splits if_splits)

lemma mark_rows_mono: "foldE (mark_row m t want) acc xs = Inr acc' \<Longrightarrow> dhas acc i \<Longrightarrow> dhas acc' i"
  by (rule foldE_invariant [where P = "\<lambda>a. dhas a i"]) (auto dest: mark_row_mono)

lemma mark_row_names:
  assumes "mark_row m t want acc (identity, row) = Inr acc'" and "json_int (row_get row ''id'') = Some rid"
    and "is_intent_deletion t identity want = Inr True"
  shows "named acc' t row"
  using assms
  by (cases "json_int (row_get row ''route_id'')")
    (auto simp: mark_row_def named_def deletion_names_def split: if_splits)

lemma mark_rows_names:
  assumes "foldE (mark_row m t want) acc xs = Inr acc'" and "(identity, row) \<in> set xs"
    and "json_int (row_get row ''id'') = Some rid" and "is_intent_deletion t identity want = Inr True"
  shows "named acc' t row"
  using assms(1,2)
proof (induction xs arbitrary: acc)
  case (Cons x xs)
  then obtain mid where mid: "mark_row m t want acc x = Inr mid" and rest: "foldE (mark_row m t want) mid xs = Inr acc'"
    by (auto simp: bindE_eq_Inr)
  show ?case
  proof (cases "x = (identity, row)")
    case True
    then have "named mid t row" using mark_row_names assms(3,4) mid by blast
    then show ?thesis by (rule named_mono [rotated]) (rule mark_rows_mono [OF rest])
  next
    case False
    with Cons rest show ?thesis by auto
  qed
qed simp

lemma mark_table_mono: "mark_table m desired auth acc t = Inr acc' \<Longrightarrow> dhas acc i \<Longrightarrow> dhas acc' i"
  by (auto simp: mark_table_def bindE_eq_Inr dest: mark_rows_mono)

lemma mark_tables_names:
  assumes "foldE (mark_table m desired auth) acc ts = Inr acc'" and "t \<in> set ts"
    and "rows_by_intent_identity desired t = Inr want" and "rows_by_intent_identity auth t = Inr have_rows"
    and "(identity, row) \<in> set have_rows" and "json_int (row_get row ''id'') = Some rid"
    and "is_intent_deletion t identity want = Inr True"
  shows "named acc' t row"
  using assms(1,2)
proof (induction ts arbitrary: acc)
  case (Cons u ts)
  then obtain mid where mid: "mark_table m desired auth acc u = Inr mid" and rest: "foldE (mark_table m desired auth) mid ts = Inr acc'"
    by (auto simp: bindE_eq_Inr)
  show ?case
  proof (cases "u = t")
    case True
    then have "named mid t row"
      using mid assms(3-) by (auto simp: mark_table_def intro: mark_rows_names)
    then show ?thesis
      by (rule named_mono [rotated]) (rule foldE_invariant [OF rest, where P = "\<lambda>a. dhas a _"], auto dest: mark_table_mono)
  next
    case False
    with Cons rest show ?thesis by auto
  qed
qed simp

lemma keyed_mark_row:
  assumes "mark_row m t want acc x = Inr acc'" and "keyed acc"
  shows "keyed acc'"
proof -
  have "promotion_deletion_identity (JObj [(''table'', JStr t), (''id'', v), (''marking'', JStr m)]) = Some (DelId t rid)"
    if "json_int v = Some rid" for v rid
    using that by (simp add: promotion_deletion_identity_def row_get_def json_int_def)
  then show ?thesis
    using assms by (auto simp: mark_row_def bindE_eq_Inr intro!: keyed_dset split: prod.splits option.splits if_splits)
qed

lemma keyed_mark_table: "mark_table m desired auth acc t = Inr acc' \<Longrightarrow> keyed acc \<Longrightarrow> keyed acc'"
  by (auto simp: mark_table_def bindE_eq_Inr elim!: foldE_invariant dest: keyed_mark_row)

lemma retired_restored:
  assumes "restored_deletion_identities previous auth desired = Inr retired" and "i \<in> set retired"
  shows "is_restored auth desired i = Inr True"
proof -
  have "\<forall>i \<in> set retired. is_restored auth desired i = Inr True"
    by (rule foldE_invariant [OF assms(1) [unfolded restored_deletion_identities_def]])
      (auto simp: bindE_eq_Inr split: option.splits if_splits)
  with assms(2) show ?thesis by blast
qed

text \<open>The receipt of an unpromoted push: its records, and those it carries over.\<close>

lemma unpromoted_records:
  assumes rr: "record_response db d dl response g enq code = Inr db'"
    and row: "stream_at (p_store db) d (dl_stream dl) = Some srow" "s_authorized srow < s_desired srow"
    and doc: "authorized_fragment srow = Some doc" and desired: "snapshot_of db d (dl_stream dl) = Inr desired"
  obtains r r' resp retired explicit where "latest_receipt (p_receipts db) d (dl_stream dl) = Some r"
    "latest_receipt (p_receipts db') d (dl_stream dl) = Some r'" "rc_response r' = Some resp"
    "restored_deletion_identities (private_response (rc_response r)) (fragment_tables (Some doc)) desired = Inr retired"
    "foldE (mark_table (request_marking (rc_delete_origin r)) desired (fragment_tables (Some doc)))
       (foldl (add_record []) [] (deletion_records response)) (map fst (fragment_tables (Some doc))) = Inr explicit"
    "keyed explicit"
    "deletion_records resp = map snd (foldl default_record
       (foldl (add_record retired) [] (deletion_records (private_response (rc_response r)))) (map snd explicit))"
proof -
  from rr obtain r response' retired final gen where r: "latest_receipt (p_receipts db) d (dl_stream dl) = Some r"
    and rd: "record_projection_deletions db d dl r response = Inr (response', retired)"
    and final: "final = r\<lparr>rc_response := Some (merge_private_response (private_response (rc_response r)) response' retired)\<rparr>"
    and db': "db' = db\<lparr>p_receipts := upd_where (for_stream d (dl_stream dl))
       (\<lambda>_. final\<lparr>rc_status := code, rc_generation := gen\<rparr>) (p_receipts db)\<rparr>"
    using row by (elim record_response_receipt) auto
  obtain explicit where ret: "restored_deletion_identities (private_response (rc_response r)) (fragment_tables (Some doc)) desired = Inr retired"
    and ex: "foldE (mark_table (request_marking (rc_delete_origin r)) desired (fragment_tables (Some doc)))
       (foldl (add_record []) [] (deletion_records response)) (map fst (fragment_tables (Some doc))) = Inr explicit"
    and resp': "response' = (if explicit = [] then response else dset response DELETIONS_KEY (JList (map snd explicit)))"
    using rd row(1) doc desired by (auto simp: record_projection_deletions_def Let_def bindE_eq_Inr)
  have key: "keyed explicit"
    by (rule foldE_invariant [OF ex]) (auto simp: keyed_add dest: keyed_mark_table)
  have recs: "foldl default_record acc (deletion_records response') = foldl default_record acc (map snd explicit)" for acc
  proof (cases "explicit = []")
    case True
    have no_ids: "promotion_deletion_identity x = None" if "x \<in> set (deletion_records response)" for x
    proof (rule ccontr)
      assume "promotion_deletion_identity x \<noteq> None"
      then obtain i where i: "promotion_deletion_identity x = Some i" by blast
      have "dhas (foldl (add_record []) [] (deletion_records response)) i" using dhas_add [OF that i] .
      then have "dhas explicit i" by (rule foldE_invariant [OF ex]) (auto dest: mark_table_mono)
      then show False using True by (simp add: dhas_def)
    qed
    then have "foldl default_record acc rs = acc" if "set rs \<subseteq> set (deletion_records response)" for rs
      using that by (induction rs arbitrary: acc) (auto simp: default_record_def)
    then show ?thesis using True resp' by simp
  next
    case False
    then show ?thesis by (simp add: resp')
  qed
  have "for_stream d (dl_stream dl) (final\<lparr>rc_status := code, rc_generation := gen\<rparr>)"
    using latest_receiptD [OF r] by (simp add: final for_stream_def)
  from latest_upd_const [OF r this] have new: "latest_receipt (p_receipts db') d (dl_stream dl) = Some (final\<lparr>rc_status := code, rc_generation := gen\<rparr>)"
    by (simp add: db')
  have "deletion_records (merge_private_response (private_response (rc_response r)) response' retired) = map snd (foldl default_record
       (foldl (add_record retired) [] (deletion_records (private_response (rc_response r)))) (map snd explicit))"
    unfolding merged_records recs ..
  from that [OF r new _ ret ex key this] show thesis by (simp add: final)
qed

section \<open>A sample device\<close>

definition sample_vlan :: "int \<Rightarrow> int \<Rightarrow> jdict" where
  "sample_vlan k v = [(''id'', JInt k), (''device_id'', JInt 1), (''vlan_id'', JInt v), (''name'', JStr ''users'')]"

definition sample_push_db :: push_db where
  "sample_push_db = \<lparr>p_store = sample_store\<lparr>st_streams := [(sample_stream 1 ''vlan'' 9 9 2)\<lparr>s_document :=
       Some [(''vlan_intent'', JList [JObj (sample_vlan 3 30), JObj (sample_vlan 4 40)])]\<rparr>]\<rparr>,
     p_receipts = [], p_clears = [], p_next_clear = 1, p_tabs = (\<lambda>t. if t = ''vlan_intent'' then [sample_vlan 4 40] else []), p_ned = (\<lambda>_. None)\<rparr>"

definition sample_delivery :: "int \<Rightarrow> bool \<Rightarrow> delivery" where
  "sample_delivery n del = \<lparr>dl_stream = ''vlan'', dl_identity = \<lparr>pi_seq = n, pi_digest = ''digest'', pi_store_only = False,
     pi_delete_origin = del, pi_backfill_only = False\<rparr>\<rparr>"

definition sample_work :: endpoint_work where
  "sample_work db = Inr (db, [(''count'', JInt 1)], None)"

definition pushed_once :: push_db where
  "pushed_once = fst (projr (deliver sample_work 1 (sample_delivery 5 False) sample_push_db))"

definition begun_again :: push_db where
  "begun_again = fst (projr (begin_delivery pushed_once 1 (sample_delivery 6 True)))"

lemma sample_work_frame: "leaves_receipts sample_work"
  by (simp add: leaves_receipts_def sample_work_def)

lemma sample_recorded: "recorded sample_push_db"
  by (simp add: recorded_def sample_push_db_def latest_receipt_def)

section \<open>Properties\<close>


definition sample_events :: "push_event list" where
  "sample_events = [Deliver sample_work 1 (sample_delivery 5 False), Deliver sample_work 1 (sample_delivery 5 False),
     Deliver sample_work 1 (sample_delivery 6 True), Deliver sample_work 1 (sample_delivery 5 False)]"






end
