(* ===== verification/Fragment_Freeze.thy ===== *)
theory Fragment_Freeze
  imports Intent_Identity
begin

text \<open>
  Freezing a fragment (\<open>core/projection.py\<close>): the rows of a stream get the encoding context and
  the proof of their own rows, resolved once from live state, and the hydrator rebuilds the
  interface context from the stored document without reading live state again.  Also the
  retention of detached rows in an intermediate fragment (\<open>retained_proof\<close>, and \<open>_retain_rows\<close>
  of \<open>core/generation.py\<close>).

  Interface ids are integers and attributes strings, by the column types.
\<close>

section \<open>Interface proofs\<close>

definition INTERFACE_PROOF_FIELDS :: "string list" where
  "INTERFACE_PROOF_FIELDS = [''id'', ''name'', ''kind'', ''parent_binding'', ''encap_tag'', ''vrf'', ''service'']"

definition INTERFACE_ATTRIBUTE_ELIGIBLE_STATES :: "string list" where
  "INTERFACE_ATTRIBUTE_ELIGIBLE_STATES = [''accepted'', ''apply_failed'', ''drifted'', ''in_sync'']"

definition int_text :: "int \<Rightarrow> string" where
  "int_text i = (if i < 0 then CHR ''-'' # dec (- i) else dec i)"

definition col_int :: "jdict \<Rightarrow> string \<Rightarrow> int" where
  "col_int row f = (case row_get row f of JInt i \<Rightarrow> i | _ \<Rightarrow> 0)"

definition attribute_eligibility_key :: "int \<Rightarrow> string \<Rightarrow> string" where
  "attribute_eligibility_key i a = int_text i @ ''/'' @ a"

definition attr_key :: "jdict \<Rightarrow> int \<times> string" where
  "attr_key row = (col_int row ''interface_id'', or_empty (row_get row ''attribute''))"

definition proof_interface_ids :: "jdict \<Rightarrow> int list" where
  "proof_interface_ids tables = sort (remdups (map (\<lambda>r. col_int r ''interface_id'')
     (table_rows tables ''interface_intent'' @ table_rows tables ''interface_ip_intent'')))"

definition interface_record :: "jdict \<Rightarrow> jdict" where
  "interface_record iface = map (\<lambda>f. (f, row_get iface f)) INTERFACE_PROOF_FIELDS"

definition build_interface_proof ::
  "string \<Rightarrow> jdict \<Rightarrow> jdict list \<Rightarrow> ((int \<times> string) \<times> bool) list \<Rightarrow> exn + jdict" where
  "build_interface_proof stream tables interfaces decisions =
     (let attr_rows = table_rows tables ''interface_intent'';
          ids = proof_interface_ids tables;
          by_id = foldl (\<lambda>m r. dset m (col_int r ''id'') r) [] interfaces;
          keys = sort (remdups (map attr_key attr_rows)) in
      if list_ex (\<lambda>i. \<not> dhas by_id i) ids then Inl InterfaceEligibilityUnresolved
      else let p = [(''interfaces'', JObj (map (\<lambda>i. (int_text i,
                 JObj (interface_record (case dget by_id i of None \<Rightarrow> [] | Some r \<Rightarrow> r)))) ids))] in
        if attr_rows = [] \<and> stream \<noteq> ''interface_config'' then Inr p
        else if list_ex (\<lambda>k. \<not> dhas decisions k) keys then Inl InterfaceEligibilityUnresolved
        else Inr (p @ [(''attribute_eligibility'', JObj (map (\<lambda>(i, a). (attribute_eligibility_key i a,
               JBool (dget decisions (i, a) = Some True))) keys))]))"

definition eligibility_decisions :: "jdict list \<Rightarrow> ((int \<times> string) \<times> bool) list" where
  "eligibility_decisions states = foldl (\<lambda>m st. dset m (attr_key st)
     (or_empty (row_get st ''sync_state'') \<in> set INTERFACE_ATTRIBUTE_ELIGIBLE_STATES)) [] states"

definition freeze_interface_proof :: "live_tables \<Rightarrow> int \<Rightarrow> string \<Rightarrow> jdict \<Rightarrow> exn + jdict" where
  "freeze_interface_proof tabs d stream tables =
     (let ids = proof_interface_ids tables in
      if ids = [] then build_interface_proof stream tables [] []
      else build_interface_proof stream tables
        (filter (\<lambda>r. col_int r ''id'' \<in> set ids) (device_rows tabs d ''interfaces''))
        (eligibility_decisions (filter (\<lambda>st. col_int st ''interface_id'' \<in> set ids) (tabs ''interface_attr_state''))))"

section \<open>Freezing a fragment\<close>

definition frozen_context :: "string option \<Rightarrow> jdict" where
  "frozen_context ned = [(''ned_id'', case ned of None \<Rightarrow> JNull | Some n \<Rightarrow> JStr n), (''dialect'', JStr (community_dialect_for ned))]"

definition freeze_proof :: "live_tables \<Rightarrow> int \<Rightarrow> string \<Rightarrow> jdict \<Rightarrow> jdict \<Rightarrow> exn + jdict option" where
  "freeze_proof tabs d stream tables ctx =
     (if stream = ''interface_config'' \<or> stream = ''ip''
      then bindE (freeze_interface_proof tabs d stream tables) (\<lambda>p. Inr (Some p))
      else if stream = ''static_route'' then bindE (freeze_static_route_proof tables ctx) (\<lambda>p. Inr (Some p))
      else Inr None)"

definition execution_of :: "jdict \<Rightarrow> jdict option \<Rightarrow> jdict" where
  "execution_of ctx p = (''context'', JObj ctx) # (case p of None \<Rightarrow> [] | Some q \<Rightarrow> [(''proof'', JObj q)])"

definition freeze_fragment :: "live_tables \<Rightarrow> string option \<Rightarrow> int \<Rightarrow> string \<Rightarrow> jdict \<Rightarrow> exn + jdict" where
  "freeze_fragment tabs ned d stream tables = (let ctx = frozen_context ned in
     bindE (freeze_proof tabs d stream tables ctx) (\<lambda>p. Inr (dset tables EXECUTION_KEY (JObj (execution_of ctx p)))))"

definition freeze_or_refuse :: "live_tables \<Rightarrow> string option \<Rightarrow> int \<Rightarrow> string \<Rightarrow> jdict \<Rightarrow> exn + jdict" where
  "freeze_or_refuse tabs ned d stream tables = (case freeze_fragment tabs ned d stream tables of
     Inl InterfaceEligibilityUnresolved \<Rightarrow>
       Inl (ApplyUnexecutable [(''interface_config'', ''interface_attribute_eligibility_unresolved'')])
   | r \<Rightarrow> r)"

section \<open>Hydrating the interface context\<close>

definition py_str :: "json \<Rightarrow> string" where
  "py_str v = (case v of JStr s \<Rightarrow> s | JInt i \<Rightarrow> int_text i | JNull \<Rightarrow> ''None''
     | JBool b \<Rightarrow> if b then ''True'' else ''False'' | _ \<Rightarrow> [])"

fun partition_slash :: "string \<Rightarrow> string \<times> string" where
  "partition_slash [] = ([], [])"
| "partition_slash (c # cs) = (if c = CHR ''/'' then ([], cs) else (case partition_slash cs of (a, b) \<Rightarrow> (c # a, b)))"

definition hydrate_record :: "(json \<times> jdict) list \<Rightarrow> string \<times> json \<Rightarrow> exn + (json \<times> jdict) list" where
  "hydrate_record acc kr = (case kr of (key, JObj r) \<Rightarrow>
       if \<not> same_set (map fst r) INTERFACE_PROOF_FIELDS then Inl (ValueError ''invalid interface context'')
       else if py_str (row_get r ''id'') \<noteq> key then Inl (ValueError ''interface is filed under another key'')
       else Inr (dset acc (row_get r ''id'') r)
     | _ \<Rightarrow> Inl (ValueError ''invalid interface context''))"

definition hydrate_decision :: "((int \<times> string) \<times> bool) list \<Rightarrow> string \<times> json \<Rightarrow> exn + ((int \<times> string) \<times> bool) list" where
  "hydrate_decision acc kv = (case kv of (key, v) \<Rightarrow>
     (case partition_slash key of (i, a) \<Rightarrow> (case v of
        JBool b \<Rightarrow> if i = [] \<or> \<not> list_all is_digit i \<or> a = [] then Inl (ValueError ''invalid eligibility decision'')
          else Inr (dset acc (dec_value i, a) b)
      | _ \<Rightarrow> Inl (ValueError ''invalid eligibility decision''))))"

definition json_set_eq :: "'a list \<Rightarrow> 'a list \<Rightarrow> bool" where
  "json_set_eq a b = (list_all (\<lambda>x. x \<in> set b) a \<and> list_all (\<lambda>x. x \<in> set a) b)"

definition hydrate_interface_execution :: "jdict \<Rightarrow> exn + (json \<times> jdict) list \<times> (int \<times> string) list" where
  "hydrate_interface_execution doc =
     (let sec = jdict_of (dget doc ''interface_config'');
          attr_rows = table_rows sec ''interface_intent'';
          rows = attr_rows @ table_rows sec ''interface_ip_intent'' in
      bindE (section_context doc ''interface_config'') (\<lambda>_.
      bindE (section_proof doc ''interface_config'') (\<lambda>p.
      let pr = (case p of None \<Rightarrow> [] | Some q \<Rightarrow> q);
          el = row_get pr ''attribute_eligibility'' in
      if \<not> list_all (\<lambda>k. k \<in> set [''interfaces'', ''attribute_eligibility'']) (map fst pr) \<or> \<not> dhas pr ''interfaces''
      then Inl (ValueError ''invalid execution proof'')
      else (case (row_get pr ''interfaces'', if truthy el then el else JObj []) of
          (JObj ifs, JObj decs) \<Rightarrow>
            bindE (foldE hydrate_record [] ifs) (\<lambda>interfaces.
            bindE (mapE (\<lambda>r. required r ''interface_id'') rows) (\<lambda>referenced.
            if \<not> json_set_eq (map fst interfaces) referenced
            then Inl (ValueError ''execution context does not match its rows'')
            else if \<not> json_set_eq (map fst decs)
                (map (\<lambda>r. py_str (row_get r ''interface_id'') @ ''/'' @ py_str (row_get r ''attribute'')) attr_rows)
            then Inl (ValueError ''eligibility does not match its attribute rows'')
            else bindE (foldE hydrate_decision [] decs) (\<lambda>decisions.
              Inr (interfaces, map fst (filter snd decisions)))))
        | _ \<Rightarrow> Inl (ValueError ''invalid execution proof'')))))"

section \<open>Retained rows\<close>

text \<open>
  A retained row keeps the decisions of the fragment it was retained from.  A proof is a
  dictionary; \<open>None\<close> is a fragment without one.
\<close>

definition retain_interface ::
  "jdict \<Rightarrow> (string \<times> jdict) list \<Rightarrow> jdict \<Rightarrow> exn + (string \<times> jdict) list" where
  "retain_interface origin into row = (let key = py_str (row_get row ''interface_id'') in
     case dget (jdict_of (dget origin ''interfaces'')) key of
       Some (JObj r) \<Rightarrow> merge_interface_record into r key
     | _ \<Rightarrow> Inl (ValueError ''retained interface row references an interface with no recorded context''))"

definition retain_decision :: "jdict \<Rightarrow> jdict \<Rightarrow> jdict \<Rightarrow> exn + jdict" where
  "retain_decision origin acc row =
     (let key = py_str (row_get row ''interface_id'') @ ''/'' @ py_str (row_get row ''attribute'') in
      if dhas acc key then Inr acc
      else (case dget (jdict_of (dget origin ''attribute_eligibility'')) key of
          None \<Rightarrow> Inl (ValueError ''retained attribute row has no recorded eligibility decision'')
        | Some JNull \<Rightarrow> Inl (ValueError ''retained attribute row has no recorded eligibility decision'')
        | Some v \<Rightarrow> Inr (dset acc key v)))"

type_synonym row_groups = "(string \<times> jdict list) list"

definition group_rows :: "row_groups \<Rightarrow> string \<Rightarrow> jdict list" where
  "group_rows g t = (case dget g t of None \<Rightarrow> [] | Some rs \<Rightarrow> rs)"

definition any_rows :: "row_groups \<Rightarrow> bool" where
  "any_rows g = list_ex (\<lambda>(_, rows). rows \<noteq> []) g"

definition retained_proof :: "string \<Rightarrow> jdict option \<Rightarrow> jdict option \<Rightarrow> row_groups \<Rightarrow> exn + jdict option" where
  "retained_proof stream desired source retained =
     (if \<not> any_rows retained then Inr desired
      else let result = (case desired of None \<Rightarrow> [] | Some p \<Rightarrow> p);
               origin = (case source of None \<Rightarrow> [] | Some p \<Rightarrow> p) in
        if stream = ''interface_config'' \<or> stream = ''ip'' then
          bindE (foldE (retain_interface origin)
                   (map (\<lambda>(k, r). (k, jdict_of (Some r))) (jdict_of (dget result ''interfaces'')))
                   (concat (map snd retained))) (\<lambda>ifs.
          let result1 = dset result ''interfaces'' (JObj (map (\<lambda>(k, r). (k, JObj r)) ifs)) in
          if stream = ''interface_config'' then
            bindE (foldE (retain_decision origin) (jdict_of (dget result1 ''attribute_eligibility'')) (group_rows retained ''interface_intent''))
              (\<lambda>el. Inr (Some (dset result1 ''attribute_eligibility'' (JObj el))))
          else Inr (Some result1))
        else if stream = ''static_route'' then
          bindE (extend_apply_plan (case dget result ''apply'' of Some (JObj plan) \<Rightarrow> Some plan | _ \<Rightarrow> None)
                   (jdict_of (dget origin ''apply'')) (group_rows retained ''static_route_intent''))
            (\<lambda>plan. Inr (Some (dset result ''apply'' (JObj plan))))
        else Inr (Some result))"

definition retain_table :: "jdict \<Rightarrow> string \<times> jdict list \<Rightarrow> exn + jdict" where
  "retain_table result tr = (case tr of (t, rows) \<Rightarrow>
     let combined = table_rows result t @ rows in
     if list_ex (\<lambda>r. \<not> dhas r ''id'') combined then Inl (KeyError ''id'')
     else if \<not> distinct (map (\<lambda>r. row_get r ''id'') combined) then Inl (ValueError ''retained rows duplicate a desired row id'')
     else Inr (dset result t (JList (map JObj (sort_key (\<lambda>r. col_int r ''id'') combined)))))"

definition fragment_proof :: "jdict \<Rightarrow> jdict option" where
  "fragment_proof fragment = (case dget (jdict_of (dget fragment EXECUTION_KEY)) ''proof'' of Some (JObj p) \<Rightarrow> Some p | _ \<Rightarrow> None)"

definition retain_rows :: "jdict \<Rightarrow> row_groups \<Rightarrow> string \<Rightarrow> jdict option \<Rightarrow> exn + jdict" where
  "retain_rows desired retained stream source =
     bindE (foldE retain_table desired retained) (\<lambda>result.
     let execution = jdict_of (dget result EXECUTION_KEY) in
     bindE (retained_proof stream (fragment_proof result) (Option.bind source fragment_proof) retained) (\<lambda>p.
       Inr (dset result EXECUTION_KEY (JObj (case p of None \<Rightarrow> execution | Some q \<Rightarrow> dset execution ''proof'' (JObj q))))))"

section \<open>The proof hydrates to what was frozen\<close>

lemma foldE_dset:
  assumes "\<And>acc x. x \<in> set xs \<Longrightarrow> f acc (g x) = Inr (dset acc (k x) (v x))" and "distinct (map fst acc @ map k xs)"
  shows "foldE f acc (map g xs) = Inr (acc @ map (\<lambda>x. (k x, v x)) xs)"
  using assms
proof (induction xs arbitrary: acc)
  case (Cons x xs)
  have "dset acc (k x) (v x) = acc @ [(k x, v x)]"
    using Cons.prems(2) by (intro dset_fresh) (auto simp: dhas_def)
  moreover have "foldE f (acc @ [(k x, v x)]) (map g xs) = Inr ((acc @ [(k x, v x)]) @ map (\<lambda>x. (k x, v x)) xs)"
    by (rule Cons.IH) (use Cons.prems in auto)
  ultimately show ?case using Cons.prems(1) by simp
qed simp

lemma dec_no_slash: "0 \<le> i \<Longrightarrow> list_all is_digit (dec i) \<and> dec i \<noteq> [] \<and> CHR ''/'' \<notin> set (dec i)"
  using dec_digits [of i] dec_ne [of i] by (auto simp: list_all_iff is_digit_def)

lemma partition_key: "CHR ''/'' \<notin> set i \<Longrightarrow> partition_slash (i @ ''/'' @ a) = (i, a)"
  by (induction i) auto

lemma int_text_dec [simp]: "0 \<le> i \<Longrightarrow> int_text i = dec i"
  by (simp add: int_text_def)

lemma hydrate_decision_key:
  assumes "0 \<le> i" and "a \<noteq> []"
  shows "hydrate_decision acc (attribute_eligibility_key i a, JBool b) = Inr (dset acc (i, a) b)"
proof -
  have "partition_slash (dec i @ ''/'' @ a) = (dec i, a)" using dec_no_slash [OF assms(1)] by (intro partition_key) blast
  then show ?thesis
    using assms dec_no_slash [OF assms(1)] by (simp add: hydrate_decision_def attribute_eligibility_key_def dec_value_dec)
qed

lemma hydrate_record_key:
  assumes "row_get iface ''id'' = JInt i"
  shows "hydrate_record acc (int_text i, JObj (interface_record iface)) = Inr (dset acc (JInt i) (interface_record iface))"
proof -
  have "row_get (interface_record iface) ''id'' = JInt i"
    using assms by (simp add: interface_record_def INTERFACE_PROOF_FIELDS_def row_get_def)
  moreover have "same_set (map fst (interface_record iface)) INTERFACE_PROOF_FIELDS"
    by (simp add: interface_record_def comp_def same_set_def list_all_iff)
  ultimately show ?thesis by (simp add: hydrate_record_def py_str_def)
qed

text \<open>Well-typed rows, as the columns guarantee.\<close>

definition interface_row_ok :: "jdict \<Rightarrow> bool" where
  "interface_row_ok r = (case dget r ''interface_id'' of Some (JInt i) \<Rightarrow> 0 \<le> i | _ \<Rightarrow> False)"

definition attribute_row_ok :: "jdict \<Rightarrow> bool" where
  "attribute_row_ok r = (case row_get r ''attribute'' of JStr a \<Rightarrow> a \<noteq> [] | _ \<Rightarrow> False)"

definition interface_tables_ok :: "jdict \<Rightarrow> bool" where
  "interface_tables_ok tables = (\<not> dhas tables EXECUTION_KEY \<and>
     list_all interface_row_ok (table_rows tables ''interface_intent'' @ table_rows tables ''interface_ip_intent'') \<and>
     list_all attribute_row_ok (table_rows tables ''interface_intent''))"

lemma interface_row_okD:
  "interface_row_ok r \<Longrightarrow> required r ''interface_id'' = Inr (JInt (col_int r ''interface_id'')) \<and>
     row_get r ''interface_id'' = JInt (col_int r ''interface_id'') \<and> 0 \<le> col_int r ''interface_id''"
  by (auto simp: interface_row_ok_def required_def row_get_def col_int_def split: option.splits json.splits)

lemma attribute_row_okD:
  "attribute_row_ok r \<Longrightarrow> row_get r ''attribute'' = JStr (snd (attr_key r)) \<and> snd (attr_key r) \<noteq> []"
  by (auto simp: attribute_row_ok_def attr_key_def or_empty_def split: json.splits)

lemma mapE_const: "(\<And>x. x \<in> set xs \<Longrightarrow> f x = Inr (g x)) \<Longrightarrow> mapE f xs = Inr (map g xs)"
  by (induction xs) auto

lemma frozen_context_ok:
  "section_context [(sec, JObj (dset tables EXECUTION_KEY (JObj (execution_of (frozen_context ned) p))))] sec = Inr (frozen_context ned)"
  by (auto simp: section_context_def section_execution_def execution_of_def frozen_context_def same_set_def
      community_dialect_for_def community_dialect_names_def split: option.splits)

lemma by_id_get:
  assumes "dget (foldl (\<lambda>m r. dset m (col_int r ''id'') r) m rs) i = Some r"
  shows "dget m i = Some r \<or> r \<in> set rs \<and> col_int r ''id'' = i"
  using assms by (induction rs arbitrary: m) (force split: if_splits)+

lemma build_proof_Inr:
  assumes "build_interface_proof ''interface_config'' tables interfaces decisions = Inr p"
  obtains iface where
    "\<And>i. i \<in> set (proof_interface_ids tables) \<Longrightarrow> iface i \<in> set interfaces \<and> col_int (iface i) ''id'' = i"
    "\<And>k. k \<in> attr_key ` set (table_rows tables ''interface_intent'') \<Longrightarrow> dhas decisions k"
    "p = [(''interfaces'', JObj (map (\<lambda>i. (int_text i, JObj (interface_record (iface i)))) (proof_interface_ids tables))),
       (''attribute_eligibility'', JObj (map (\<lambda>(i, a). (attribute_eligibility_key i a, JBool (dget decisions (i, a) = Some True)))
          (sort (remdups (map attr_key (table_rows tables ''interface_intent''))))))]"
proof -
  let ?m = "foldl (\<lambda>m r. dset m (col_int r ''id'') r) [] interfaces"
  have ids: "list_all (\<lambda>i. dhas ?m i) (proof_interface_ids tables)"
    and keys: "list_all (dhas decisions) (sort (remdups (map attr_key (table_rows tables ''interface_intent''))))"
    using assms by (auto simp: build_interface_proof_def Let_def list_all_iff list_ex_iff split: if_splits)
  show thesis
  proof (rule that [of "\<lambda>i. case dget ?m i of None \<Rightarrow> [] | Some r \<Rightarrow> r"])
    fix i
    assume "i \<in> set (proof_interface_ids tables)"
    then have "dhas ?m i" using ids unfolding list_all_iff by blast
    then obtain r where r: "dget ?m i = Some r" unfolding dhas_iff by blast
    show "(case dget ?m i of None \<Rightarrow> [] | Some r \<Rightarrow> r) \<in> set interfaces \<and>
        col_int (case dget ?m i of None \<Rightarrow> [] | Some r \<Rightarrow> r) ''id'' = i"
      using by_id_get [OF r] r by simp
  next
    show "dhas decisions k" if "k \<in> attr_key ` set (table_rows tables ''interface_intent'')" for k
      using keys that by (auto simp: list_all_iff)
  next
    show "p = [(''interfaces'', JObj (map (\<lambda>i. (int_text i, JObj (interface_record (case dget ?m i of None \<Rightarrow> [] | Some r \<Rightarrow> r)))) (proof_interface_ids tables))),
       (''attribute_eligibility'', JObj (map (\<lambda>(i, a). (attribute_eligibility_key i a, JBool (dget decisions (i, a) = Some True)))
          (sort (remdups (map attr_key (table_rows tables ''interface_intent''))))))]"
      using assms by (auto simp: build_interface_proof_def Let_def split: if_splits)
  qed
qed

lemma table_rows_frozen: "t \<noteq> EXECUTION_KEY \<Longrightarrow> table_rows (dset tables EXECUTION_KEY x) t = table_rows tables t"
  by (simp add: table_rows_def)

lemma sorted_keys_distinct: "distinct (sort (remdups xs))"
  by simp

lemma build_proof_hydrates:
  assumes built: "build_interface_proof ''interface_config'' tables interfaces decisions = Inr p"
    and ok: "interface_tables_ok tables" and ids: "\<forall>r \<in> set interfaces. row_get r ''id'' = JInt (col_int r ''id'')"
  shows "\<exists>iface. (\<forall>i \<in> set (proof_interface_ids tables). iface i \<in> set interfaces \<and> col_int (iface i) ''id'' = i) \<and>
    hydrate_interface_execution [(''interface_config'', JObj (dset tables EXECUTION_KEY (JObj (execution_of (frozen_context ned) (Some p)))))] =
      Inr (map (\<lambda>i. (JInt i, interface_record (iface i))) (proof_interface_ids tables),
        filter (\<lambda>k. dget decisions k = Some True) (sort (remdups (map attr_key (table_rows tables ''interface_intent'')))))"
proof -
  let ?ids = "proof_interface_ids tables" and ?attrs = "table_rows tables ''interface_intent''"
  let ?ips = "table_rows tables ''interface_ip_intent''"
  let ?keys = "sort (remdups (map attr_key ?attrs))"
  let ?doc = "[(''interface_config'', JObj (dset tables EXECUTION_KEY (JObj (execution_of (frozen_context ned) (Some p)))))]"
  obtain iface where iface: "\<And>i. i \<in> set ?ids \<Longrightarrow> iface i \<in> set interfaces \<and> col_int (iface i) ''id'' = i"
    and p: "p = [(''interfaces'', JObj (map (\<lambda>i. (int_text i, JObj (interface_record (iface i)))) ?ids)),
       (''attribute_eligibility'', JObj (map (\<lambda>(i, a). (attribute_eligibility_key i a, JBool (dget decisions (i, a) = Some True))) ?keys))]"
    using build_proof_Inr [OF built] by blast
  define ifs where "ifs = map (\<lambda>i. (int_text i, JObj (interface_record (iface i)))) ?ids"
  define decs where "decs = map (\<lambda>k. (attribute_eligibility_key (fst k) (snd k), JBool (dget decisions k = Some True))) ?keys"
  have p': "p = [(''interfaces'', JObj ifs), (''attribute_eligibility'', JObj decs)]"
    by (simp add: p ifs_def decs_def case_prod_beta)
  have rows: "interface_row_ok r" if "r \<in> set (?attrs @ ?ips)" for r using ok that by (auto simp: interface_tables_ok_def list_all_iff)
  have attrs: "attribute_row_ok r" if "r \<in> set ?attrs" for r using ok that by (auto simp: interface_tables_ok_def list_all_iff)
  have hr: "foldE hydrate_record [] ifs = Inr (map (\<lambda>i. (JInt i, interface_record (iface i))) ?ids)"
    unfolding ifs_def
  proof (subst foldE_dset [where k = JInt and v = "\<lambda>i. interface_record (iface i)"])
    show "hydrate_record acc (int_text i, JObj (interface_record (iface i))) = Inr (dset acc (JInt i) (interface_record (iface i)))"
      if "i \<in> set ?ids" for acc i
    proof (rule hydrate_record_key)
      show "row_get (iface i) ''id'' = JInt i" using iface [OF that] ids by auto
    qed
  qed (simp_all add: distinct_map inj_on_def proof_interface_ids_def)
  have key: "0 \<le> fst k \<and> snd k \<noteq> []" if k: "k \<in> set ?keys" for k
  proof -
    obtain r where r: "r \<in> set ?attrs" "k = attr_key r" using k by auto
    then have "interface_row_ok r" "attribute_row_ok r" using rows attrs by auto
    then show ?thesis unfolding r(2) using interface_row_okD [of r] attribute_row_okD [of r] by (simp add: attr_key_def)
  qed
  have hd: "foldE hydrate_decision [] decs = Inr (map (\<lambda>k. (k, dget decisions k = Some True)) ?keys)"
    unfolding decs_def
  proof (subst foldE_dset [where k = id and v = "\<lambda>k. dget decisions k = Some True"])
    show "hydrate_decision acc (attribute_eligibility_key (fst k) (snd k), JBool (dget decisions k = Some True)) =
        Inr (dset acc (id k) (dget decisions k = Some True))" if "k \<in> set ?keys" for acc k
      using hydrate_decision_key [of "fst k" "snd k"] key [OF that] by simp
  qed simp_all
  have refs: "mapE (\<lambda>r. required r ''interface_id'') (?attrs @ ?ips) = Inr (map (\<lambda>r. JInt (col_int r ''interface_id'')) (?attrs @ ?ips))"
    by (rule mapE_const) (simp add: interface_row_okD rows)
  have ctx: "json_set_eq (map fst (map (\<lambda>i. (JInt i, interface_record (iface i))) ?ids)) (map (\<lambda>r. JInt (col_int r ''interface_id'')) (?attrs @ ?ips))"
    by (auto simp: json_set_eq_def list_all_iff proof_interface_ids_def)
  have written: "py_str (row_get r ''interface_id'') @ ''/'' @ py_str (row_get r ''attribute'') =
      attribute_eligibility_key (fst (attr_key r)) (snd (attr_key r))" if r: "r \<in> set ?attrs" for r
  proof -
    have "interface_row_ok r" using rows r by simp
    moreover obtain a where "row_get r ''attribute'' = JStr a" using attribute_row_okD [OF attrs [OF r]] by blast
    ultimately show ?thesis
      using interface_row_okD [of r] by (simp add: attribute_eligibility_key_def attr_key_def py_str_def or_empty_def)
  qed
  have el: "json_set_eq (map fst decs) (map (\<lambda>r. py_str (row_get r ''interface_id'') @ ''/'' @ py_str (row_get r ''attribute'')) ?attrs)"
  proof -
    have "map (\<lambda>r. py_str (row_get r ''interface_id'') @ ''/'' @ py_str (row_get r ''attribute'')) ?attrs =
        map (\<lambda>r. attribute_eligibility_key (fst (attr_key r)) (snd (attr_key r))) ?attrs"
      by (rule map_cong [OF refl written])
    then show ?thesis unfolding json_set_eq_def list_all_iff decs_def by auto
  qed
  have elj: "(if truthy (row_get p ''attribute_eligibility'') then row_get p ''attribute_eligibility'' else JObj []) = JObj decs"
    by (simp add: p' row_get_def)
  have sec: "jdict_of (dget ?doc ''interface_config'') = dset tables EXECUTION_KEY (JObj (execution_of (frozen_context ned) (Some p)))"
    by (simp add: jdict_of_def)
  have sp: "section_proof ?doc ''interface_config'' = Inr (Some p)"
    by (simp add: section_proof_def execution_of_def)
  have "row_get p ''interfaces'' = JObj ifs" "row_get p ''attribute_eligibility'' = JObj decs" by (simp_all add: p' row_get_def)
  moreover have "list_all (\<lambda>k. k \<in> set [''interfaces'', ''attribute_eligibility'']) (map fst p)" "dhas p ''interfaces''"
    by (simp_all add: p' dhas_def)
  ultimately have "hydrate_interface_execution ?doc = Inr (map (\<lambda>i. (JInt i, interface_record (iface i))) ?ids,
      map fst (filter snd (map (\<lambda>k. (k, dget decisions k = Some True)) ?keys)))"
    using hr hd refs ctx el unfolding hydrate_interface_execution_def Let_def sec sp frozen_context_ok bindE_simps option.case elj
    by (simp add: table_rows_frozen del: map_map)
  moreover have "map fst (filter snd (map (\<lambda>k. (k, dget decisions k = Some True)) ?keys)) = filter (\<lambda>k. dget decisions k = Some True) ?keys"
    by (simp add: filter_map comp_def)
  ultimately show ?thesis using iface by (intro exI [of _ iface]) simp
qed

definition eligible_state :: "jdict \<Rightarrow> bool" where
  "eligible_state st = (or_empty (row_get st ''sync_state'') \<in> set INTERFACE_ATTRIBUTE_ELIGIBLE_STATES)"

lemma decisions_eligible:
  assumes "distinct (map attr_key states)"
  shows "dget (eligibility_decisions states) k = Some b \<longleftrightarrow> (\<exists>st \<in> set states. attr_key st = k \<and> eligible_state st = b)"
proof -
  have "dget (foldl (\<lambda>m st. dset m (attr_key st) (eligible_state st)) m states) k = Some b \<longleftrightarrow>
      (\<exists>st \<in> set states. attr_key st = k \<and> eligible_state st = b) \<or> dget m k = Some b \<and> k \<notin> attr_key ` set states" for m
    using assms by (induction states arbitrary: m) auto
  from this [of "[]"] show ?thesis by (simp add: eligibility_decisions_def eligible_state_def)
qed

text \<open>
  C19. What is frozen is what executes.  A frozen interface fragment keeps its tables, and the
  hydrator reads from it, without live state, exactly the interfaces its rows reference, each
  with the fields the live interface had at the freeze, and exactly the attributes whose sync
  state was eligible then.
\<close>

theorem frozen_interfaces_hydrate:
  assumes frozen: "freeze_fragment tabs ned d ''interface_config'' tables = Inr fragment" and ok: "interface_tables_ok tables"
    and ids: "\<forall>r \<in> set (tabs ''interfaces''). row_get r ''id'' = JInt (col_int r ''id'')"
    and states: "distinct (map attr_key (tabs ''interface_attr_state''))"
  shows "\<exists>ifs eligible. hydrate_interface_execution [(''interface_config'', JObj fragment)] = Inr (ifs, eligible) \<and>
     fragment_tables (Some fragment) = tables \<and> map fst ifs = map JInt (proof_interface_ids tables) \<and>
     (\<forall>i r. (i, r) \<in> set ifs \<longrightarrow>
        (\<exists>live \<in> set (device_rows tabs d ''interfaces''). row_get live ''id'' = i \<and> r = interface_record live)) \<and>
     (\<forall>k. k \<in> set eligible \<longleftrightarrow> k \<in> attr_key ` set (table_rows tables ''interface_intent'') \<and>
        (\<exists>st \<in> set (tabs ''interface_attr_state''). attr_key st = k \<and> eligible_state st))"
proof -
  let ?ids = "proof_interface_ids tables"
  let ?live = "filter (\<lambda>r. col_int r ''id'' \<in> set ?ids) (device_rows tabs d ''interfaces'')"
  let ?states = "filter (\<lambda>st. col_int st ''interface_id'' \<in> set ?ids) (tabs ''interface_attr_state'')"
  obtain p where p: "freeze_interface_proof tabs d ''interface_config'' tables = Inr p"
    and fragment: "fragment = dset tables EXECUTION_KEY (JObj (execution_of (frozen_context ned) (Some p)))"
    using frozen by (auto simp: freeze_fragment_def freeze_proof_def Let_def bindE_eq_Inr)
  have "build_interface_proof ''interface_config'' tables ?live (eligibility_decisions ?states) = Inr p"
    using p by (cases "?ids = []") (simp_all add: freeze_interface_proof_def Let_def eligibility_decisions_def)
  moreover have "\<forall>r \<in> set ?live. row_get r ''id'' = JInt (col_int r ''id'')" using ids by (simp add: device_rows_def)
  ultimately obtain iface where iface: "\<forall>i \<in> set ?ids. iface i \<in> set ?live \<and> col_int (iface i) ''id'' = i"
    and hyd: "hydrate_interface_execution [(''interface_config'', JObj fragment)] = Inr (map (\<lambda>i. (JInt i, interface_record (iface i))) ?ids,
      filter (\<lambda>k. dget (eligibility_decisions ?states) k = Some True) (sort (remdups (map attr_key (table_rows tables ''interface_intent'')))))"
    using build_proof_hydrates [OF _ ok, of ?live "eligibility_decisions ?states" p ned] unfolding fragment by blast
  have live: "\<exists>live \<in> set (device_rows tabs d ''interfaces''). row_get live ''id'' = i \<and> r = interface_record live"
    if "(i, r) \<in> set (map (\<lambda>i. (JInt i, interface_record (iface i))) ?ids)" for i r
    using that iface ids by (auto simp: device_rows_def)
  have near: "fst k \<in> set ?ids" if "k \<in> attr_key ` set (table_rows tables ''interface_intent'')" for k
    using that by (auto simp: proof_interface_ids_def attr_key_def)
  have "distinct (map attr_key ?states)" using states by (rule distinct_map_filter)
  note dec = decisions_eligible [OF this]
  have el: "k \<in> set (filter (\<lambda>k. dget (eligibility_decisions ?states) k = Some True) (sort (remdups (map attr_key (table_rows tables ''interface_intent'')))))
      \<longleftrightarrow> k \<in> attr_key ` set (table_rows tables ''interface_intent'') \<and>
        (\<exists>st \<in> set (tabs ''interface_attr_state''). attr_key st = k \<and> eligible_state st)" for k
    using near [of k] by (auto simp: dec attr_key_def)
  have tabs: "fragment_tables (Some fragment) = tables"
  proof -
    have "\<forall>x \<in> set tables. fst x \<noteq> EXECUTION_KEY" using ok by (force simp: interface_tables_ok_def dhas_def)
    then have "fragment_tables (Some tables) = tables" by (auto simp: fragment_tables_def filter_id_conv)
    then show ?thesis by (simp only: fragment fragment_tables_dset)
  qed
  show ?thesis
    by (intro exI conjI allI impI, rule hyd, rule tabs) (use live el in \<open>simp_all add: comp_def\<close>)
qed

definition sample_interfaces :: live_tables where
  "sample_interfaces t = (if t = ''interfaces'' then
       [[(''id'', JInt 7), (''device_id'', JInt 1), (''name'', JStr ''xe-0/0/1''), (''kind'', JStr ''physical'')],
        [(''id'', JInt 9), (''device_id'', JInt 2), (''name'', JStr ''lo0''), (''kind'', JStr ''loopback'')]]
     else if t = ''interface_attr_state'' then
       [[(''interface_id'', JInt 7), (''attribute'', JStr ''description''), (''sync_state'', JStr ''in_sync'')],
        [(''interface_id'', JInt 7), (''attribute'', JStr ''mtu/ip''), (''sync_state'', JStr ''imported'')]]
     else [])"

definition sample_attributes :: jdict where
  "sample_attributes = [(''interface_intent'', JList [
     JObj [(''id'', JInt 1), (''interface_id'', JInt 7), (''attribute'', JStr ''description'')],
     JObj [(''id'', JInt 2), (''interface_id'', JInt 7), (''attribute'', JStr ''mtu/ip'')]])]"

theorem frozen_interfaces_hydrate_witness:
  "\<exists>ifs eligible. hydrate_interface_execution [(''interface_config'',
       JObj (projr (freeze_fragment sample_interfaces (Some ''juniper-junos-nc'') 1 ''interface_config'' sample_attributes)))] = Inr (ifs, eligible) \<and>
     map fst ifs = [JInt 7] \<and> (7, ''description'') \<in> set eligible \<and> (7, ''mtu/ip'') \<notin> set eligible"
proof -
  let ?f = "freeze_fragment sample_interfaces (Some ''juniper-junos-nc'') 1 ''interface_config'' sample_attributes"
  have "\<not> isl ?f" and ok: "interface_tables_ok sample_attributes" and ids: "proof_interface_ids sample_attributes = [7]"
    and states: "distinct (map attr_key (sample_interfaces ''interface_attr_state''))"
    and rows: "table_rows sample_attributes ''interface_intent'' = map (jdict_of \<circ> Some) [
      JObj [(''id'', JInt 1), (''interface_id'', JInt 7), (''attribute'', JStr ''description'')],
      JObj [(''id'', JInt 2), (''interface_id'', JInt 7), (''attribute'', JStr ''mtu/ip'')]]"
    by code_simp+
  then have f: "?f = Inr (projr ?f)" by simp
  have "\<forall>r \<in> set (sample_interfaces ''interfaces''). row_get r ''id'' = JInt (col_int r ''id'')"
    by (simp add: sample_interfaces_def row_get_def col_int_def)
  from frozen_interfaces_hydrate [OF f ok this states] show ?thesis unfolding ids rows
    by (elim exE conjE) (rule exI, rule exI, rule conjI, assumption,
      simp add: sample_interfaces_def eligible_state_def attr_key_def col_int_def row_get_def or_empty_def jdict_of_def
        INTERFACE_ATTRIBUTE_ELIGIBLE_STATES_def)
qed

end
