(* ===== verification/Promotion.thy ===== *)
theory Promotion
  imports Push_Receipts Fragment_Freeze
begin

text \<open>
  Promotion planning (\<open>core/generation.py\<close>): which selections promote, which of the authorized
  rows a promotion removes and at which marking, which retained rows lose content a merge cannot
  express, whether anything is added, and the links (networked removals, apply, detach) that
  deliver it; and the content predicates of \<open>core/removal.py\<close> the planning uses.

  Keyed list entries have a scalar key leaf.  Two values dump to the same canonical JSON text exactly when their normal forms, with the keys
  of every object in order, are equal.
\<close>

section \<open>Canonical values\<close>

lemma json_list_size [termination_simp]: "x \<in> set xs \<Longrightarrow> size x < Suc (size_list size xs)"
  by (induction xs) auto

lemma json_obj_size [termination_simp]: "(k, v) \<in> set d \<Longrightarrow> size v < Suc (size_list (size_prod (\<lambda>_. 0) size) d)"
  by (induction d) auto

fun canon :: "json \<Rightarrow> json" where
  "canon (JList xs) = JList (map canon xs)"
| "canon (JObj d) = JObj (sort_key fst (map (\<lambda>(k, v). (k, canon v)) d))"
| "canon v = v"

section \<open>Lost and added content\<close>

definition EXPLICIT_FALSE_EMISSION_FIELDS :: "(string \<times> string) list" where
  "EXPLICIT_FALSE_EMISSION_FIELDS = [(''isis_interface_intent'', ''bfd_enabled''), (''isis_interface_intent'', ''frr_enabled''),
     (''isis_process_intent'', ''overload_bit''), (''isis_process_intent'', ''microloop_avoidance''),
     (''isis_level_intent'', ''wide_metrics_only''), (''isis_level_intent'', ''disabled'')]"

definition is_cleared :: "json \<Rightarrow> json \<Rightarrow> (string \<times> string) option \<Rightarrow> bool" where
  "is_cleared prior after emission =
     (if prior = JNull \<or> prior = JStr [] then False
      else if prior = JBool False then after = JNull \<and> (case emission of None \<Rightarrow> False | Some f \<Rightarrow> f \<in> set EXPLICIT_FALSE_EMISSION_FIELDS)
      else if after = JNull then True
      else (case (prior, after) of (JStr _, JStr a) \<Rightarrow> a = [] | _ \<Rightarrow> False))"

definition ENTRY_KEY_LEAVES :: "string list" where
  "ENTRY_KEY_LEAVES = [''sequence'', ''seq'', ''index'', ''order'']"

text \<open>A keyed entry is identified by its leaf and the leaf's text, any other entry by its own value.\<close>

datatype entry_id = KeyedEntry string string | ValueEntry json

definition entry_identity :: "json \<Rightarrow> entry_id" where
  "entry_identity item = (case item of
       JObj d \<Rightarrow> (case List.find (\<lambda>leaf. row_get d leaf \<noteq> JNull) ENTRY_KEY_LEAVES of
           Some leaf \<Rightarrow> KeyedEntry leaf (py_str (row_get d leaf)) | None \<Rightarrow> ValueEntry (canon item))
     | _ \<Rightarrow> ValueEntry (canon item))"

definition entries_by_id :: "json list \<Rightarrow> (entry_id \<times> json) list" where
  "entries_by_id xs = foldl (\<lambda>m x. dset m (entry_identity x) x) [] xs"

fun lost_content :: "json \<Rightarrow> json \<Rightarrow> bool" where
  "lost_content (JObj d) after = (is_cleared (JObj d) after None \<or> (case after of
       JObj a \<Rightarrow> list_ex (\<lambda>(k, v). lost_content v (row_get a k)) d | _ \<Rightarrow> d \<noteq> []))"
| "lost_content (JList xs) after = (is_cleared (JList xs) after None \<or> (case after of
       JList ys \<Rightarrow> list_ex (\<lambda>x. case dget (entries_by_id ys) (entry_identity x) of None \<Rightarrow> True | Some y \<Rightarrow> lost_content x y) xs
     | _ \<Rightarrow> xs \<noteq> []))"
| "lost_content prior after = is_cleared prior after None"

fun has_positive_content :: "json \<Rightarrow> json \<Rightarrow> bool" where
  "has_positive_content prior (JObj d) = list_ex (\<lambda>(k, v). has_positive_content (row_get (jdict_of (Some prior)) k) v) d"
| "has_positive_content prior (JList xs) = list_ex (\<lambda>x. canon x \<notin> set (map canon (case prior of JList ys \<Rightarrow> ys | _ \<Rightarrow> []))) xs"
| "has_positive_content prior after = (prior \<noteq> after \<and> after \<noteq> JNull \<and> after \<noteq> JStr [])"

section \<open>What a promotion removes, loses and adds\<close>

definition explicit_deletion_markings :: "receipt \<Rightarrow> (del_identity \<times> string) list" where
  "explicit_deletion_markings rc = foldl (\<lambda>m r. case promotion_deletion_identity r of None \<Rightarrow> m
     | Some i \<Rightarrow> (case row_get (jdict_of (Some r)) ''marking'' of JStr k \<Rightarrow> dset m i k | _ \<Rightarrow> m))
     [] (deletion_records (case rc_response rc of None \<Rightarrow> [] | Some d \<Rightarrow> d))"

definition prefer_marking :: "(del_identity \<times> string) list \<Rightarrow> string \<Rightarrow> del_identity \<Rightarrow> string" where
  "prefer_marking explicit marking i = (case dget explicit i of None \<Rightarrow> marking | Some m \<Rightarrow> m)"

text \<open>By id, then by route id, then by key: a later one wins.\<close>

definition marking_of :: "(del_identity \<times> string) list \<Rightarrow> string \<Rightarrow> string \<Rightarrow> jdict \<Rightarrow> string" where
  "marking_of explicit def t row =
     (let m1 = (case json_int (row_get row ''id'') of None \<Rightarrow> def | Some v \<Rightarrow> prefer_marking explicit def (DelId t v));
          m2 = (case json_int (row_get row ''route_id'') of None \<Rightarrow> m1 | Some v \<Rightarrow> prefer_marking explicit m1 (DelRoute t v))
      in prefer_marking explicit m2 (DelKey t (route_key row)))"

definition add_row :: "row_groups \<Rightarrow> string \<Rightarrow> jdict \<Rightarrow> row_groups" where
  "add_row g t row = dset g t (group_rows g t @ [row])"

definition successor_route_ids :: "string \<Rightarrow> row_index \<Rightarrow> json list" where
  "successor_route_ids t desired_rows = (if t = ''static_route_intent''
     then filter (\<lambda>v. v \<noteq> JNull) (map (\<lambda>(_, r). row_get r ''route_id'') desired_rows) else [])"

definition split_deletion ::
  "(del_identity \<times> string) list \<Rightarrow> string \<Rightarrow> string \<Rightarrow> row_index \<Rightarrow> row_groups \<times> row_groups \<Rightarrow> json list \<times> jdict \<Rightarrow>
   exn + row_groups \<times> row_groups" where
  "split_deletion explicit def t desired_rows acc ir = (case (acc, ir) of ((networked, detached), (identity, row)) \<Rightarrow>
     bindE (is_intent_deletion t identity desired_rows) (\<lambda>gone.
       Inr (if \<not> gone \<or> row_get row ''route_id'' \<in> set (successor_route_ids t desired_rows) then (networked, detached)
            else if marking_of explicit def t row = DELETE_ORIGIN_MARKING then (add_row networked t row, detached)
            else (networked, add_row detached t row))))"

definition split_table ::
  "(del_identity \<times> string) list \<Rightarrow> string \<Rightarrow> jdict \<Rightarrow> jdict \<Rightarrow> row_groups \<times> row_groups \<Rightarrow> string \<Rightarrow> exn + row_groups \<times> row_groups" where
  "split_table explicit def old desired acc t =
     bindE (rows_by_intent_identity desired t) (\<lambda>desired_rows.
     bindE (rows_by_intent_identity old t) (\<lambda>old_rows.
       foldE (split_deletion explicit def t desired_rows) acc old_rows))"

definition fragment_deletions :: "jdict option \<Rightarrow> jdict \<Rightarrow> receipt \<Rightarrow> exn + row_groups \<times> row_groups" where
  "fragment_deletions old desired rc =
     (let old_tables = fragment_tables old; desired_tables = fragment_tables (Some desired) in
      foldE (split_table (explicit_deletion_markings rc) (request_marking (rc_delete_origin rc)) old_tables desired_tables)
        ([], []) (sort (map fst old_tables)))"

definition losing_row :: "string \<Rightarrow> row_index \<Rightarrow> row_groups \<Rightarrow> json list \<times> jdict \<Rightarrow> exn + row_groups" where
  "losing_row t desired_rows acc ir = (case ir of (identity, row) \<Rightarrow>
     (case dget desired_rows identity of None \<Rightarrow> Inr acc
      | Some after \<Rightarrow> bindE (projection_row_state t row) (\<lambda>st. bindE (projection_row_state t after) (\<lambda>st'.
          Inr (if lost_content (JObj st) (JObj st') then add_row acc t row else acc)))))"

definition content_losing_rows :: "jdict option \<Rightarrow> jdict \<Rightarrow> exn + row_groups" where
  "content_losing_rows old desired =
     (let old_tables = fragment_tables old; desired_tables = fragment_tables (Some desired) in
      foldE (\<lambda>acc t. bindE (rows_by_intent_identity desired_tables t) (\<lambda>desired_rows.
        bindE (rows_by_intent_identity old_tables t) (\<lambda>old_rows. foldE (losing_row t desired_rows) acc old_rows)))
        [] (sort (map fst old_tables)))"

text \<open>A loop that returns at its first hit.\<close>

fun anyE :: "('a \<Rightarrow> exn + bool) \<Rightarrow> 'a list \<Rightarrow> exn + bool" where
  "anyE f [] = Inr False"
| "anyE f (x # xs) = bindE (f x) (\<lambda>b. if b then Inr True else anyE f xs)"

definition positive_row :: "string \<Rightarrow> row_index \<Rightarrow> json list \<times> jdict \<Rightarrow> exn + bool" where
  "positive_row t previous ir = (case ir of (identity, row) \<Rightarrow>
     (case dget previous identity of None \<Rightarrow> Inr True
      | Some prior \<Rightarrow> bindE (projection_row_state t prior) (\<lambda>st. bindE (projection_row_state t row) (\<lambda>st'.
          Inr (has_positive_content (JObj st) (JObj st'))))))"

definition has_positive_delta :: "jdict option \<Rightarrow> jdict \<Rightarrow> exn + bool" where
  "has_positive_delta old desired =
     (let old_tables = fragment_tables old; desired_tables = fragment_tables (Some desired) in
      anyE (\<lambda>t. bindE (rows_by_intent_identity old_tables t) (\<lambda>previous.
        bindE (rows_by_intent_identity desired_tables t) (\<lambda>rows. anyE (positive_row t previous) rows)))
        (sort (remdups (map fst old_tables @ map fst desired_tables))))"

section \<open>Clears\<close>

definition promote_clear :: "jdict \<Rightarrow> jdict" where
  "promote_clear row = (let carrier = jdict_of (Some (row_get row ''pending_clear''));
       stored = json_names (dget carrier ''store_only'') in
     if stored = [] then row
     else dset row ''pending_clear'' (JObj [
       (''authorized'', JList (map JStr (sort (remdups (json_names (dget carrier ''authorized'') @ stored))))), (''store_only'', JList [])]))"

definition promote_static_route_clears :: "int \<Rightarrow> push_db \<Rightarrow> push_db" where
  "promote_static_route_clears d db = db\<lparr>p_tabs := (\<lambda>t. if t = ''static_route_intent''
     then upd_where (\<lambda>r. row_get r ''device_id'' = JInt d) promote_clear (p_tabs db t) else p_tabs db t)\<rparr>"

section \<open>Selections\<close>

record selection =
  sl_row :: stream_row
  sl_receipt :: "receipt option"
  sl_revision :: "int option"

definition authorized_generation_detail :: "store \<Rightarrow> int \<Rightarrow> string \<Rightarrow> int \<Rightarrow> (int \<times> int \<times> gen_status) option" where
  "authorized_generation_detail s d stream rv = map_option (\<lambda>g. (g_id g, g_seq g, g_status g))
     (first_by g_seq (filter (\<lambda>g. g_device g = d \<and> g_status g \<noteq> GSettled \<and> dget (g_revisions g) stream = Some rv) (st_gens s)))"

definition resolve_prepared_selection :: "stream_row option \<Rightarrow> int \<Rightarrow> string option" where
  "resolve_prepared_selection row rv = (case row of None \<Rightarrow> Some ''no_prepared_revision''
     | Some r \<Rightarrow> (case s_prepared r of None \<Rightarrow> Some ''no_prepared_revision''
       | Some prepared \<Rightarrow>
           if rv \<le> s_applied r then Some ''already_applied''
           else if rv < s_authorized r then Some ''superseded''
           else if rv = s_authorized r then Some ''already_authorized''
           else if rv = prepared then None
           else if rv < prepared then Some ''superseded''
           else Some ''no_prepared_revision''))"

text \<open>
  The outcome of one selection: the selection, or the reason it is stale and the generation
  that carries it.  \<open>later\<close> is the store the second read of the row sees.
\<close>

type_synonym resolved = "selection option \<times> string \<times> (int \<times> int \<times> gen_status) option"

definition resolve_receipt_selection ::
  "store \<Rightarrow> int \<Rightarrow> string \<Rightarrow> int \<Rightarrow> stream_row option \<Rightarrow> receipt option \<Rightarrow> exn + resolved" where
  "resolve_receipt_selection later d stream n row rc = (case (rc, row) of
       (Some c, Some r) \<Rightarrow>
         if n < rc_push_seq c then Inr (None, ''superseded'', None)
         else if rc_push_seq c \<noteq> n then Inr (None, ''no_receipt'', None)
         else if rc_backfill_only c then Inr (None, ''backfill_only'', None)
         else if s_push_seq r \<noteq> Some n then Inr (None, ''revision_mismatch'', None)
         else if s_desired r \<le> s_applied r then Inr (None, ''already_applied'', None)
         else if s_desired r \<le> s_authorized r then
           (case authorized_generation_detail later d stream (s_authorized r) of
              Some detail \<Rightarrow> Inr (None, ''already_authorized'', Some detail)
            | None \<Rightarrow> (case stream_at later d stream of
                None \<Rightarrow> Inl (RuntimeError ''the row could not be refreshed'')
              | Some r' \<Rightarrow> if s_desired r' \<le> s_authorized r' \<and> s_authorized r' \<le> s_applied r'
                  then Inr (None, ''already_authorized'', None)
                  else Inl (RuntimeError ''authorized but has no unsettled generation'')))
         else Inr (Some \<lparr>sl_row = r, sl_receipt = Some c, sl_revision = None\<rparr>, [], None)
     | _ \<Rightarrow> Inr (None, ''no_receipt'', None))"

record selected =
  se_promotable :: "(string \<times> selection) list"
  se_skipped :: "(string \<times> string) list"
  se_detail :: "(string \<times> int \<times> int \<times> gen_status) list"

definition select_stream :: "store \<Rightarrow> store \<Rightarrow> receipt list \<Rightarrow> int \<Rightarrow> selected \<Rightarrow> string \<times> int \<Rightarrow> exn + selected" where
  "select_stream s later rs d acc sel = (case sel of (stream, n) \<Rightarrow>
     let row = stream_at s d stream in
     bindE (if stream \<in> set OUT_OF_PROTOCOL_STREAMS then
              Inr (case resolve_prepared_selection row n of
                  None \<Rightarrow> (map_option (\<lambda>r. \<lparr>sl_row = r, sl_receipt = None, sl_revision = Some n\<rparr>) row, [], None)
                | Some reason \<Rightarrow> (None, reason, if reason = ''already_authorized''
                    then authorized_generation_detail later d stream n else None))
            else resolve_receipt_selection later d stream n row (latest_receipt rs d stream))
       (\<lambda>(selection, reason, detail). Inr (case selection of
            Some x \<Rightarrow> acc\<lparr>se_promotable := dset (se_promotable acc) stream x\<rparr>
          | None \<Rightarrow> acc\<lparr>se_skipped := dset (se_skipped acc) stream reason,
              se_detail := (case detail of None \<Rightarrow> se_detail acc | Some x \<Rightarrow> dset (se_detail acc) stream x)\<rparr>)))"

definition selected_promotions :: "store \<Rightarrow> store \<Rightarrow> receipt list \<Rightarrow> int \<Rightarrow> (string \<times> int) list \<Rightarrow> exn + selected" where
  "selected_promotions s later rs d selection =
     foldE (select_stream s later rs d) \<lparr>se_promotable = [], se_skipped = [], se_detail = []\<rparr> (sort_key fst selection)"

section \<open>Out-of-protocol streams\<close>

definition prepared_deletions :: "(string \<times> row_groups) list option \<Rightarrow> row_groups \<times> row_groups" where
  "prepared_deletions groups = (let resolved = (case groups of None \<Rightarrow> [] | Some g \<Rightarrow> g);
       group = (\<lambda>k. case dget resolved k of None \<Rightarrow> [] | Some g \<Rightarrow> g) in
     (foldl (\<lambda>acc (t, rows). dset acc t (group_rows acc t @ rows)) []
        (sort_key fst (group ''delete_origin'') @ sort_key fst (group ''owned_content'')), group ''detach''))"

type_synonym authority = "(string \<times> (string \<times> json list) list) list"

definition merge_labels :: "(string \<times> json list) list \<Rightarrow> (string \<times> json list) list \<Rightarrow> (string \<times> json list) list" where
  "merge_labels target labels = foldl (\<lambda>acc (label, keys).
     dset acc label ((case dget acc label of None \<Rightarrow> [] | Some ks \<Rightarrow> ks) @ keys)) target labels"

definition merge_authority :: "authority \<Rightarrow> authority \<Rightarrow> authority" where
  "merge_authority base extra = foldl (\<lambda>acc (sec, labels).
     dset acc sec (merge_labels (case dget acc sec of None \<Rightarrow> [] | Some t \<Rightarrow> t) labels)) base extra"

text \<open>Identities are compared as Python compares tuples of strings and integers.\<close>

definition json_order :: "json \<Rightarrow> nat \<times> int \<times> string" where
  "json_order v = (case v of JNull \<Rightarrow> (0, 0, []) | JBool b \<Rightarrow> (1, if b then 1 else 0, []) | JInt i \<Rightarrow> (1, i, [])
     | JStr s \<Rightarrow> (2, 0, s) | _ \<Rightarrow> (3, 0, []))"

definition switching_removal_keys :: "string \<Rightarrow> jdict \<Rightarrow> row_groups \<Rightarrow> exn + authority" where
  "switching_removal_keys stream authorized networked = (case stream_section stream of
       None \<Rightarrow> Inl (ValueError ''unknown projection stream'')
     | Some sec \<Rightarrow> bindE (foldE (\<lambda>acc (t, rows). bindE (rows_by_intent_identity authorized t) (\<lambda>ix.
           let identities = sort_key (map json_order) (map fst (filter (\<lambda>(_, row).
                 row_get row ''id'' \<in> set (map (\<lambda>r. row_get r ''id'') rows)) ix)) in
           Inr (if identities = [] then acc else dset acc t (map JList identities))))
         [] (sort_key fst networked)) (\<lambda>keys. Inr (if keys = [] then [] else [(sec, keys)])))"

section \<open>Links\<close>

record promotion =
  pm_row :: stream_row
  pm_receipt :: "receipt option"
  pm_desired :: jdict
  pm_networked :: row_groups
  pm_detached :: row_groups
  pm_replacement :: row_groups
  pm_positive :: bool
  pm_revision :: "int option"

record removal_link =
  rl_stream :: string
  rl_mode :: gen_mode
  rl_removed :: row_groups
  rl_replacement :: row_groups

text \<open>The intent a fragment holds: identity to row state, table by table, in canonical form.\<close>

type_synonym table_state = "(json list \<times> json) list"

definition table_state_of :: "jdict \<Rightarrow> string \<Rightarrow> exn + table_state" where
  "table_state_of tables t = bindE (rows_by_intent_identity tables t)
     (mapE (\<lambda>(identity, row). bindE (projection_row_state t row) (\<lambda>st. Inr (identity, canon (JObj st)))))"

definition logical_table_state :: "jdict option \<Rightarrow> exn + (string \<times> table_state) list" where
  "logical_table_state fragment = (let tables = fragment_tables fragment in
     mapE (\<lambda>t. bindE (table_state_of tables t) (\<lambda>st. Inr (t, st))) (sort (map fst tables)))"

text \<open>Equality of dictionaries does not look at the order of the keys.\<close>

definition dict_eq :: "('v \<Rightarrow> 'v \<Rightarrow> bool) \<Rightarrow> ('k \<times> 'v) list \<Rightarrow> ('k \<times> 'v) list \<Rightarrow> bool" where
  "dict_eq eq a b = list_all (\<lambda>k. case (dget a k, dget b k) of (Some x, Some y) \<Rightarrow> eq x y | _ \<Rightarrow> False) (map fst a @ map fst b)"

definition tables_unchanged :: "promotion \<Rightarrow> exn + bool" where
  "tables_unchanged p = bindE (logical_table_state (s_document (pm_row p))) (\<lambda>prior.
     bindE (logical_table_state (Some (pm_desired p))) (\<lambda>after. Inr (dict_eq (dict_eq (=)) prior after)))"

definition retained_tables_changed :: "promotion \<Rightarrow> exn + bool" where
  "retained_tables_changed p = bindE (logical_table_state (s_document (pm_row p))) (\<lambda>prior.
     bindE (logical_table_state (Some (pm_desired p))) (\<lambda>after.
       Inr (list_ex (\<lambda>(t, rows). list_ex (\<lambda>(identity, st).
         (case Option.bind (dget prior t) (\<lambda>old. dget old identity) of None \<Rightarrow> False | Some st' \<Rightarrow> st' \<noteq> st)) rows) after)))"

definition wire_equivalent_streams :: "string list" where
  "wire_equivalent_streams = ''static_route'' # OUT_OF_PROTOCOL_STREAMS"

record link_plan =
  lp_networked :: "removal_link list"
  lp_detach :: "removal_link list"
  lp_apply :: "string list"
  lp_wire_equivalent :: "string list"
  lp_unexecutable :: "(string \<times> string) list"

definition plan_links :: "link_plan \<Rightarrow> string \<times> promotion \<Rightarrow> link_plan" where
  "plan_links acc sp = (case sp of (stream, p) \<Rightarrow>
     let acc1 = (if any_rows (pm_networked p) \<or> any_rows (pm_replacement p)
           then acc\<lparr>lp_networked := lp_networked acc @ [\<lparr>rl_stream = stream, rl_mode = Networked, rl_removed = pm_networked p,
             rl_replacement = pm_replacement p\<rparr>]\<rparr> else acc)
     in if any_rows (pm_detached p)
        then acc1\<lparr>lp_detach := lp_detach acc1 @ [\<lparr>rl_stream = stream, rl_mode = Detach, rl_removed = pm_detached p, rl_replacement = []\<rparr>]\<rparr>
        else acc1)"

definition plan_stream :: "link_plan \<Rightarrow> string \<times> promotion \<Rightarrow> exn + link_plan" where
  "plan_stream acc sp = (case sp of (stream, p) \<Rightarrow>
     let networked = any_rows (pm_networked p); detach = any_rows (pm_detached p); replacement = any_rows (pm_replacement p);
         acc1 = plan_links acc sp; apply = acc1\<lparr>lp_apply := lp_apply acc1 @ [stream]\<rparr> in
     if detach \<and> replacement \<and> stream \<in> set INTENT_STREAMS
     then Inr (acc\<lparr>lp_unexecutable := dset (lp_unexecutable acc) stream ''mixed_detach_replacement''\<rparr>)
     else if \<not> (networked \<or> detach \<or> replacement) then
       bindE (if stream \<in> set wire_equivalent_streams \<and> \<not> pm_positive p
              then (if pm_revision p \<noteq> None then tables_unchanged p else Inr True) else Inr False) (\<lambda>settles.
         Inr (if settles then acc1\<lparr>lp_wire_equivalent := lp_wire_equivalent acc1 @ [stream]\<rparr> else apply))
     else if pm_positive p then Inr apply
     else if detach \<and> \<not> (networked \<or> replacement) \<and> pm_revision p \<noteq> None
     then bindE (retained_tables_changed p) (\<lambda>changed. Inr (if changed then apply else acc1))
     else Inr acc1)"

definition plan_action_links :: "(string \<times> promotion) list \<Rightarrow> exn + link_plan" where
  "plan_action_links promotions =
     bindE (foldE plan_stream \<lparr>lp_networked = [], lp_detach = [], lp_apply = [], lp_wire_equivalent = [], lp_unexecutable = []\<rparr> promotions)
       (\<lambda>plan. if lp_unexecutable plan \<noteq> [] then Inl (ApplyUnexecutable (lp_unexecutable plan)) else Inr plan)"

section \<open>Settling without a generation\<close>

definition has_pending_static_route_clear :: "jdict \<Rightarrow> bool" where
  "has_pending_static_route_clear fragment = list_ex (\<lambda>r. truthy (row_get r ''pending_clear'')) (table_rows fragment ''static_route_intent'')"

definition can_settle_wire_equivalent :: "store \<Rightarrow> int \<Rightarrow> promotion \<Rightarrow> bool" where
  "can_settle_wire_equivalent s d p =
     (s_authorized (pm_row p) = s_applied (pm_row p) \<and> \<not> has_pending_static_route_clear (pm_desired p) \<and>
      map_option canon (fragment_context (Some (pm_desired p))) = map_option canon (fragment_context (s_document (pm_row p))) \<and>
      first_by g_seq (filter (\<lambda>g. g_device g = d \<and> \<not> crossable (g_status g)) (st_gens s)) = None)"

definition settle_wire_equivalent :: "promotion \<Rightarrow> store \<Rightarrow> exn + store" where
  "settle_wire_equivalent p s = (let r = pm_row p; rv = (case pm_revision p of None \<Rightarrow> s_desired r | Some v \<Rightarrow> v) in
     bindE (authorized_assignment (pm_desired p)) (\<lambda>doc.
       Inr (upd_streams (\<lambda>x. s_device x = s_device r \<and> s_stream x = s_stream r)
         (\<lambda>x. x\<lparr>s_authorized := rv, s_applied := rv, s_document := Some doc\<rparr>) s)))"

section \<open>The plan of an apply chain\<close>

text \<open>The prepared slot of an out-of-protocol stream: its tables and deletion groups.\<close>

type_synonym prepared_slots = "string \<Rightarrow> jdict option \<times> (string \<times> row_groups) list option"

definition build_promotion :: "push_db \<Rightarrow> prepared_slots \<Rightarrow> int \<Rightarrow> string \<Rightarrow> selection \<Rightarrow> exn + promotion \<times> authority" where
  "build_promotion db slots d stream sel = (let row = sl_row sel in case (sl_revision sel, sl_receipt sel) of
       (None, Some rc) \<Rightarrow>
         bindE (snapshot_of db d stream) (\<lambda>tables.
         bindE (freeze_or_refuse (p_tabs db) (p_ned db d) d stream tables) (\<lambda>desired.
         bindE (fragment_deletions (s_document row) desired rc) (\<lambda>(networked, detached).
         bindE (content_losing_rows (s_document row) desired) (\<lambda>replacement.
         bindE (has_positive_delta (s_document row) desired) (\<lambda>positive.
           Inr (\<lparr>pm_row = row, pm_receipt = Some rc, pm_desired = desired, pm_networked = networked, pm_detached = detached,
             pm_replacement = replacement, pm_positive = positive, pm_revision = None\<rparr>, []))))))
     | (Some rv, _) \<Rightarrow>
         let tables = (case fst (slots stream) of None \<Rightarrow> [] | Some t \<Rightarrow> t);
             authorized = fragment_tables (s_document row);
             (networked, detached) = prepared_deletions (snd (slots stream)) in
         bindE (freeze_or_refuse (p_tabs db) (p_ned db d) d stream tables) (\<lambda>desired.
         bindE (content_losing_rows (Some authorized) tables) (\<lambda>replacement.
         bindE (has_positive_delta (Some authorized) tables) (\<lambda>positive.
         bindE (switching_removal_keys stream authorized networked) (\<lambda>keys.
           Inr (\<lparr>pm_row = row, pm_receipt = sl_receipt sel, pm_desired = desired, pm_networked = networked, pm_detached = detached,
             pm_replacement = replacement, pm_positive = positive, pm_revision = Some rv\<rparr>, keys)))))
     | (None, None) \<Rightarrow> Inl (RuntimeError ''a receipt lane was selected without its receipt''))"

record chain_plan =
  cp_promotions :: "(string \<times> promotion) list"
  cp_intermediate :: "(string \<times> jdict) list"
  cp_authority :: authority

definition plan_promotion :: "push_db \<Rightarrow> prepared_slots \<Rightarrow> int \<Rightarrow> chain_plan \<Rightarrow> string \<times> selection \<Rightarrow> exn + chain_plan" where
  "plan_promotion db slots d acc ss = (case ss of (stream, sel) \<Rightarrow>
     bindE (build_promotion db slots d stream sel) (\<lambda>(p, keys).
     bindE (retain_rows (pm_desired p) (pm_detached p) stream (s_document (pm_row p))) (\<lambda>intermediate.
       Inr (acc\<lparr>cp_promotions := dset (cp_promotions acc) stream p, cp_intermediate := dset (cp_intermediate acc) stream intermediate,
         cp_authority := merge_authority (cp_authority acc) keys\<rparr>))))"

text \<open>
  The part of \<open>_create_apply_chain\<close> prior its jobs are created: the promotions, the final and
  the intermediate document, the links, and the streams settled without a generation.
\<close>

record apply_chain =
  ac_db :: push_db
  ac_promotions :: "(string \<times> promotion) list"
  ac_final :: jdict
  ac_intermediate :: jdict
  ac_links :: link_plan
  ac_skipped :: "(string \<times> string) list"
  ac_authority :: authority

definition settle_streams :: "int \<Rightarrow> (string \<times> promotion) list \<Rightarrow> apply_chain \<Rightarrow> string \<Rightarrow> exn + apply_chain" where
  "settle_streams d promotions ac stream = (case dget promotions stream of
       None \<Rightarrow> Inl (KeyError stream)
     | Some p \<Rightarrow> let s = p_store (ac_db ac) in
         if can_settle_wire_equivalent s d p then
           bindE (settle_wire_equivalent p s) (\<lambda>s'. Inr (ac\<lparr>ac_db := (ac_db ac)\<lparr>p_store := s'\<rparr>,
             ac_skipped := dset (ac_skipped ac) stream ''already_applied''\<rparr>))
         else Inr (ac\<lparr>ac_links := (ac_links ac)\<lparr>lp_apply := lp_apply (ac_links ac) @ [stream]\<rparr>\<rparr>))"

text \<open>The selected rows are the store's own rows, so the pruning of consumed carriers reaches them.\<close>

definition current_selection :: "store \<Rightarrow> int \<Rightarrow> string \<times> selection \<Rightarrow> string \<times> selection" where
  "current_selection s d ss = (case ss of (stream, sel) \<Rightarrow>
     (stream, case stream_at s d stream of None \<Rightarrow> sel | Some r \<Rightarrow> sel\<lparr>sl_row := r\<rparr>))"

definition plan_apply_chain :: "prepared_slots \<Rightarrow> int \<Rightarrow> (string \<times> selection) list \<Rightarrow> push_db \<Rightarrow> exn + apply_chain" where
  "plan_apply_chain slots d selections db0 =
     (let db1 = (if dhas selections ''static_route'' then promote_static_route_clears d db0 else db0) in
      bindE (refresh_consumed_carriers d [] (p_store db1)) (\<lambda>(s, authorized).
      let db = db1\<lparr>p_store := s\<rparr> in
      bindE (foldE (plan_promotion db slots d) \<lparr>cp_promotions = [], cp_intermediate = [], cp_authority = []\<rparr>
               (map (current_selection s d) selections)) (\<lambda>cp.
      bindE (compose_document (dmerge authorized (map (\<lambda>(st, p). (st, pm_desired p)) (cp_promotions cp)))) (\<lambda>final.
      bindE (compose_document (dmerge authorized (cp_intermediate cp))) (\<lambda>intermediate.
      bindE (plan_action_links (cp_promotions cp)) (\<lambda>links.
        foldE (settle_streams d (cp_promotions cp))
          \<lparr>ac_db = db, ac_promotions = cp_promotions cp, ac_final = final, ac_intermediate = intermediate, ac_links = links,
            ac_skipped = [], ac_authority = cp_authority cp\<rparr>
          (lp_wire_equivalent links)))))))"

section \<open>Deletions are split by their marking\<close>

lemma group_rows_add: "group_rows (add_row g t row) u = group_rows g u @ (if u = t then [row] else [])"
  by (simp add: group_rows_def add_row_def)

definition leaves_intent :: "string \<Rightarrow> row_index \<Rightarrow> json list \<times> jdict \<Rightarrow> bool" where
  "leaves_intent t want ir = (is_intent_deletion t (fst ir) want = Inr True \<and>
     row_get (snd ir) ''route_id'' \<notin> set (successor_route_ids t want))"

definition marked_delete :: "receipt \<Rightarrow> string \<Rightarrow> jdict \<Rightarrow> bool" where
  "marked_delete rc t row = (marking_of (explicit_deletion_markings rc) (request_marking (rc_delete_origin rc)) t row = DELETE_ORIGIN_MARKING)"

lemma split_rows:
  assumes "foldE (split_deletion ex def t want) (n, dt) rows = Inr (n', dt')"
  shows "group_rows n' u = group_rows n u @ (if u = t
        then map snd (filter (\<lambda>ir. leaves_intent t want ir \<and> marking_of ex def t (snd ir) = DELETE_ORIGIN_MARKING) rows) else []) \<and>
    group_rows dt' u = group_rows dt u @ (if u = t
        then map snd (filter (\<lambda>ir. leaves_intent t want ir \<and> marking_of ex def t (snd ir) \<noteq> DELETE_ORIGIN_MARKING) rows) else [])"
  using assms
proof (induction rows arbitrary: n dt)
  case (Cons ir rows)
  obtain i row where [simp]: "ir = (i, row)" by (cases ir)
  obtain n1 dt1 where one: "split_deletion ex def t want (n, dt) ir = Inr (n1, dt1)"
    and rest: "foldE (split_deletion ex def t want) (n1, dt1) rows = Inr (n', dt')"
    using Cons.prems by (auto simp: bindE_eq_Inr)
  obtain gone where gone: "is_intent_deletion t i want = Inr gone" using one by (auto simp: split_deletion_def bindE_eq_Inr)
  let ?m = "marking_of ex def t row = DELETE_ORIGIN_MARKING" and ?l = "leaves_intent t want (i, row)"
  have l: "?l \<longleftrightarrow> gone \<and> row_get row ''route_id'' \<notin> set (successor_route_ids t want)" by (simp add: leaves_intent_def gone)
  have "n1 = (if ?l \<and> ?m then add_row n t row else n)" "dt1 = (if ?l \<and> \<not> ?m then add_row dt t row else dt)"
    using one gone l by (auto simp: split_deletion_def split: if_splits)
  with Cons.IH [OF rest] show ?case by (auto simp: group_rows_add)
qed simp

lemma split_tables:
  assumes "foldE (split_table ex def old desired) (n, dt) ts = Inr (n', dt')" and "distinct ts"
    and "t \<in> set ts" and "group_rows n t = []" and "group_rows dt t = []"
  shows "\<exists>want have_rows. rows_by_intent_identity desired t = Inr want \<and> rows_by_intent_identity old t = Inr have_rows \<and>
    group_rows n' t = map snd (filter (\<lambda>ir. leaves_intent t want ir \<and> marking_of ex def t (snd ir) = DELETE_ORIGIN_MARKING) have_rows) \<and>
    group_rows dt' t = map snd (filter (\<lambda>ir. leaves_intent t want ir \<and> marking_of ex def t (snd ir) \<noteq> DELETE_ORIGIN_MARKING) have_rows)"
proof -
  have same: "group_rows n2 u = group_rows n1 u \<and> group_rows d2 u = group_rows d1 u"
    if "foldE (split_table ex def old desired) (n1, d1) us = Inr (n2, d2)" "u \<notin> set us" for us u n1 n2 d1 d2
    using that
  proof (induction us arbitrary: n1 d1)
    case (Cons x us)
    obtain n3 d3 where one: "split_table ex def old desired (n1, d1) x = Inr (n3, d3)"
      and rest: "foldE (split_table ex def old desired) (n3, d3) us = Inr (n2, d2)"
      using Cons.prems(1) by (auto simp: bindE_eq_Inr)
    have "group_rows n3 u = group_rows n1 u \<and> group_rows d3 u = group_rows d1 u"
      using one Cons.prems(2) by (auto simp: split_table_def bindE_eq_Inr dest!: split_rows [where u = u])
    with Cons.IH [OF rest] Cons.prems(2) show ?case by auto
  qed simp
  show ?thesis
    using assms
  proof (induction ts arbitrary: n dt)
    case (Cons x ts)
    obtain n1 d1 where one: "split_table ex def old desired (n, dt) x = Inr (n1, d1)"
      and rest: "foldE (split_table ex def old desired) (n1, d1) ts = Inr (n', dt')"
      using Cons.prems(1) by (auto simp: bindE_eq_Inr)
    obtain want have_rows where w: "rows_by_intent_identity desired x = Inr want" "rows_by_intent_identity old x = Inr have_rows"
      and f: "foldE (split_deletion ex def x want) (n, dt) have_rows = Inr (n1, d1)"
      using one by (auto simp: split_table_def bindE_eq_Inr)
    show ?case
    proof (cases "x = t")
      case True
      then have "t \<notin> set ts" using Cons.prems(2) by simp
      from same [OF rest this] split_rows [OF f, of t] w True Cons.prems(4,5) show ?thesis by auto
    next
      case False
      then have "group_rows n1 t = []" "group_rows d1 t = []" using split_rows [OF f, of t] Cons.prems(4,5) by auto
      with Cons.IH [OF rest] Cons.prems(2,3) False show ?thesis by auto
    qed
  qed simp
qed

lemma fragment_deletions_split:
  assumes "fragment_deletions old desired rc = Inr (networked, detached)"
    and "distinct (map fst (fragment_tables old))" and "t \<in> set (map fst (fragment_tables old))"
  shows "\<exists>want have_rows. rows_by_intent_identity (fragment_tables (Some desired)) t = Inr want \<and>
    rows_by_intent_identity (fragment_tables old) t = Inr have_rows \<and>
    group_rows networked t = map snd (filter (\<lambda>ir. leaves_intent t want ir \<and> marked_delete rc t (snd ir)) have_rows) \<and>
    group_rows detached t = map snd (filter (\<lambda>ir. leaves_intent t want ir \<and> \<not> marked_delete rc t (snd ir)) have_rows)"
  unfolding marked_delete_def
  by (rule split_tables [OF assms(1) [unfolded fragment_deletions_def Let_def]])
    (use assms(2,3) in \<open>simp_all add: group_rows_def\<close>)

lemma add_row_keys: "distinct (map fst (add_row g t row)) = distinct (map fst g)" "fst ` set (add_row g t row) = insert t (fst ` set g)"
  by (simp_all add: add_row_def keys_dset)

lemma split_keys:
  assumes "foldE (split_table ex def old desired) (n, dt) ts = Inr (n', dt')" and "distinct (map fst dt)"
  shows "distinct (map fst dt') \<and> fst ` set dt' \<subseteq> fst ` set dt \<union> set ts"
proof -
  have row: "distinct (map fst d2) \<and> fst ` set d2 \<subseteq> insert t (fst ` set d1)"
    if "split_deletion ex def t want (n1, d1) ir = Inr (n2, d2)" "distinct (map fst d1)" for t want n1 d1 n2 d2 ir
  proof -
    have "d2 = d1 \<or> (\<exists>b. d2 = add_row d1 t b)"
      using that(1) by (cases ir) (auto simp: split_deletion_def bindE_eq_Inr split: if_splits)
    then show ?thesis using that(2) by (elim disjE exE) (simp_all add: add_row_keys subset_insertI)
  qed
  have rows: "distinct (map fst d2) \<and> fst ` set d2 \<subseteq> insert t (fst ` set d1)"
    if "foldE (split_deletion ex def t want) (n1, d1) xs = Inr (n2, d2)" "distinct (map fst d1)" for t want n1 d1 n2 d2 xs
    using that
  proof (induction xs arbitrary: n1 d1)
    case (Cons x xs)
    obtain n3 d3 where one: "split_deletion ex def t want (n1, d1) x = Inr (n3, d3)"
      and rest: "foldE (split_deletion ex def t want) (n3, d3) xs = Inr (n2, d2)"
      using Cons.prems(1) by (auto simp: bindE_eq_Inr)
    note step = row [OF one Cons.prems(2)]
    from Cons.IH [OF rest conjunct1 [OF step]] step show ?case by blast
  qed auto
  show ?thesis
    using assms
  proof (induction ts arbitrary: n dt)
    case (Cons t ts)
    obtain n3 d3 where one: "split_table ex def old desired (n, dt) t = Inr (n3, d3)"
      and rest: "foldE (split_table ex def old desired) (n3, d3) ts = Inr (n', dt')"
      using Cons.prems(1) by (auto simp: bindE_eq_Inr)
    obtain want xs where "foldE (split_deletion ex def t want) (n, dt) xs = Inr (n3, d3)"
      using one by (auto simp: split_table_def bindE_eq_Inr)
    note step = rows [OF this Cons.prems(2)]
    from Cons.IH [OF rest conjunct1 [OF step]] step show ?case by auto
  qed simp
qed

lemma table_rows_dset: "table_rows (dset d t (JList (map JObj rows))) u = (if u = t then rows else table_rows d u)"
  by (simp add: table_rows_def rows_of_def jdict_of_def comp_def)

lemma group_rows_Cons: "group_rows ((u, rows) # g) t = (if t = u then rows else group_rows g t)"
  by (simp add: group_rows_def)

lemma retain_tables:
  assumes "foldE retain_table result retained = Inr result'" and "distinct (map fst retained)"
  shows "set (table_rows result' t) = set (table_rows result t) \<union> set (group_rows retained t)"
  using assms
proof (induction retained arbitrary: result)
  case (Cons tr retained)
  obtain u rows where [simp]: "tr = (u, rows)" by (cases tr)
  obtain mid where one: "retain_table result (u, rows) = Inr mid" and rest: "foldE retain_table mid retained = Inr result'"
    using Cons.prems(1) by (auto simp: bindE_eq_Inr)
  have mid: "set (table_rows mid t) = (if t = u then set (table_rows result u) \<union> set rows else set (table_rows result t))"
    using one by (auto simp: retain_table_def Let_def table_rows_dset split: if_splits)
  have "group_rows retained u = []"
    using Cons.prems(2) by (auto simp: group_rows_def dget_def dest!: map_of_SomeD split: option.splits intro: rev_image_eqI)
  with Cons.IH [OF rest] Cons.prems(2) mid show ?case by (simp add: group_rows_Cons)
qed (simp add: group_rows_def)

lemma retain_rows_tables:
  assumes "retain_rows desired retained stream source = Inr intermediate" and "distinct (map fst retained)" and "t \<noteq> EXECUTION_KEY"
  shows "set (table_rows intermediate t) = set (table_rows desired t) \<union> set (group_rows retained t)"
proof -
  obtain result x where "foldE retain_table desired retained = Inr result" "intermediate = dset result EXECUTION_KEY x"
    using assms(1) by (auto simp: retain_rows_def Let_def bindE_eq_Inr)
  then show ?thesis using retain_tables [of desired retained result t] assms(2,3) by (simp add: table_rows_def)
qed

section \<open>Planning\<close>

text \<open>What the plan of one stream adds.\<close>

definition networked_links :: "link_plan \<Rightarrow> string \<Rightarrow> removal_link list" where
  "networked_links plan stream = filter (\<lambda>l. rl_stream l = stream) (lp_networked plan)"

definition detach_links :: "link_plan \<Rightarrow> string \<Rightarrow> removal_link list" where
  "detach_links plan stream = filter (\<lambda>l. rl_stream l = stream) (lp_detach plan)"

definition stream_untouched :: "link_plan \<Rightarrow> string \<Rightarrow> bool" where
  "stream_untouched plan stream = (networked_links plan stream = [] \<and> detach_links plan stream = [] \<and>
     stream \<notin> set (lp_apply plan) \<and> stream \<notin> set (lp_wire_equivalent plan))"

definition stream_planned :: "link_plan \<Rightarrow> string \<Rightarrow> promotion \<Rightarrow> bool" where
  "stream_planned plan stream p =
     (networked_links plan stream = (if any_rows (pm_networked p) \<or> any_rows (pm_replacement p)
        then [\<lparr>rl_stream = stream, rl_mode = Networked, rl_removed = pm_networked p, rl_replacement = pm_replacement p\<rparr>] else []) \<and>
      detach_links plan stream = (if any_rows (pm_detached p)
        then [\<lparr>rl_stream = stream, rl_mode = Detach, rl_removed = pm_detached p, rl_replacement = []\<rparr>] else []) \<and>
      (pm_positive p \<longrightarrow> stream \<in> set (lp_apply plan)) \<and>
      (stream \<in> set (lp_wire_equivalent plan) \<longrightarrow> \<not> any_rows (pm_networked p) \<and> \<not> any_rows (pm_detached p) \<and>
         \<not> any_rows (pm_replacement p) \<and> \<not> pm_positive p \<and> stream \<in> set wire_equivalent_streams \<and>
         (pm_revision p \<noteq> None \<longrightarrow> tables_unchanged p = Inr True)) \<and>
      (stream \<in> set (lp_apply plan) \<or> stream \<in> set (lp_wire_equivalent plan) \<or>
         any_rows (pm_networked p) \<or> any_rows (pm_detached p) \<or> any_rows (pm_replacement p)) \<and>
      \<not> (stream \<in> set (lp_apply plan) \<and> stream \<in> set (lp_wire_equivalent plan)) \<and>
      (any_rows (pm_detached p) \<and> any_rows (pm_replacement p) \<longrightarrow> stream \<notin> set INTENT_STREAMS))"

definition same_stream :: "string \<Rightarrow> link_plan \<Rightarrow> link_plan \<Rightarrow> bool" where
  "same_stream stream a b = (networked_links b stream = networked_links a stream \<and> detach_links b stream = detach_links a stream \<and>
     (stream \<in> set (lp_apply b) \<longleftrightarrow> stream \<in> set (lp_apply a)) \<and>
     (stream \<in> set (lp_wire_equivalent b) \<longleftrightarrow> stream \<in> set (lp_wire_equivalent a)))"

lemma plan_links_effect:
  "networked_links (plan_links acc (stream, p)) u = networked_links acc u @ (if u = stream \<and> (any_rows (pm_networked p) \<or> any_rows (pm_replacement p))
     then [\<lparr>rl_stream = stream, rl_mode = Networked, rl_removed = pm_networked p, rl_replacement = pm_replacement p\<rparr>] else [])"
  "detach_links (plan_links acc (stream, p)) u = detach_links acc u @ (if u = stream \<and> any_rows (pm_detached p)
     then [\<lparr>rl_stream = stream, rl_mode = Detach, rl_removed = pm_detached p, rl_replacement = []\<rparr>] else [])"
  "lp_apply (plan_links acc (stream, p)) = lp_apply acc" "lp_wire_equivalent (plan_links acc (stream, p)) = lp_wire_equivalent acc"
  "lp_unexecutable (plan_links acc (stream, p)) = lp_unexecutable acc"
  by (auto simp: plan_links_def Let_def networked_links_def detach_links_def)

lemma links_update [simp]:
  "networked_links (acc\<lparr>lp_apply := x\<rparr>) u = networked_links acc u" "detach_links (acc\<lparr>lp_apply := x\<rparr>) u = detach_links acc u"
  "networked_links (acc\<lparr>lp_wire_equivalent := x\<rparr>) u = networked_links acc u"
  "detach_links (acc\<lparr>lp_wire_equivalent := x\<rparr>) u = detach_links acc u"
  "networked_links (acc\<lparr>lp_unexecutable := y\<rparr>) u = networked_links acc u"
  "detach_links (acc\<lparr>lp_unexecutable := y\<rparr>) u = detach_links acc u"
  by (simp_all add: networked_links_def detach_links_def)

lemma dset_not_Nil [simp]: "dset d k v \<noteq> []"
  by (induction d k v rule: dset.induct) auto

text \<open>The four ways a stream that can be executed is planned.\<close>

lemma plan_stream_executable:
  assumes "plan_stream acc (stream, p) = Inr acc'" and "lp_unexecutable acc' = []"
  shows "\<not> (any_rows (pm_detached p) \<and> any_rows (pm_replacement p) \<and> stream \<in> set INTENT_STREAMS)"
proof
  assume "any_rows (pm_detached p) \<and> any_rows (pm_replacement p) \<and> stream \<in> set INTENT_STREAMS"
  then have "acc' = acc\<lparr>lp_unexecutable := dset (lp_unexecutable acc) stream ''mixed_detach_replacement''\<rparr>"
    using assms(1) unfolding plan_stream_def Let_def by simp
  then show False using assms(2) by simp
qed

lemma plan_stream_cases:
  assumes "plan_stream acc (stream, p) = Inr acc'" and "lp_unexecutable acc' = []"
  obtains (applied) "acc' = (plan_links acc (stream, p))\<lparr>lp_apply := lp_apply acc @ [stream]\<rparr>"
  | (settles) "acc' = (plan_links acc (stream, p))\<lparr>lp_wire_equivalent := lp_wire_equivalent acc @ [stream]\<rparr>"
      "\<not> any_rows (pm_networked p)" "\<not> any_rows (pm_detached p)" "\<not> any_rows (pm_replacement p)" "\<not> pm_positive p"
      "stream \<in> set wire_equivalent_streams" "pm_revision p \<noteq> None \<longrightarrow> tables_unchanged p = Inr True"
  | (links) "acc' = plan_links acc (stream, p)" "\<not> pm_positive p"
      "any_rows (pm_networked p) \<or> any_rows (pm_detached p) \<or> any_rows (pm_replacement p)"
proof -
  note planned = assms(1) [unfolded plan_stream_def Let_def prod.case if_not_P [OF plan_stream_executable [OF assms]] plan_links_effect(3,4)]
  show thesis
  proof (cases "any_rows (pm_networked p) \<or> any_rows (pm_detached p) \<or> any_rows (pm_replacement p)")
    case False
    then obtain b where b: "(if stream \<in> set wire_equivalent_streams \<and> \<not> pm_positive p
        then (if pm_revision p \<noteq> None then tables_unchanged p else Inr True) else Inr False) = Inr b"
      and acc': "acc' = (if b then (plan_links acc (stream, p))\<lparr>lp_wire_equivalent := lp_wire_equivalent acc @ [stream]\<rparr>
        else (plan_links acc (stream, p))\<lparr>lp_apply := lp_apply acc @ [stream]\<rparr>)"
      using planned by (simp add: bindE_eq_Inr) blast
    show thesis
    proof (cases b)
      case True
      have "stream \<in> set wire_equivalent_streams \<and> \<not> pm_positive p" using b True by (simp split: if_splits)
      moreover from this have "pm_revision p \<noteq> None \<longrightarrow> tables_unchanged p = Inr True" using b True by (simp split: if_splits)
      ultimately show thesis using acc' True False settles by simp
    next
      case False
      then show thesis using acc' applied by simp
    qed
  next
    case some: True
    show thesis
    proof (cases "pm_positive p")
      case True
      then show thesis using planned some applied by simp
    next
      case False
      have "acc' = plan_links acc (stream, p) \<or> acc' = (plan_links acc (stream, p))\<lparr>lp_apply := lp_apply acc @ [stream]\<rparr>"
        using planned some False by (auto simp: bindE_eq_Inr split: if_splits)
      then show thesis using applied links some False by blast
    qed
  qed
qed

lemma plan_stream_unexecutable:
  assumes "plan_stream acc (stream, p) = Inr acc'" and "lp_unexecutable acc' = []"
  shows "lp_unexecutable acc = []"
  using assms by (cases rule: plan_stream_cases) (use assms(2) in \<open>simp_all add: plan_links_effect\<close>)

lemma plan_stream_other:
  assumes "plan_stream acc (stream, p) = Inr acc'" and "lp_unexecutable acc' = []" and "u \<noteq> stream"
  shows "same_stream u acc acc'"
  using assms(1,2) by (cases rule: plan_stream_cases) (use assms(3) in \<open>auto simp: same_stream_def plan_links_effect\<close>)

lemma plan_stream_own:
  assumes "plan_stream acc (stream, p) = Inr acc'" and "lp_unexecutable acc' = []" and "stream_untouched acc stream"
  shows "stream_planned acc' stream p"
  using assms(1,2)
proof (cases rule: plan_stream_cases)
  case applied
  then show ?thesis using plan_stream_executable [OF assms(1,2)] assms(3) by (auto simp: stream_planned_def stream_untouched_def plan_links_effect)
next
  case settles
  then show ?thesis using plan_stream_executable [OF assms(1,2)] assms(3) by (auto simp: stream_planned_def stream_untouched_def plan_links_effect)
next
  case links
  then show ?thesis using plan_stream_executable [OF assms(1,2)] assms(3) by (auto simp: stream_planned_def stream_untouched_def plan_links_effect)
qed

lemma planned_same: "stream_planned a stream p \<Longrightarrow> same_stream stream a b \<Longrightarrow> stream_planned b stream p"
  by (simp add: stream_planned_def same_stream_def)

lemma untouched_same: "stream_untouched a stream \<Longrightarrow> same_stream stream a b \<Longrightarrow> stream_untouched b stream"
  by (simp add: stream_untouched_def same_stream_def)

lemma same_stream_trans: "same_stream u a b \<Longrightarrow> same_stream u b c \<Longrightarrow> same_stream u a c"
  by (simp add: same_stream_def)

lemma plan_streams:
  assumes "foldE plan_stream acc ps = Inr plan" and "lp_unexecutable plan = []" and "distinct (map fst ps)"
  shows "lp_unexecutable acc = [] \<and> (\<forall>u. u \<notin> fst ` set ps \<longrightarrow> same_stream u acc plan) \<and>
    (\<forall>(stream, p) \<in> set ps. stream_untouched acc stream \<longrightarrow> stream_planned plan stream p)"
  using assms
proof (induction ps arbitrary: acc)
  case Nil
  then show ?case by (simp add: same_stream_def)
next
  case (Cons sp ps)
  obtain stream p where [simp]: "sp = (stream, p)" by (cases sp)
  obtain mid where one: "plan_stream acc (stream, p) = Inr mid" and rest: "foldE plan_stream mid ps = Inr plan"
    using Cons.prems(1) by (auto simp: bindE_eq_Inr)
  have fresh: "stream \<notin> fst ` set ps" and "distinct (map fst ps)" using Cons.prems(3) by auto
  note ih = Cons.IH [OF rest Cons.prems(2) this(2)]
  have mid: "lp_unexecutable mid = []" using ih by blast
  have "stream_planned plan stream p" if "stream_untouched acc stream"
    using planned_same [OF plan_stream_own [OF one mid that]] ih fresh by blast
  moreover have "stream_planned plan u q" if "(u, q) \<in> set ps" "stream_untouched acc u" for u q
  proof -
    have "u \<noteq> stream" using that(1) fresh by (force)
    then show ?thesis using untouched_same [OF that(2) plan_stream_other [OF one mid]] ih that(1) by blast
  qed
  moreover have "same_stream u acc plan" if "u \<notin> fst ` set ps" "u \<noteq> stream" for u
    using same_stream_trans [OF plan_stream_other [OF one mid that(2)]] ih that(1) by blast
  ultimately show ?case using plan_stream_unexecutable [OF one mid] by auto
qed

section \<open>Selection\<close>

lemma resolved_receipt:
  assumes "resolve_receipt_selection later d stream n row rc = Inr (Some sel, reason, detail)"
  shows "row = Some (sl_row sel) \<and> rc = sl_receipt sel \<and> sl_revision sel = None \<and>
    (\<exists>c. rc = Some c \<and> rc_push_seq c = n \<and> \<not> rc_backfill_only c) \<and> s_push_seq (sl_row sel) = Some n \<and>
    s_applied (sl_row sel) < s_desired (sl_row sel) \<and> s_authorized (sl_row sel) < s_desired (sl_row sel)"
  using assms
  by (auto simp: resolve_receipt_selection_def split: option.splits if_splits)

lemma resolved_prepared:
  assumes "resolve_prepared_selection row n = None"
  shows "\<exists>r. row = Some r \<and> s_prepared r = Some n \<and> s_applied r < n \<and> s_authorized r < n"
  using assms by (auto simp: resolve_prepared_selection_def split: option.splits if_splits)

text \<open>
  A selection names its stream's row and is newer than everything applied or authorized: the
  latest receipt's own push, or the prepared revision.
\<close>

definition exact_selection :: "store \<Rightarrow> receipt list \<Rightarrow> int \<Rightarrow> string \<Rightarrow> int \<Rightarrow> selection \<Rightarrow> bool" where
  "exact_selection s rs d stream n sel = (stream_at s d stream = Some (sl_row sel) \<and>
     (if stream \<in> set OUT_OF_PROTOCOL_STREAMS
      then sl_revision sel = Some n \<and> s_prepared (sl_row sel) = Some n \<and> s_applied (sl_row sel) < n \<and> s_authorized (sl_row sel) < n
      else sl_revision sel = None \<and> sl_receipt sel = latest_receipt rs d stream \<and>
        (case sl_receipt sel of None \<Rightarrow> False | Some c \<Rightarrow> rc_push_seq c = n \<and> \<not> rc_backfill_only c) \<and>
        s_push_seq (sl_row sel) = Some n \<and> s_applied (sl_row sel) < s_desired (sl_row sel) \<and>
        s_authorized (sl_row sel) < s_desired (sl_row sel)))"

lemma select_stream_cases:
  assumes "select_stream s later rs d acc (stream, n) = Inr acc'"
  shows "(\<exists>sel. acc' = acc\<lparr>se_promotable := dset (se_promotable acc) stream sel\<rparr> \<and> exact_selection s rs d stream n sel) \<or>
    (\<exists>reason details. acc' = acc\<lparr>se_skipped := dset (se_skipped acc) stream reason, se_detail := details\<rparr>)"
proof -
  obtain sel reason detail where res: "(if stream \<in> set OUT_OF_PROTOCOL_STREAMS then
              Inr (case resolve_prepared_selection (stream_at s d stream) n of
                  None \<Rightarrow> (map_option (\<lambda>r. \<lparr>sl_row = r, sl_receipt = None, sl_revision = Some n\<rparr>) (stream_at s d stream), [], None)
                | Some reason \<Rightarrow> (None, reason, if reason = ''already_authorized''
                    then authorized_generation_detail later d stream n else None))
            else resolve_receipt_selection later d stream n (stream_at s d stream) (latest_receipt rs d stream)) = Inr (sel, reason, detail)"
    and acc': "acc' = (case sel of Some x \<Rightarrow> acc\<lparr>se_promotable := dset (se_promotable acc) stream x\<rparr>
          | None \<Rightarrow> acc\<lparr>se_skipped := dset (se_skipped acc) stream reason,
              se_detail := (case detail of None \<Rightarrow> se_detail acc | Some x \<Rightarrow> dset (se_detail acc) stream x)\<rparr>)"
    using assms unfolding select_stream_def Let_def by (auto simp: bindE_eq_Inr)
  show ?thesis
  proof (cases sel)
    case None
    then show ?thesis using acc' by auto
  next
    case (Some x)
    have "exact_selection s rs d stream n x"
    proof (cases "stream \<in> set OUT_OF_PROTOCOL_STREAMS")
      case True
      then have none: "resolve_prepared_selection (stream_at s d stream) n = None"
        using res Some by (cases "resolve_prepared_selection (stream_at s d stream) n") auto
      from resolved_prepared [OF this] res True Some none show ?thesis by (auto simp: exact_selection_def)
    next
      case False
      then have "resolve_receipt_selection later d stream n (stream_at s d stream) (latest_receipt rs d stream) = Inr (Some x, reason, detail)"
        using res Some by simp
      from resolved_receipt [OF this] False show ?thesis
        by (cases "sl_receipt x") (auto simp: exact_selection_def)
    qed
    then show ?thesis using acc' Some by auto
  qed
qed

lemma select_streams:
  assumes "foldE (select_stream s later rs d) acc sels = Inr out" and "distinct (map fst sels)"
    and "\<forall>x \<in> fst ` set sels. \<not> dhas (se_promotable acc) x \<and> \<not> dhas (se_skipped acc) x"
  shows "(\<forall>(stream, n) \<in> set sels. (case dget (se_promotable out) stream of
       Some sel \<Rightarrow> exact_selection s rs d stream n sel \<and> \<not> dhas (se_skipped out) stream
     | None \<Rightarrow> dhas (se_skipped out) stream)) \<and>
    (\<forall>u. u \<notin> fst ` set sels \<longrightarrow> dget (se_promotable out) u = dget (se_promotable acc) u \<and> dhas (se_skipped out) u = dhas (se_skipped acc) u)"
  using assms
proof (induction sels arbitrary: acc)
  case (Cons x sels)
  obtain stream n where [simp]: "x = (stream, n)" by (cases x)
  obtain mid where one: "select_stream s later rs d acc (stream, n) = Inr mid" and rest: "foldE (select_stream s later rs d) mid sels = Inr out"
    using Cons.prems(1) by (auto simp: bindE_eq_Inr)
  have fresh: "stream \<notin> fst ` set sels" and dist: "distinct (map fst sels)"
    and none: "dget (se_promotable acc) stream = None" "\<not> dhas (se_skipped acc) stream"
    using Cons.prems(2,3) by (auto simp: dhas_iff)
  have other: "dget (se_promotable mid) u = dget (se_promotable acc) u \<and> dhas (se_skipped mid) u = dhas (se_skipped acc) u"
    if "u \<noteq> stream" for u
    using select_stream_cases [OF one] that by (auto simp: dhas_iff)
  have "\<forall>x \<in> fst ` set sels. \<not> dhas (se_promotable mid) x \<and> \<not> dhas (se_skipped mid) x"
  proof
    fix u
    assume u: "u \<in> fst ` set sels"
    then have "u \<noteq> stream" using fresh by blast
    moreover have "\<not> dhas (se_promotable acc) u \<and> \<not> dhas (se_skipped acc) u"
      using bspec [OF Cons.prems(3), of u] u by simp
    ultimately show "\<not> dhas (se_promotable mid) u \<and> \<not> dhas (se_skipped mid) u" using other [of u] by (simp add: dhas_iff)
  qed
  note ih = Cons.IH [OF rest dist this]
  have own: "dget (se_promotable out) stream = dget (se_promotable mid) stream" "dhas (se_skipped out) stream = dhas (se_skipped mid) stream"
    using ih fresh by blast+
  have "case dget (se_promotable out) stream of Some sel \<Rightarrow> exact_selection s rs d stream n sel \<and> \<not> dhas (se_skipped out) stream
     | None \<Rightarrow> dhas (se_skipped out) stream"
    using select_stream_cases [OF one] none unfolding own by (auto simp: dhas_iff)
  moreover have "\<forall>u. u \<notin> fst ` set (x # sels) \<longrightarrow>
      dget (se_promotable out) u = dget (se_promotable acc) u \<and> dhas (se_skipped out) u = dhas (se_skipped acc) u"
    using ih other by auto
  ultimately show ?case using ih by simp
qed simp

section \<open>The chain\<close>

lemma dset_elem: "x \<in> set (dset d k v) \<Longrightarrow> x = (k, v) \<or> x \<in> set d"
  by (induction d k v rule: dset.induct) (auto split: if_splits)

lemma dget_elem: "dget d k = Some v \<Longrightarrow> (k, v) \<in> set d"
  by (simp add: dget_def map_of_SomeD)

lemma plan_promotions:
  assumes "foldE (plan_promotion db slots d) acc sels = Inr cp" and "distinct (map fst (cp_promotions acc))"
    and "\<forall>(u, p) \<in> set (cp_promotions acc). s_stream (pm_row p) = u" and "\<forall>(u, sel) \<in> set sels. s_stream (sl_row sel) = u"
  shows "distinct (map fst (cp_promotions cp)) \<and> fst ` set (cp_promotions cp) = fst ` set (cp_promotions acc) \<union> fst ` set sels \<and>
    (\<forall>(u, p) \<in> set (cp_promotions cp). s_stream (pm_row p) = u)"
  using assms
proof (induction sels arbitrary: acc)
  case (Cons x sels)
  obtain stream sel where [simp]: "x = (stream, sel)" by (cases x)
  obtain mid where one: "plan_promotion db slots d acc (stream, sel) = Inr mid" and rest: "foldE (plan_promotion db slots d) mid sels = Inr cp"
    using Cons.prems(1) by (auto simp: bindE_eq_Inr)
  obtain p keys where p: "build_promotion db slots d stream sel = Inr (p, keys)"
    and mid: "cp_promotions mid = dset (cp_promotions acc) stream p"
    using one by (auto simp: plan_promotion_def bindE_eq_Inr)
  have row: "pm_row p = sl_row sel"
    using p by (auto simp: build_promotion_def Let_def bindE_eq_Inr split: option.splits prod.splits)
  have "\<forall>(u, p) \<in> set (dset (cp_promotions acc) stream p). s_stream (pm_row p) = u"
    using Cons.prems(3,4) row by (auto dest!: dset_elem)
  with Cons.IH [OF rest] Cons.prems(2,4) show ?case by (auto simp: mid keys_dset)
qed simp

text \<open>Every stored row of the promoted stream is applied at the promoted revision.\<close>

definition promotion_revision :: "promotion \<Rightarrow> int" where
  "promotion_revision p = (case pm_revision p of None \<Rightarrow> s_desired (pm_row p) | Some v \<Rightarrow> v)"

definition settled_at :: "store \<Rightarrow> promotion \<Rightarrow> bool" where
  "settled_at s p = (\<forall>x \<in> set (st_streams s). s_device x = s_device (pm_row p) \<and> s_stream x = s_stream (pm_row p) \<longrightarrow>
     s_authorized x = promotion_revision p \<and> s_applied x = promotion_revision p \<and> s_document x = Some (pm_desired p))"

lemma settle_effect:
  assumes "settle_wire_equivalent p s = Inr s'"
  shows "settled_at s' p \<and> st_gens s' = st_gens s \<and> (s_stream (pm_row q) \<noteq> s_stream (pm_row p) \<longrightarrow> settled_at s q \<longrightarrow> settled_at s' q)"
  using assms by (auto simp: settle_wire_equivalent_def Let_def bindE_eq_Inr authorized_assignment_def settled_at_def promotion_revision_def
      upd_streams_def set_upd_where split: if_splits)

definition settles :: "store \<Rightarrow> int \<Rightarrow> (string \<times> promotion) list \<Rightarrow> string \<Rightarrow> bool" where
  "settles s d ps w = (case dget ps w of None \<Rightarrow> False | Some p \<Rightarrow> can_settle_wire_equivalent s d p)"

lemma settles_gens: "st_gens s' = st_gens s \<Longrightarrow> settles s' d ps = settles s d ps"
  by (rule ext) (simp add: settles_def can_settle_wire_equivalent_def split: option.split)

lemma settle_streams_effect:
  assumes "foldE (settle_streams d ps) ac ws = Inr out"
  shows "lp_apply (ac_links out) = lp_apply (ac_links ac) @ filter (\<lambda>w. \<not> settles (p_store (ac_db ac)) d ps w) ws \<and>
    networked_links (ac_links out) u = networked_links (ac_links ac) u \<and> detach_links (ac_links out) u = detach_links (ac_links ac) u \<and>
    ac_promotions out = ac_promotions ac \<and>
    dhas (ac_skipped out) u = (dhas (ac_skipped ac) u \<or> u \<in> set ws \<and> settles (p_store (ac_db ac)) d ps u)"
  using assms
proof (induction ws arbitrary: ac)
  case (Cons w ws)
  obtain mid where one: "settle_streams d ps ac w = Inr mid" and rest: "foldE (settle_streams d ps) mid ws = Inr out"
    using Cons.prems by (auto simp: bindE_eq_Inr)
  obtain p where p: "dget ps w = Some p" using one by (cases "dget ps w") (auto simp: settle_streams_def)
  note ih = Cons.IH [OF rest]
  show ?case
  proof (cases "can_settle_wire_equivalent (p_store (ac_db ac)) d p")
    case True
    then obtain s' where s': "settle_wire_equivalent p (p_store (ac_db ac)) = Inr s'"
      and mid: "mid = ac\<lparr>ac_db := (ac_db ac)\<lparr>p_store := s'\<rparr>, ac_skipped := dset (ac_skipped ac) w ''already_applied''\<rparr>"
      using one p by (auto simp: settle_streams_def bindE_eq_Inr)
    have "settles s' d ps = settles (p_store (ac_db ac)) d ps" using settle_effect [OF s'] by (intro settles_gens) blast
    moreover have "settles (p_store (ac_db ac)) d ps w" using p True by (simp add: settles_def)
    ultimately show ?thesis using ih by (auto simp: mid dhas_iff)
  next
    case False
    then have mid: "mid = ac\<lparr>ac_links := (ac_links ac)\<lparr>lp_apply := lp_apply (ac_links ac) @ [w]\<rparr>\<rparr>"
      using one p by (simp add: settle_streams_def)
    have "\<not> settles (p_store (ac_db ac)) d ps w" using p False by (simp add: settles_def)
    then show ?thesis using ih by (auto simp: mid)
  qed
qed simp

lemma settle_streams_store:
  assumes "foldE (settle_streams d ps) ac ws = Inr out" and "\<forall>(u, q) \<in> set ps. s_stream (pm_row q) = u"
    and "dget ps w = Some p" and "w \<in> set ws \<and> settles (p_store (ac_db ac)) d ps w \<or> settled_at (p_store (ac_db ac)) p"
  shows "settled_at (p_store (ac_db out)) p"
  using assms(1,4)
proof (induction ws arbitrary: ac)
  case (Cons x ws)
  obtain mid where one: "settle_streams d ps ac x = Inr mid" and rest: "foldE (settle_streams d ps) mid ws = Inr out"
    using Cons.prems(1) by (auto simp: bindE_eq_Inr)
  obtain q where q: "dget ps x = Some q" using one by (cases "dget ps x") (auto simp: settle_streams_def)
  have names: "s_stream (pm_row q) = x" "s_stream (pm_row p) = w" using assms(2,3) q by (auto dest!: dget_elem)
  show ?case
  proof (rule Cons.IH [OF rest], cases "can_settle_wire_equivalent (p_store (ac_db ac)) d q")
    case True
    then obtain s' where s': "settle_wire_equivalent q (p_store (ac_db ac)) = Inr s'"
      and mid: "p_store (ac_db mid) = s'"
      using one q by (auto simp: settle_streams_def bindE_eq_Inr)
    note eff = settle_effect [OF s', of p]
    then have "settles s' d ps = settles (p_store (ac_db ac)) d ps" by (intro settles_gens) blast
    then show "w \<in> set ws \<and> settles (p_store (ac_db mid)) d ps w \<or> settled_at (p_store (ac_db mid)) p"
      using eff Cons.prems(2) names q assms(3) by (cases "x = w") (auto simp: mid)
  next
    case False
    then have "p_store (ac_db mid) = p_store (ac_db ac)" using one q by (auto simp: settle_streams_def)
    then show "w \<in> set ws \<and> settles (p_store (ac_db mid)) d ps w \<or> settled_at (p_store (ac_db mid)) p"
      using False Cons.prems(2) q by (auto simp: settles_def)
  qed
qed simp

section \<open>A sample promotion\<close>

definition no_slots :: prepared_slots where
  "no_slots _ = (None, None)"

definition sample_receipt :: receipt where
  "sample_receipt = \<lparr>rc_device = 1, rc_section = ''vlan'', rc_push_seq = 5, rc_digest = ''digest'', rc_store_only = False,
     rc_delete_origin = False, rc_backfill_only = False, rc_response = Some [(''count'', JInt 1)], rc_status = 200, rc_generation = None\<rparr>"

definition received :: push_db where
  "received = sample_push_db\<lparr>p_receipts := [sample_receipt], p_store := sample_store\<lparr>st_streams := [(sample_stream 1 ''vlan'' 10 9 9)\<lparr>
     s_push_seq := Some 5, s_document := Some [(''vlan_intent'', JList [JObj (sample_vlan 3 30), JObj (sample_vlan 4 40)])]\<rparr>]\<rparr>\<rparr>"

definition sample_selection :: selection where
  "sample_selection = \<lparr>sl_row = the (stream_at (p_store received) 1 ''vlan''),
     sl_receipt = latest_receipt (p_receipts received) 1 ''vlan'', sl_revision = None\<rparr>"

definition sample_promotion :: promotion where
  "sample_promotion = \<lparr>pm_row = sl_row sample_selection, pm_receipt = Some sample_receipt,
     pm_desired = [(''vlan_intent'', JList [JObj (sample_vlan 4 40)]),
       (EXECUTION_KEY, JObj [(''context'', JObj [(''ned_id'', JNull), (''dialect'', JStr ''identity'')])])],
     pm_networked = [], pm_detached = [(''vlan_intent'', [sample_vlan 3 30])], pm_replacement = [], pm_positive = False, pm_revision = None\<rparr>"

definition sample_intermediate :: jdict where
  "sample_intermediate = projr (retain_rows (pm_desired sample_promotion) (pm_detached sample_promotion) ''vlan'' (s_document (pm_row sample_promotion)))"

lemma sample_built: "build_promotion received no_slots 1 ''vlan'' sample_selection = Inr (sample_promotion, [])"
  by code_simp

definition sample_selected :: selected where
  "sample_selected = projr (selected_promotions (p_store received) (p_store received) (p_receipts received) 1 [(''vlan'', 5), (''ntp'', 4)])"

definition sample_chain :: apply_chain where
  "sample_chain = projr (plan_apply_chain no_slots 1 [(''vlan'', sample_selection)] received)"

section \<open>Properties\<close>

text \<open>
  C6. Only rows marked for deletion leave the device: of the authorized rows that leave the
  intent of a promoted stream, the networked removal holds exactly those whose marking is
  delete-origin, and every other one is detached and kept in the intermediate document, which
  holds the desired rows and the detached rows and nothing else.
\<close>

theorem only_marked_rows_leave_the_device:
  assumes "build_promotion db slots d stream sel = Inr (p, keys)"
    and "sl_revision sel = None" and "sl_receipt sel = Some rc"
    and "retain_rows (pm_desired p) (pm_detached p) stream (s_document (pm_row p)) = Inr intermediate"
    and "authorized = fragment_tables (s_document (sl_row sel))" and "distinct (map fst authorized)" and "t \<in> set (map fst authorized)"
  shows "\<exists>want have_rows. rows_by_intent_identity (fragment_tables (Some (pm_desired p))) t = Inr want \<and>
    rows_by_intent_identity authorized t = Inr have_rows \<and>
    set (group_rows (pm_networked p) t) = snd ` {ir \<in> set have_rows. leaves_intent t want ir \<and> marked_delete rc t (snd ir)} \<and>
    set (group_rows (pm_detached p) t) = snd ` {ir \<in> set have_rows. leaves_intent t want ir \<and> \<not> marked_delete rc t (snd ir)} \<and>
    set (table_rows intermediate t) = set (table_rows (pm_desired p) t) \<union> set (group_rows (pm_detached p) t)"
proof -
  have row: "pm_row p = sl_row sel" and split: "fragment_deletions (s_document (sl_row sel)) (pm_desired p) rc = Inr (pm_networked p, pm_detached p)"
    using assms(1-3) by (auto simp: build_promotion_def Let_def bindE_eq_Inr)
  have "t \<noteq> EXECUTION_KEY" using assms(5,7) by (auto simp: fragment_tables_def)
  moreover have "distinct (map fst (pm_detached p))"
    using split_keys [OF split [unfolded fragment_deletions_def Let_def]] by simp
  ultimately have kept: "set (table_rows intermediate t) = set (table_rows (pm_desired p) t) \<union> set (group_rows (pm_detached p) t)"
    using retain_rows_tables [OF assms(4)] by blast
  from fragment_deletions_split [OF split assms(6,7) [unfolded assms(5)]] kept show ?thesis
    unfolding assms(5) by auto
qed

theorem only_marked_rows_leave_the_device_witness:
  "group_rows (pm_networked sample_promotion) ''vlan_intent'' = [] \<and>
   set (table_rows sample_intermediate ''vlan_intent'') = {sample_vlan 4 40, sample_vlan 3 30}"
proof -
  have "\<not> isl (retain_rows (pm_desired sample_promotion) (pm_detached sample_promotion) ''vlan'' (s_document (pm_row sample_promotion)))"
    by code_simp
  then have kept: "retain_rows (pm_desired sample_promotion) (pm_detached sample_promotion) ''vlan'' (s_document (pm_row sample_promotion)) = Inr sample_intermediate"
    unfolding sample_intermediate_def by simp
  have sel: "sl_revision sample_selection = None" "sl_receipt sample_selection = Some sample_receipt" by code_simp+
  have "map fst (fragment_tables (s_document (sl_row sample_selection))) = [''vlan_intent'']" by code_simp
  then have keys: "distinct (map fst (fragment_tables (s_document (sl_row sample_selection))))"
    "''vlan_intent'' \<in> set (map fst (fragment_tables (s_document (sl_row sample_selection))))" by simp_all
  have rows: "group_rows (pm_networked sample_promotion) ''vlan_intent'' = []"
    "table_rows (pm_desired sample_promotion) ''vlan_intent'' = [sample_vlan 4 40]"
    "group_rows (pm_detached sample_promotion) ''vlan_intent'' = [sample_vlan 3 30]" by code_simp+
  have "set (table_rows sample_intermediate ''vlan_intent'') =
      set (table_rows (pm_desired sample_promotion) ''vlan_intent'') \<union> set (group_rows (pm_detached sample_promotion) ''vlan_intent'')"
    using only_marked_rows_leave_the_device [OF sample_built sel kept refl keys] by blast
  then show ?thesis using rows by auto
qed

text \<open>
  C17. Every selection is either promoted or skipped with a reason, never both, and a promoted
  selection is exact: it names the stored row of its stream, and it is the latest receipt's own
  push (or the prepared revision) and newer than what is authorized and applied.
\<close>

theorem selections_are_exact:
  assumes "selected_promotions s later rs d selection = Inr out" and "distinct (map fst selection)" and "(stream, n) \<in> set selection"
  shows "case dget (se_promotable out) stream of
     Some sel \<Rightarrow> exact_selection s rs d stream n sel \<and> \<not> dhas (se_skipped out) stream
   | None \<Rightarrow> dhas (se_skipped out) stream"
proof -
  have "distinct (map fst (sort_key fst selection))"
    using assms(2) by (simp add: distinct_map)
  then have "\<forall>(stream, n) \<in> set (sort_key fst selection). (case dget (se_promotable out) stream of
       Some sel \<Rightarrow> exact_selection s rs d stream n sel \<and> \<not> dhas (se_skipped out) stream
     | None \<Rightarrow> dhas (se_skipped out) stream)"
    using select_streams [OF assms(1) [unfolded selected_promotions_def]] by (simp add: dhas_iff)
  then show ?thesis using assms(3) by auto
qed

theorem selections_are_exact_witness:
  "exact_selection (p_store received) (p_receipts received) 1 ''vlan'' 5 (the (dget (se_promotable sample_selected) ''vlan'')) \<and>
   \<not> dhas (se_skipped sample_selected) ''vlan'' \<and> dhas (se_skipped sample_selected) ''ntp''"
proof -
  have "\<not> isl (selected_promotions (p_store received) (p_store received) (p_receipts received) 1 [(''vlan'', 5), (''ntp'', 4)])"
    by code_simp
  then have out: "selected_promotions (p_store received) (p_store received) (p_receipts received) 1 [(''vlan'', 5), (''ntp'', 4)] = Inr sample_selected"
    by (simp add: sample_selected_def)
  have "map fst (se_promotable sample_selected) = [''vlan'']" by code_simp
  then obtain sel where "se_promotable sample_selected = [(''vlan'', sel)]" by (auto simp: map_eq_Cons_conv)
  then show ?thesis
    using selections_are_exact [OF out, of "''vlan''" 5] selections_are_exact [OF out, of "''ntp''" 4] by simp
qed



end
