(* ===== verification/Spec2Isabelle.thy ===== *)
theory Spec2Isabelle
  imports Revision_Order Promotion
begin

text \<open>
  \<^bold>\<open>nso-adapter: a verification development of its deployment engine.\<close>

  The adapter (\<open>src/nso_adapter\<close>) accepts intent for network devices, stores it, freezes it
  into an ordered chain of immutable deployment generations per device, and lets a pool of
  workers execute the chain through NSO, with durable evidence of every attempt.  The theories
  below are a shallow embedding of that engine: the PostgreSQL tables are a \<open>store\<close> record of
  lists of row records, a transaction is a function from store to store, a raised exception is
  \<open>Inl\<close> of the type \<open>exn\<close> (the transaction is rolled back, so the store is the one before), and
  a returned value is \<open>Inr\<close>.  What other transactions commit between two statements is an
  explicit argument (\<open>mid\<close>) or a run of other steps; whether a row is locked by another
  transaction is a predicate (\<open>held\<close>, \<open>busy\<close>); a COMMIT whose acknowledgement is lost is a
  \<open>commit_fate\<close>.  Timestamps are integers.  JSON is the datatype \<open>json\<close>; a Python dictionary is
  an association list.

  \<^bold>\<open>Theories and the code they model.\<close>

  \<^item> \<^verbatim>\<open>Prelude\<close>: JSON, dictionaries, loops that may raise, the table algebra
    (\<open>upd_where\<close>, \<open>row_by\<close>, \<open>first_by\<close>), and the interfaces of the development: updates that keep
    a key, sequence allocators, transition systems with an inductive invariant, exclusive locks.
  \<^item> \<^verbatim>\<open>Device_Store\<close>, \<^verbatim>\<open>Sample_Data\<close>: the tables of \<open>store/models.py\<close> the engine works on,
    the exceptions, and a small store on which witnesses evaluate.
  \<^item> \<^verbatim>\<open>Origins\<close>, \<^verbatim>\<open>Evidence_Records\<close>: the origin index of a rendered document and the
    attribution of refusals (\<open>nso/origins.py\<close>), and its durable encoding
    (\<open>store/execution_evidence.py\<close>): decoding gives the index back; attribution is all or nothing.
  \<^item> \<^verbatim>\<open>Settle_Counter\<close>, \<^verbatim>\<open>Generation_Settlement\<close>: the settlement sequence
    (\<open>store/device_settle.py\<close>) and the settlement of generations (\<open>core/generation.py\<close>): only
    revisions proved by a settled generation or a whole cohort are recorded as applied.
  \<^item> \<^verbatim>\<open>Claims\<close>, \<^verbatim>\<open>Terminal_Writer\<close>, \<^verbatim>\<open>Claim_Recovery\<close>: the device claim, the one terminal
    writer and the recovery of stale claims (\<open>core/claim.py\<close>): exclusiveness under arbitrary
    traffic, fencing of revoked tokens, no leak when a COMMIT is lost, all-or-nothing writes.
  \<^item> \<^verbatim>\<open>Execution_Evidence\<close>, \<^verbatim>\<open>Execution_Attempts\<close>: the outcome of every logical row and the
    life of an execution attempt (\<open>store/execution_attempt_store.py\<close>, \<open>core/execution.py\<close>).
  \<^item> \<^verbatim>\<open>Job_Admission\<close>: the queue (\<open>core/jobs.py\<close>): coalescing, dedicated and provision jobs and
    the wrappers that end a run.
  \<^item> \<^verbatim>\<open>AS_Numbers\<close>: AS-number parsing and row identities (\<open>domain/asn.py\<close>), NED names.
  \<^item> \<^verbatim>\<open>Section_Registry\<close>, \<^verbatim>\<open>Document_Plane\<close>: the registry of document sections, the streams
    derived from it, fragments, composition and hydration (\<open>core/projection.py\<close>).
  \<^item> \<^verbatim>\<open>Static_Route_Plan\<close>: classification, freezing, pruning, extension and hydration of
    static-route plans (\<open>core/static_route_plan.py\<close>) and the renderer of one entry.
  \<^item> \<^verbatim>\<open>Generation_Chain\<close>: accepted writes, promotion, creation and reissue of generations, the
    success barrier, carriers, the operator's exits, advancement and recovery
    (\<open>core/generation.py\<close>).
  \<^item> \<^verbatim>\<open>Intent_Identity\<close>, \<^verbatim>\<open>Fragment_Freeze\<close>: the durable identity of an intent row, the
    snapshot of a stream's live rows, the context and proof frozen with it and their hydration,
    and the rows a detach retains (\<open>core/projection.py\<close>): new database ids never read as
    deletions; the interface proof hydrates to what was frozen.
  \<^item> \<^verbatim>\<open>Push_Receipts\<close>: the keyed intent push (\<open>core/receipt.py\<close>, \<open>core/request_flags.py\<close>,
    \<open>api/intent_push.py\<close>): work runs once per sequence, a redelivery replays, a deletion's first
    marking persists until it is consumed.
  \<^item> \<^verbatim>\<open>Promotion\<close>: which selections promote, what a promotion removes, loses and adds, and the
    links that deliver it (\<open>core/generation.py\<close>, with the content predicates of
    \<open>core/removal.py\<close>): only marked rows leave the device and no selected change is dropped.
  \<^item> \<^verbatim>\<open>Worker\<close>: how a worker takes work and how startup recovers it (\<open>core/worker.py\<close>).
  \<^item> \<^verbatim>\<open>Success_Barrier\<close>: the step relation \<open>chain_step\<close> of all operations on the chain, its
    invariant \<open>chain_ok\<close>, and the barrier and the finality of history for every reachable store.
  \<^item> \<^verbatim>\<open>Chain_Progress\<close>: recovery completes, the pending head can start, retry re-executes the
    stored document, the worker's scan implements its specification.
  \<^item> \<^verbatim>\<open>Revision_Order\<close>: applied, authorized and desired revisions stay ordered on every run.

  \<^bold>\<open>How the parts interact.\<close>  A push is admitted
  against its receipt (\<open>begin_delivery\<close>) and its write (\<open>note_write\<close>) raises the stream's
  desired revision; a selection is resolved and planned into links (\<open>plan_apply_chain\<close>); a
  promotion (\<open>create_generation\<close>) authorizes it and appends a generation; admission attaches the
  generation to a queued job; a worker that holds the device's claim starts the oldest job the
  success barrier admits (\<open>start_head_under_claim\<close>); the run prepares an attempt, records
  responses and is disposed of; the terminal writer ends the job, settles what it carries and
  stamps the applied revisions; an operator retries or abandons a blocked head; advancement and
  recovery hand a pending head a new job.  \<open>chain_step\<close> composes these operations, and the
  theorems of \<^verbatim>\<open>Success_Barrier\<close>, \<^verbatim>\<open>Chain_Progress\<close> and \<^verbatim>\<open>Revision_Order\<close> hold for
  every sequence of them from empty tables; a re-disposition, which reads the queue and writes
  later, may have any run of other steps in between.

  \<^bold>\<open>Bounds and fuel.\<close>  The only counters that bound recursion are the code's own: three rounds of
  coalescible and of provision admission (\<open>ADMISSION_RETRIES\<close>, the constants of \<open>core/jobs.py\<close>),
  the poll attempts of a waiting acquisition, and the batch of ten candidates of one poll.  All
  other recursion is structural.  Integers of the database are unbounded: the columns are
  64-bit and grow by one per operation.

  \<^bold>\<open>Parameters.\<close>  Hashing (\<open>e_digest\<close>), the catalog and codec of row references
  (\<open>e_membership\<close>, \<open>e_codec_ok\<close>), the frozen snapshot a generation of the chain is created
  from (\<open>snap\<close>, which \<open>snapshot_stream\<close> and \<open>freeze_or_refuse\<close> compute) and the digest of a
  request body are arguments; no theorem assumes anything about them.  The reads and writes of
  an intent endpoint between admission and response are the argument \<open>work\<close> of \<open>deliver\<close>; the
  theorems about pushes assume that it leaves the receipts alone, as every endpoint does.

  \<^bold>\<open>Not modelled.\<close>  The bodies of the apply and removal runners, the NSO encoders and client, the
  importer and the read models, the removal jobs a planned link becomes, onboarding, preflight, fail-over, the scheduler, the per-feature
  intent tables, the HTTP API, secrets and notifications: they are I/O, or large per-feature
  tables around the engine.  The asyncio machinery of the worker pool (cancellation, draining,
  heartbeats) is represented by the interleavings it can cause, not by its own code.
\<close>

end
